(* ===== verification/FTB_Prelude.thy ===== *)
theory FTB_Prelude
  imports Complex_Main "HOL-Library.Word"
begin

text \<open>
  Shared vocabulary of the development: the machine types the program uses, the exceptions its
  code raises, the result type of the fallible operations, decimal printing of integers, the
  big-endian byte order of the network encoding, and the generic list facts the components rely
  on. Nothing here is specific to one component.

  Assertions are part of the model. A C++ \<open>assert\<close> whose condition does not hold becomes the
  exception \<open>AssertionFailed\<close> (the behaviour of a build without \<open>NDEBUG\<close>), so that a theorem
  about a regular result also says that no assertion on the way fails.
\<close>

unbundle bit_operations_syntax

named_theorems res_simps \<open>equations of the result combinators\<close>
named_theorems frame_simps \<open>which fields an operation leaves unchanged\<close>

section \<open>Machine types\<close>

text \<open>
  \<open>double\<close> is the 64 bit pattern of an IEEE 754 number (theory IEEE\_Double gives its arithmetic),
  \<open>int32\<close> the pattern of a C++ \<open>int\<close> or \<open>unsigned\<close> (\<open>sint\<close> and \<open>unat\<close> read it), \<open>byte\<close> a \<open>uint8_t\<close>.
\<close>

type_synonym byte = "8 word"
type_synonym int32 = "32 word"
type_synonym double = "64 word"

section \<open>Exceptions and results\<close>

text \<open>
  \<open>SystemConfigurationException\<close> carries its message and, when it was constructed with them
  (\<open>configSet\<close>), the offending key and value; \<open>SolverException\<close> carries its message and the
  simulation time. Both derive from \<open>std::invalid_argument\<close>.
\<close>

datatype exn =
    InvalidArgument string
  | SystemConfigurationException string "(string \<times> string) option"
  | SolverException string double
  | RuntimeError string
  | BadAnyCast
  | AssertionFailed

fun is_invalid_argument :: "exn \<Rightarrow> bool" where
  "is_invalid_argument (InvalidArgument _) = True"
| "is_invalid_argument (SystemConfigurationException _ _) = True"
| "is_invalid_argument (SolverException _ _) = True"
| "is_invalid_argument _ = False"

text \<open>\<open>hasConfig\<close>, \<open>getKey\<close>, \<open>getValue\<close> and \<open>getTimestamp\<close> of the two exception classes.\<close>

fun hasConfig :: "exn \<Rightarrow> bool" where
  "hasConfig (SystemConfigurationException _ c) = (c \<noteq> None)"
| "hasConfig _ = False"

fun getKey :: "exn \<Rightarrow> string" where
  "getKey (SystemConfigurationException _ (Some (k, _))) = k"
| "getKey _ = ''''"

fun getConfigValue :: "exn \<Rightarrow> string" where
  "getConfigValue (SystemConfigurationException _ (Some (_, v))) = v"
| "getConfigValue _ = ''''"

fun getTimestamp :: "exn \<Rightarrow> double option" where
  "getTimestamp (SolverException _ t) = Some t"
| "getTimestamp _ = None"

type_synonym 'a res = "exn + 'a"

fun rbind :: "'e + 'a \<Rightarrow> ('a \<Rightarrow> 'e + 'b) \<Rightarrow> 'e + 'b" where
  "rbind (Inl e) f = Inl e"
| "rbind (Inr x) f = f x"

definition assert_that :: "bool \<Rightarrow> unit res" where
  "assert_that b = (if b then Inr () else Inl AssertionFailed)"

declare rbind.simps [res_simps]

lemma rbind_Inr_iff [res_simps]: "rbind m f = Inr y \<longleftrightarrow> (\<exists>x. m = Inr x \<and> f x = Inr y)"
  by (cases m) auto

lemma rbind_Inl_iff: "rbind m f = Inl e \<longleftrightarrow> m = Inl e \<or> (\<exists>x. m = Inr x \<and> f x = Inl e)"
  by (cases m) auto

lemma rbind_assoc: "rbind (rbind m f) g = rbind m (\<lambda>x. rbind (f x) g)"
  by (cases m) auto

lemma rbind_Inr_right [simp]: "rbind m Inr = m"
  by (cases m) auto

lemma assert_that_True [simp, res_simps]: "assert_that True = Inr ()"
  by (simp add: assert_that_def)

lemma assert_that_Inr [simp, res_simps]: "assert_that b = Inr u \<longleftrightarrow> b"
  by (simp add: assert_that_def)

lemma assert_that_Inl [simp, res_simps]: "assert_that b = Inl e \<longleftrightarrow> \<not> b \<and> e = AssertionFailed"
  by (auto simp: assert_that_def)

text \<open>
  Contracts of results: \<open>outcome E Q r\<close> says that a result is a value with \<open>Q\<close> or an exception with \<open>E\<close>.
  The rules follow the sequencing of the code.
\<close>

definition outcome :: "(exn \<Rightarrow> bool) \<Rightarrow> ('a \<Rightarrow> bool) \<Rightarrow> 'a res \<Rightarrow> bool" where
  "outcome E Q r = (case r of Inl e \<Rightarrow> E e | Inr x \<Rightarrow> Q x)"

lemma outcome_simps [simp]: "outcome E Q (Inl e) = E e" "outcome E Q (Inr x) = Q x"
  by (simp_all add: outcome_def)

lemma outcome_bind:
  assumes "outcome E R m" and "\<And>x. m = Inr x \<Longrightarrow> R x \<Longrightarrow> outcome E Q (f x)"
  shows "outcome E Q (rbind m f)"
  using assms by (cases m) simp_all

lemma outcome_bind_assert: "b \<Longrightarrow> outcome E Q (f ()) \<Longrightarrow> outcome E Q (rbind (assert_that b) f)"
  by (simp add: assert_that_def)

lemma outcome_mono: "outcome E R r \<Longrightarrow> (\<And>x. R x \<Longrightarrow> Q x) \<Longrightarrow> (\<And>e. E e \<Longrightarrow> F e) \<Longrightarrow> outcome F Q r"
  by (cases r) simp_all

lemma outcome_raises: "outcome E Q r \<Longrightarrow> (\<And>e. E e \<Longrightarrow> F e) \<Longrightarrow> outcome F Q r"
  by (cases r) simp_all

lemma outcome_conj: "outcome E Q r \<Longrightarrow> outcome E R r \<Longrightarrow> outcome E (\<lambda>x. Q x \<and> R x) r"
  by (cases r) simp_all

lemma outcomeD: "outcome E Q r \<Longrightarrow> r = Inr x \<Longrightarrow> Q x"
  by simp

section \<open>Decimal numerals\<close>

text \<open>\<open>std::to_string\<close> and \<open>boost::format\<close> print an integer in decimal.\<close>

definition digit_char :: "nat \<Rightarrow> char" where
  "digit_char d = char_of (48 + d)"

fun show_nat :: "nat \<Rightarrow> string" where
  "show_nat n = (if n < 10 then [digit_char n] else show_nat (n div 10) @ [digit_char (n mod 10)])"

definition show_int :: "int \<Rightarrow> string" where
  "show_int i = (if i < 0 then CHR ''-'' # show_nat (nat (- i)) else show_nat (nat i))"

declare show_nat.simps [simp del]

lemma digit_char_eval:
  "digit_char 0 = CHR ''0''" "digit_char 1 = CHR ''1''" "digit_char 2 = CHR ''2''"
  "digit_char 3 = CHR ''3''" "digit_char 4 = CHR ''4''" "digit_char 5 = CHR ''5''"
  "digit_char 6 = CHR ''6''" "digit_char 7 = CHR ''7''" "digit_char 8 = CHR ''8''"
  "digit_char 9 = CHR ''9''" "digit_char (Suc 0) = CHR ''1''"
  "digit_char (Suc (Suc 0)) = CHR ''2''" "digit_char (Suc (Suc (Suc 0))) = CHR ''3''"
  by code_simp+

lemma show_nat_digit: "n < 10 \<Longrightarrow> show_nat n = [digit_char n]"
  by (simp add: show_nat.simps [of n])

fun nat_of_digits :: "string \<Rightarrow> nat" where
  "nat_of_digits s = foldl (\<lambda>a c. a * 10 + (of_char c - 48)) 0 s"

lemma of_char_digit_char: "d < 10 \<Longrightarrow> (of_char (digit_char d) :: nat) = 48 + d"
  by (simp add: digit_char_def of_char_of)

lemma nat_of_digits_show_nat: "nat_of_digits (show_nat n) = n"
proof (induction n rule: show_nat.induct)
  case (1 n)
  show ?case
  proof (cases "n < 10")
    case True
    then show ?thesis by (simp add: show_nat.simps [of n] of_char_digit_char)
  next
    case False
    then have "show_nat n = show_nat (n div 10) @ [digit_char (n mod 10)]"
      by (simp add: show_nat.simps [of n])
    with False "1.IH" show ?thesis by (simp add: of_char_digit_char)
  qed
qed

lemma show_nat_inject [simp]: "show_nat m = show_nat n \<longleftrightarrow> m = n"
  by (metis nat_of_digits_show_nat)

lemma show_nat_digits: "c \<in> set (show_nat n) \<Longrightarrow> \<exists>d<10. c = digit_char d"
proof (induction n rule: show_nat.induct)
  case (1 n)
  show ?case
  proof (cases "n < 10")
    case True
    with "1.prems" show ?thesis by (auto simp: show_nat.simps [of n])
  next
    case False
    with "1.prems" have "c \<in> set (show_nat (n div 10)) \<or> c = digit_char (n mod 10)"
      by (auto simp: show_nat.simps [of n])
    with False "1.IH" show ?thesis by force
  qed
qed

section \<open>Big-endian byte order\<close>

text \<open>
  The \<open>n\<close> low bytes of a word, most significant first: the loop
  \<open>for (i = n - 1; i >= 0; i--) push_back((val >> (8 * i)) & 0xFF)\<close>; and the word read back.
\<close>

definition be_bytes :: "nat \<Rightarrow> 'a::len word \<Rightarrow> byte list" where
  "be_bytes n w = map (\<lambda>i. ucast (drop_bit (8 * i) w AND 255)) (rev [0..<n])"

definition be_word :: "byte list \<Rightarrow> 'a::len word" where
  "be_word bs = foldl (\<lambda>acc b. push_bit 8 acc OR ucast b) 0 bs"

lemma length_be_bytes [simp]: "length (be_bytes n w) = n"
  by (simp add: be_bytes_def)

lemma be_bytes_Suc: "be_bytes (Suc n) w = ucast (drop_bit (8 * n) w AND 255) # be_bytes n w"
  by (simp add: be_bytes_def)

lemma be_word_snoc: "be_word (bs @ [b]) = push_bit 8 (be_word bs) OR ucast b"
  by (simp add: be_word_def)

lemma be_bytes_Suc_snoc: "be_bytes (Suc n) w = be_bytes n (drop_bit 8 w) @ [ucast (w AND 255)]"
proof (induction n)
  case 0
  show ?case by (simp add: be_bytes_def)
next
  case (Suc n)
  have "be_bytes (Suc (Suc n)) w = ucast (drop_bit (8 * Suc n) w AND 255) # be_bytes (Suc n) w"
    by (rule be_bytes_Suc)
  also have "\<dots> = ucast (drop_bit (8 * n) (drop_bit 8 w) AND 255) # be_bytes n (drop_bit 8 w) @ [ucast (w AND 255)]"
    by (simp add: Suc.IH drop_bit_drop_bit add.commute)
  also have "\<dots> = be_bytes (Suc n) (drop_bit 8 w) @ [ucast (w AND 255)]"
    by (simp add: be_bytes_Suc)
  finally show ?case .
qed

lemma bit_255: "bit (255 :: 'a::len word) i \<longleftrightarrow> i < 8 \<and> i < LENGTH('a)"
proof -
  have "(255 :: 'a word) = mask 8" by (simp add: mask_eq_exp_minus_1)
  moreover have "bit (mask 8 :: 'a word) i \<longleftrightarrow> i < 8 \<and> i < LENGTH('a)"
    by (auto simp only: bit_mask_iff possible_bit_word)
  ultimately show ?thesis by (simp only:)
qed

lemma be_word_be_bytes: "be_word (be_bytes n w) = take_bit (8 * n) w"
  for w :: "'a::len word"
proof (induction n arbitrary: w)
  case 0
  show ?case by (simp add: be_bytes_def be_word_def)
next
  case (Suc n)
  have "be_word (be_bytes (Suc n) w) =
      push_bit 8 (take_bit (8 * n) (drop_bit 8 w)) OR ucast (ucast (w AND 255) :: byte)"
    by (simp add: be_bytes_Suc_snoc be_word_snoc Suc.IH)
  also have "\<dots> = take_bit (8 * Suc n) w"
    by (rule bit_word_eqI)
      (auto simp add: bit_and_iff bit_or_iff bit_push_bit_iff bit_take_bit_iff bit_drop_bit_eq
        bit_ucast_iff bit_255 simp del: bit_numeral_word_iff)
  finally show ?case .
qed

section \<open>Lists\<close>

text \<open>\<open>update_where p f xs\<close>: the loop that assigns to every element with \<open>p\<close>.\<close>

definition update_where :: "('a \<Rightarrow> bool) \<Rightarrow> ('a \<Rightarrow> 'a) \<Rightarrow> 'a list \<Rightarrow> 'a list" where
  "update_where p f xs = map (\<lambda>x. if p x then f x else x) xs"

lemma length_update_where [simp]: "length (update_where p f xs) = length xs"
  by (simp add: update_where_def)

text \<open>The first index at which a predicate holds, as a search loop finds it.\<close>

fun find_index :: "('a \<Rightarrow> bool) \<Rightarrow> 'a list \<Rightarrow> nat option" where
  "find_index p [] = None"
| "find_index p (x # xs) = (if p x then Some 0 else map_option Suc (find_index p xs))"

lemma find_index_Some: "find_index p xs = Some i \<Longrightarrow> i < length xs \<and> p (xs ! i) \<and> (\<forall>j<i. \<not> p (xs ! j))"
proof (induction xs arbitrary: i)
  case Nil
  then show ?case by simp
next
  case (Cons x xs)
  then show ?case by (auto split: if_splits simp: nth_Cons less_Suc_eq_0_disj)
qed

lemma find_index_None: "find_index p xs = None \<longleftrightarrow> (\<forall>x\<in>set xs. \<not> p x)"
  by (induction xs) auto

lemma distinct_concat_keyed:
  assumes "distinct ts" and "\<And>t. distinct (f t)" and "\<And>t x. x \<in> set (f t) \<Longrightarrow> key x = t"
  shows "distinct (concat (map f ts))"
  using assms(1)
proof (induction ts)
  case Nil
  then show ?case by simp
next
  case (Cons t ts)
  then have "set (f t) \<inter> set (f s) = {}" if "s \<in> set ts" for s
    using that assms(3) by (metis disjoint_iff distinct.simps(2))
  with Cons assms(2) show ?case by auto
qed

end
