(* ===== verification/Ports.thy ===== *)
theory Ports
  imports FTB_Prelude
begin

text \<open>
  Port identifiers and their source: \<open>base/PortID\<close> and \<open>base/PortIDDrawer\<close>. A \<open>PortID\<close> is a pair of
  an FMI type and a C++ \<open>int\<close> that is unique within its type; the drawer keeps one unsigned counter
  per type. The counters wrap, so uniqueness holds for up to \<open>2^32\<close> draws.
\<close>

section \<open>FMI types\<close>

datatype fmi_type = fmiTypeReal | fmiTypeInteger | fmiTypeBoolean | fmiTypeString | fmiTypeUnknown

fun type_code :: "fmi_type \<Rightarrow> nat" where
  "type_code fmiTypeReal = 0"
| "type_code fmiTypeInteger = 1"
| "type_code fmiTypeBoolean = 2"
| "type_code fmiTypeString = 3"
| "type_code fmiTypeUnknown = 4"

definition all_types :: "fmi_type list" where
  "all_types = [fmiTypeReal, fmiTypeInteger, fmiTypeBoolean, fmiTypeString, fmiTypeUnknown]"

lemma type_code_less [simp]: "type_code t < 5"
  by (cases t) auto

lemma type_code_inject [simp]: "type_code s = type_code t \<longleftrightarrow> s = t"
  by (cases s; cases t) auto

lemma nth_all_types [simp]: "all_types ! type_code t = t"
  by (cases t) (auto simp: all_types_def)

lemma length_all_types [simp]: "length all_types = 5"
  by (simp add: all_types_def)

lemma set_all_types [simp]: "set all_types = UNIV"
  by (auto simp: all_types_def intro: fmi_type.exhaust)

lemma type_code_all_types: "i < 5 \<Longrightarrow> type_code (all_types ! i) = i"
  by (auto simp: all_types_def nth_Cons numeral_eq_Suc less_Suc_eq split: nat.splits)

text \<open>The types are ordered by their code, the order in which the program walks through them.\<close>

instantiation fmi_type :: linorder
begin

definition less_eq_fmi_type :: "fmi_type \<Rightarrow> fmi_type \<Rightarrow> bool" where
  "less_eq_fmi_type s t \<longleftrightarrow> type_code s \<le> type_code t"

definition less_fmi_type :: "fmi_type \<Rightarrow> fmi_type \<Rightarrow> bool" where
  "less_fmi_type s t \<longleftrightarrow> type_code s < type_code t"

instance
  by standard (auto simp: less_eq_fmi_type_def less_fmi_type_def order_antisym)

end

fun getVariableTypeString :: "fmi_type \<Rightarrow> string" where
  "getVariableTypeString fmiTypeReal = ''Real''"
| "getVariableTypeString fmiTypeInteger = ''Integer''"
| "getVariableTypeString fmiTypeBoolean = ''Boolean''"
| "getVariableTypeString fmiTypeString = ''String''"
| "getVariableTypeString fmiTypeUnknown = ''Unknown''"

section \<open>PortID\<close>

type_synonym port_id = "fmi_type \<times> int32"

definition hashPortID :: "port_id \<Rightarrow> int32" where
  "hashPortID i = word_of_nat (type_code (fst i)) + 5 * snd i"

text \<open>
  On the identifiers below \<open>2^32 div 5\<close> of each type the hash does not collide: the buckets of the
  \<open>unordered_map\<close> of the one-step predictor hold one key each.
\<close>

lemma unat_hashPortID:
  assumes "unat (snd i) < 858993459"
  shows "unat (hashPortID i) = type_code (fst i) + 5 * unat (snd i)"
proof -
  have c: "type_code (fst i) < 5" by simp
  have "5 * unat (snd i) < 2 ^ 32 - 5" using assms by simp
  then have m: "unat (5 * snd i) = 5 * unat (snd i)" by (simp add: unat_word_ariths)
  have t: "unat (word_of_nat (type_code (fst i)) :: int32) = type_code (fst i)"
    by (cases "fst i") simp_all
  have "type_code (fst i) + 5 * unat (snd i) < 4294967296" using c assms by linarith
  then show ?thesis
    unfolding hashPortID_def unat_word_ariths(1) [of "word_of_nat (type_code (fst i))"] m t by simp
qed

lemma hashPortID_inject:
  assumes "unat (snd i) < 858993459" "unat (snd j) < 858993459" "hashPortID i = hashPortID j"
  shows "i = j"
proof -
  have e: "type_code (fst i) + 5 * unat (snd i) = type_code (fst j) + 5 * unat (snd j)"
    using assms unat_hashPortID by metis
  have "type_code (fst i) < 5" "type_code (fst j) < 5" by simp_all
  with e have "type_code (fst i) = type_code (fst j)" by presburger
  moreover from this e have "unat (snd i) = unat (snd j)" by simp
  ultimately show ?thesis by (metis prod_eqI type_code_inject word_unat_eq_iff)
qed

section \<open>PortIDDrawer\<close>

record drawer =
  nextPortID :: "int32 list"

definition new_drawer :: drawer where
  "new_drawer = \<lparr>nextPortID = replicate 5 0\<rparr>"

definition getNextPortID :: "drawer \<Rightarrow> fmi_type \<Rightarrow> (port_id \<times> drawer) res" where
  "getNextPortID d t =
     rbind (assert_that (type_code t < length (nextPortID d))) (\<lambda>_.
       Inr ((t, nextPortID d ! type_code t),
            d\<lparr>nextPortID := (nextPortID d)[type_code t := nextPortID d ! type_code t + 1]\<rparr>))"

text \<open>A sequence of draws, as the channel mappings perform them over the program's life.\<close>

fun draw_all :: "drawer \<Rightarrow> fmi_type list \<Rightarrow> (port_id list \<times> drawer) res" where
  "draw_all d [] = Inr ([], d)"
| "draw_all d (t # ts) =
     rbind (getNextPortID d t) (\<lambda>(i, d').
       rbind (draw_all d' ts) (\<lambda>(ids, d''). Inr (i # ids, d'')))"

text \<open>
  The drawer's invariant. \<open>drawn d i\<close> says that the identifier \<open>i\<close> was handed out before: its
  number is below the counter of its type. It is meaningful while no counter has wrapped.
\<close>

definition drawer_ok :: "drawer \<Rightarrow> bool" where
  "drawer_ok d \<longleftrightarrow> length (nextPortID d) = 5"

definition drawn :: "drawer \<Rightarrow> port_id \<Rightarrow> bool" where
  "drawn d i \<longleftrightarrow> unat (snd i) < unat (nextPortID d ! type_code (fst i))"

definition drawer_le :: "drawer \<Rightarrow> drawer \<Rightarrow> bool" where
  "drawer_le d d' \<longleftrightarrow> (\<forall>t. unat (nextPortID d ! type_code t) \<le> unat (nextPortID d' ! type_code t))"

definition room :: "nat \<Rightarrow> drawer \<Rightarrow> nat \<Rightarrow> bool" where
  "room l d n \<longleftrightarrow> (\<forall>t. unat (nextPortID d ! type_code t) + n < l)"

lemma drawer_ok_new [simp]: "drawer_ok new_drawer"
  by (simp add: drawer_ok_def new_drawer_def)

lemma nextPortID_new: "nextPortID new_drawer ! type_code t = 0"
  by (simp add: new_drawer_def)

lemma not_drawn_new: "\<not> drawn new_drawer i"
  by (simp add: drawn_def nextPortID_new)

lemma room_new: "room l new_drawer n \<longleftrightarrow> n < l"
  by (simp add: room_def nextPortID_new)

lemma room_mono: "room l d n \<Longrightarrow> m \<le> n \<Longrightarrow> room l d m"
  unfolding room_def by (meson add_left_mono le_less_trans)

lemma drawer_le_refl [simp]: "drawer_le d d"
  by (simp add: drawer_le_def)

lemma drawer_le_trans: "drawer_le a b \<Longrightarrow> drawer_le b c \<Longrightarrow> drawer_le a c"
  unfolding drawer_le_def by (meson order_trans)

lemma drawn_mono: "drawn d i \<Longrightarrow> drawer_le d d' \<Longrightarrow> drawn d' i"
  unfolding drawn_def drawer_le_def by (meson order_less_le_trans)

lemma getNextPortID_Inr:
  assumes "drawer_ok d"
  obtains d' where "getNextPortID d t = Inr ((t, nextPortID d ! type_code t), d')" "drawer_ok d'"
    "\<And>s. nextPortID d' ! type_code s =
       (if s = t then nextPortID d ! type_code t + 1 else nextPortID d ! type_code s)"
  using assms type_code_inject
  by (auto simp: getNextPortID_def drawer_ok_def res_simps nth_list_update)

lemma getNextPortID_spec:
  assumes "drawer_ok d" and "room l d (Suc n)" and "l \<le> 2 ^ 32" and "getNextPortID d t = Inr (i, d')"
  shows "drawer_ok d' \<and> drawer_le d d' \<and> room l d' n \<and> fst i = t \<and> unat (snd i) < l \<and>
    \<not> drawn d i \<and> drawn d' i"
proof -
  obtain e where e: "getNextPortID d t = Inr ((t, nextPortID d ! type_code t), e)" "drawer_ok e"
      and nx: "\<And>s. nextPortID e ! type_code s =
        (if s = t then nextPortID d ! type_code t + 1 else nextPortID d ! type_code s)"
    using getNextPortID_Inr [OF assms(1), of t] by blast
  from e(1) assms(4) have i: "i = (t, nextPortID d ! type_code t)" and d': "d' = e" by auto
  have r: "unat (nextPortID d ! type_code s) + Suc n < l" for s
    using assms(2) by (simp add: room_def)
  have inc: "unat (nextPortID d ! type_code t + 1) = Suc (unat (nextPortID d ! type_code t))"
    using r [of t] assms(3) by (simp add: unat_word_ariths)
  have "unat (nextPortID e ! type_code s) + n < l" for s
    using r [of s] by (cases "s = t") (simp_all add: nx inc)
  then have "drawer_le d e" "room l e n"
    by (simp_all add: drawer_le_def room_def nx inc)
  then show ?thesis using e(2) i d' nx inc r [of t] by (simp add: drawn_def)
qed

lemma draw_all_spec:
  assumes "drawer_ok d" and "room (2 ^ 32) d (length ts)"
  shows "\<exists>ids d'. draw_all d ts = Inr (ids, d') \<and> drawer_ok d' \<and> drawer_le d d' \<and>
    map fst ids = ts \<and> distinct ids \<and> (\<forall>i\<in>set ids. \<not> drawn d i \<and> drawn d' i)"
  using assms
proof (induction ts arbitrary: d)
  case Nil
  then show ?case by simp
next
  case (Cons t ts)
  obtain i d1 where g: "getNextPortID d t = Inr (i, d1)"
    using Cons.prems(1) by (metis getNextPortID_Inr)
  with Cons.prems have s: "drawer_ok d1" "drawer_le d d1" "room (2 ^ 32) d1 (length ts)" "fst i = t"
      "\<not> drawn d i" "drawn d1 i"
    using getNextPortID_spec [of d "2 ^ 32" "length ts" t i d1] by auto
  obtain ids d2 where d2: "draw_all d1 ts = Inr (ids, d2)" "drawer_ok d2" "drawer_le d1 d2"
      "map fst ids = ts" "distinct ids" "\<forall>i\<in>set ids. \<not> drawn d1 i \<and> drawn d2 i"
    using Cons.IH [OF s(1,3)] by blast
  have "i \<notin> set ids" using d2(6) s(6) by blast
  moreover have "\<forall>j\<in>set ids. \<not> drawn d j" using d2(6) s(2) drawn_mono by blast
  moreover have "drawn d2 i" using s(6) d2(3) drawn_mono by blast
  ultimately show ?case using g s d2 drawer_le_trans by auto
qed

text \<open>
  C33: every identifier the drawer hands out is new. Any sequence of fewer than \<open>2^32\<close> draws from a
  fresh drawer succeeds and returns pairwise different identifiers, each of the requested type.
\<close>

theorem draw_all_unique:
  assumes "length ts < 2 ^ 32"
  shows "\<exists>ids d. draw_all new_drawer ts = Inr (ids, d) \<and> map fst ids = ts \<and> distinct ids"
  using draw_all_spec [of new_drawer ts] assms by (auto simp: room_new)

theorem draw_all_unique_witness:
  "\<exists>ids d. draw_all new_drawer [fmiTypeReal, fmiTypeString, fmiTypeReal] = Inr (ids, d) \<and>
     map fst ids = [fmiTypeReal, fmiTypeString, fmiTypeReal] \<and> distinct ids"
  by (rule draw_all_unique) simp

end
