(* ===== verification/IEEE_Double.thy ===== *)
theory IEEE_Double
  imports FTB_Prelude
begin

text \<open>
  The arithmetic of C++ \<open>double\<close> (IEEE 754 binary64, round to nearest, ties to even), as far as
  the program uses it: comparisons, addition, subtraction, multiplication, division, \<open>floor\<close>,
  \<open>fabs\<close>, conversions from and to integers, and the conversion to \<open>float\<close>. Every operation works
  on bit patterns and computes, so that concrete time stamps can be evaluated exactly as the
  machine does; in particular \<open>a + eps\<close> rounds, which matters for the tolerance tests of the
  event queue.

  The magnitude bits of a number, read as a natural number, order the finite numbers
  (\<open>fval_less_iff\<close>); rounding is specified by \<open>rnd_spec\<close>, computed by \<open>frnd\<close>, and shown to agree
  with the specification (\<open>frnd_rnd_spec\<close>) and to be monotone (\<open>rnd_spec_mono\<close>). The theory ends
  with the laws of the time arithmetic as a locale, interpreted on these definitions.
\<close>

section \<open>Magnitudes of a binary format\<close>

text \<open>
  A format has \<open>p\<close> fraction bits and the smallest exponent \<open>emin\<close>. The magnitude code \<open>c\<close> holds
  the biased exponent above the fraction; \<open>fman\<close> and \<open>fexp\<close> decode it, \<open>fcode\<close> encodes it.
\<close>

definition fman :: "nat \<Rightarrow> nat \<Rightarrow> nat" where
  "fman p c = (if c div 2 ^ p = 0 then c mod 2 ^ p else 2 ^ p + c mod 2 ^ p)"

definition fexp :: "nat \<Rightarrow> int \<Rightarrow> nat \<Rightarrow> int" where
  "fexp p emin c = (if c div 2 ^ p = 0 then emin else int (c div 2 ^ p) - 1 + emin)"

definition fcode :: "nat \<Rightarrow> int \<Rightarrow> nat \<Rightarrow> int \<Rightarrow> nat" where
  "fcode p emin m x = nat (x - emin) * 2 ^ p + m"

definition fval :: "nat \<Rightarrow> int \<Rightarrow> nat \<Rightarrow> real" where
  "fval p emin c = real (fman p c) * 2 powi fexp p emin c"

lemma fval_fcode:
  assumes "m \<le> 2 ^ Suc p" and "emin \<le> x" and "emin < x \<Longrightarrow> 2 ^ p \<le> m"
  shows "fval p emin (fcode p emin m x) = real m * 2 powi x"
proof -
  define n where "n = nat (x - emin)"
  have x: "x = int n + emin" using assms(2) by (simp add: n_def)
  consider "m < 2 ^ p" | "2 ^ p \<le> m" "m < 2 ^ Suc p" | "m = 2 ^ Suc p"
    using assms(1) by linarith
  then show ?thesis
  proof cases
    case 1
    with assms have "x = emin" by linarith
    with 1 show ?thesis by (simp add: fval_def fman_def fexp_def fcode_def)
  next
    case 2
    then have "n * 2 ^ p + m = Suc n * 2 ^ p + (m - 2 ^ p)" and "m - 2 ^ p < 2 ^ p" by auto
    then have "(n * 2 ^ p + m) div 2 ^ p = Suc n" and "(n * 2 ^ p + m) mod 2 ^ p = m - 2 ^ p"
      by (simp_all only: div_mult_self3 mod_mult_self3 div_less mod_less)
    with 2 show ?thesis by (simp add: fval_def fman_def fexp_def fcode_def x)
  next
    case 3
    then have "n * 2 ^ p + m = Suc (Suc n) * 2 ^ p" by simp
    then have "(n * 2 ^ p + m) div 2 ^ p = Suc (Suc n)" and "(n * 2 ^ p + m) mod 2 ^ p = 0"
      by (metis nonzero_mult_div_cancel_right power_not_zero zero_neq_numeral, simp)
    with 3 show ?thesis
      by (simp add: fval_def fman_def fexp_def fcode_def x power_int_add)
  qed
qed

lemma fman_bounds: "fman p c < 2 ^ Suc p" "emin \<le> fexp p emin c"
    "emin < fexp p emin c \<Longrightarrow> 2 ^ p \<le> fman p c"
proof -
  have "fman p c \<le> 2 ^ p + c mod 2 ^ p" by (simp add: fman_def)
  also have "\<dots> < 2 ^ p + 2 ^ p" by (intro add_strict_left_mono) simp
  finally show "fman p c < 2 ^ Suc p" by simp
qed (auto simp: fman_def fexp_def)

lemma fcode_fman: "fcode p emin (fman p c) (fexp p emin c) = c"
proof (cases "c div 2 ^ p = 0")
  case True
  then have "c mod 2 ^ p = c" by (simp add: div_eq_0_iff)
  with True show ?thesis by (simp add: fcode_def fman_def fexp_def)
next
  case False
  then have "c = (c div 2 ^ p - 1) * 2 ^ p + (2 ^ p + c mod 2 ^ p)"
    by (metis (no_types, lifting) Suc_pred' add.assoc add.commute bot_nat_0.not_eq_extremum
        div_mult_mod_eq mult_Suc)
  moreover have "nat (int (c div 2 ^ p) - 1) = c div 2 ^ p - 1" using False by linarith
  ultimately show ?thesis using False by (simp add: fcode_def fman_def fexp_def)
qed

lemma fval_Suc: "fval p emin (Suc c) = fval p emin c + 2 powi fexp p emin c"
proof -
  have "Suc c = fcode p emin (Suc (fman p c)) (fexp p emin c)"
    using fcode_fman [of p emin c] by (simp add: fcode_def)
  moreover have "Suc (fman p c) \<le> 2 ^ Suc p" using fman_bounds(1) [of p c] by simp
  ultimately have "fval p emin (Suc c) = real (Suc (fman p c)) * 2 powi fexp p emin c"
    using fval_fcode [of "Suc (fman p c)" p emin "fexp p emin c"]
      fman_bounds(2) [of emin p c] fman_bounds(3) [of emin p c] by force
  then show ?thesis by (simp add: fval_def algebra_simps)
qed

lemma fval_less_iff: "fval p emin c < fval p emin d \<longleftrightarrow> c < d"
proof -
  have "strict_mono (fval p emin)"
    by (simp add: strict_mono_Suc_iff fval_Suc)
  then show ?thesis by (simp add: strict_mono_less)
qed

lemma fval_le_iff: "fval p emin c \<le> fval p emin d \<longleftrightarrow> c \<le> d"
  by (metis fval_less_iff linorder_not_less)

lemma fval_eq_iff: "fval p emin c = fval p emin d \<longleftrightarrow> c = d"
  by (metis fval_le_iff order_antisym order_refl)

lemma fval_0 [simp]: "fval p emin 0 = 0"
  by (simp add: fval_def fman_def)

lemma fval_nonneg [simp]: "0 \<le> fval p emin c"
  by (simp add: fval_def)

section \<open>Rounding\<close>

text \<open>
  The specification: \<open>l\<close> is the largest code whose value is at most \<open>v\<close>, and the result is the
  nearer of \<open>l\<close> and \<open>l + 1\<close>, the even one on a tie (the parity of the code is that of the fraction).
\<close>

definition rnd_spec :: "nat \<Rightarrow> int \<Rightarrow> real \<Rightarrow> nat \<Rightarrow> bool" where
  "rnd_spec p emin v c \<longleftrightarrow>
     (\<exists>l. fval p emin l \<le> v \<and> v < fval p emin (Suc l) \<and>
        c = (if 2 * v < fval p emin l + fval p emin (Suc l) then l
             else if fval p emin l + fval p emin (Suc l) < 2 * v then Suc l
             else if even l then l else Suc l))"

lemma rnd_spec_mono:
  assumes "rnd_spec p emin v c" and "rnd_spec p emin w d" and "v \<le> w"
  shows "c \<le> d"
proof -
  obtain l where l: "fval p emin l \<le> v" "v < fval p emin (Suc l)"
      and c: "c = (if 2 * v < fval p emin l + fval p emin (Suc l) then l
             else if fval p emin l + fval p emin (Suc l) < 2 * v then Suc l
             else if even l then l else Suc l)"
    using assms(1) by (auto simp: rnd_spec_def)
  obtain k where k: "fval p emin k \<le> w" "w < fval p emin (Suc k)"
      and d: "d = (if 2 * w < fval p emin k + fval p emin (Suc k) then k
             else if fval p emin k + fval p emin (Suc k) < 2 * w then Suc k
             else if even k then k else Suc k)"
    using assms(2) by (auto simp: rnd_spec_def)
  have "fval p emin l < fval p emin (Suc k)" using l k assms(3) by linarith
  then have "l \<le> k" by (simp add: fval_less_iff)
  show ?thesis
  proof (cases "l = k")
    case True
    with c d assms(3) show ?thesis by auto
  next
    case False
    with \<open>l \<le> k\<close> have "Suc l \<le> k" by simp
    moreover have "c \<le> Suc l" "k \<le> d" using c d by auto
    ultimately show ?thesis by linarith
  qed
qed

lemma rnd_spec_exact: "rnd_spec p emin (fval p emin c) c"
  unfolding rnd_spec_def by (rule exI [of _ c]) (simp add: fval_Suc)

lemma rnd_spec_unique: "rnd_spec p emin v c \<Longrightarrow> rnd_spec p emin v d \<Longrightarrow> c = d"
  by (meson order_antisym order_refl rnd_spec_mono)

text \<open>The computation: align to at most \<open>p + 1\<close> bits, round the bits shifted out.\<close>

fun bitlen :: "nat \<Rightarrow> nat" where
  "bitlen n = (if n = 0 then 0 else Suc (bitlen (n div 2)))"

declare bitlen.simps [simp del]

lemma bitlen_bounds: "0 < n \<Longrightarrow> 2 ^ (bitlen n - 1) \<le> n \<and> n < 2 ^ bitlen n \<and> 0 < bitlen n"
proof (induction n rule: bitlen.induct)
  case (1 n)
  show ?case
  proof (cases "n div 2 = 0")
    case True
    with "1.prems" have "n = 1" by auto
    then show ?thesis by (simp add: bitlen.simps)
  next
    case False
    with "1.IH" "1.prems" have IH: "2 ^ (bitlen (n div 2) - 1) \<le> n div 2"
        "n div 2 < 2 ^ bitlen (n div 2)" "0 < bitlen (n div 2)" by auto
    obtain b where b: "bitlen (n div 2) = Suc b" using IH(3) gr0_implies_Suc by blast
    have "2 * 2 ^ b \<le> n" "n < 2 * 2 ^ Suc b" using IH(1,2) b by auto
    then show ?thesis using "1.prems" b by (simp add: bitlen.simps [of n])
  qed
qed

definition round_shift :: "nat \<Rightarrow> nat \<Rightarrow> nat" where
  "round_shift m k =
     (let q = m div 2 ^ k; r = m mod 2 ^ k
      in if 2 * r < 2 ^ k \<or> (2 * r = 2 ^ k \<and> even q) then q else Suc q)"

definition frnd :: "nat \<Rightarrow> int \<Rightarrow> nat \<Rightarrow> int \<Rightarrow> nat" where
  "frnd p emin m e =
     (if m = 0 then 0
      else let k = max (int (bitlen m) - int (Suc p)) (emin - e)
           in if k \<le> 0 then fcode p emin (m * 2 ^ nat (- k)) (e + k)
              else fcode p emin (round_shift m (nat k)) (e + k))"

lemma two_powi_nat: "2 powi (e + int n) = (2::real) powi e * 2 ^ n"
  by (simp add: power_int_add)

lemma frnd_exact_case:
  assumes "0 < m" and k: "k = max (int (bitlen m) - int (Suc p)) (emin - e)" and "k \<le> 0"
  shows "rnd_spec p emin (real m * 2 powi e) (fcode p emin (m * 2 ^ nat (- k)) (e + k))"
proof -
  define j where "j = nat (- k)"
  define M where "M = m * 2 ^ j"
  have kj: "k = - int j" using assms(3) by (simp add: j_def)
  have m: "2 ^ (bitlen m - 1) \<le> m" "m < 2 ^ bitlen m" "0 < bitlen m"
    using bitlen_bounds [OF assms(1)] by auto
  have "bitlen m + j \<le> Suc p" using k kj by linarith
  then have "2 ^ (bitlen m + j) \<le> (2 ^ Suc p :: nat)" by (rule power_increasing) simp
  moreover have "M < 2 ^ (bitlen m + j)" using m(2) by (simp add: M_def power_add)
  ultimately have M1: "M \<le> 2 ^ Suc p" by linarith
  have M2: "2 ^ p \<le> M" if "emin < e + k"
  proof -
    from that k have "k = int (bitlen m) - int (Suc p)" by linarith
    with kj m(3) have "bitlen m - 1 + j = p" by linarith
    moreover have "2 ^ (bitlen m - 1 + j) \<le> M" using m(1) by (simp add: M_def power_add)
    ultimately show ?thesis by simp
  qed
  have "emin \<le> e + k" using k by linarith
  with M1 M2 have "fval p emin (fcode p emin M (e + k)) = real M * 2 powi (e + k)"
    by (intro fval_fcode) auto
  also have "\<dots> = real m * (2 powi (e + k) * 2 ^ j)" by (simp add: M_def)
  also have "\<dots> = real m * 2 powi e"
    using two_powi_nat [of "e + k" j] by (simp add: kj)
  finally show ?thesis
    using rnd_spec_exact [of p emin "fcode p emin M (e + k)"] by (simp add: M_def j_def)
qed

text \<open>The quotient of a rounding fits in the mantissa, and fills it above the smallest exponent.\<close>

lemma rounding_quotient:
  assumes "0 < m" and k: "int j = max (int (bitlen m) - int (Suc p)) (emin - e)"
  shows "m div 2 ^ j < 2 ^ Suc p" "emin < e + int j \<Longrightarrow> 2 ^ p \<le> m div 2 ^ j"
proof -
  have m: "2 ^ (bitlen m - 1) \<le> m" "m < 2 ^ bitlen m" using bitlen_bounds [OF assms(1)] by auto
  have "bitlen m \<le> Suc p + j" using k by linarith
  then have "2 ^ bitlen m \<le> (2 ^ (Suc p + j) :: nat)" by (rule power_increasing) simp
  then have "m < 2 ^ Suc p * 2 ^ j" using m(2) by (simp add: power_add)
  then show "m div 2 ^ j < 2 ^ Suc p" by (simp add: less_mult_imp_div_less)
  assume "emin < e + int j"
  with k have "bitlen m - 1 = p + j" by linarith
  with m(1) show "2 ^ p \<le> m div 2 ^ j" by (simp add: less_eq_div_iff_mult_less_eq power_add)
qed

text \<open>A remainder decides on which side of the middle of two neighbours a number lies.\<close>

lemma rounding_side:
  fixes u :: real and r j :: nat
  assumes "0 < u" and "v = lo + real r * u" and "hi = lo + 2 ^ j * u"
  shows "2 * v < lo + hi \<longleftrightarrow> 2 * r < 2 ^ j" "lo + hi < 2 * v \<longleftrightarrow> 2 ^ j < 2 * r" "v < hi \<longleftrightarrow> r < 2 ^ j"
proof -
  have cmp: "a * u < b * u \<longleftrightarrow> a < b" for a b :: real using assms(1) by (rule mult_less_cancel_right_pos)
  have cast: "2 * r < 2 ^ j \<longleftrightarrow> 2 * real r < 2 ^ j" "2 ^ j < 2 * r \<longleftrightarrow> 2 ^ j < 2 * real r" "r < 2 ^ j \<longleftrightarrow> real r < 2 ^ j"
    using of_nat_less_iff [of "2 * r" "2 ^ j", where 'a = real] of_nat_less_iff [of "2 ^ j" "2 * r", where 'a = real]
      of_nat_less_iff [of r "2 ^ j", where 'a = real] by simp_all
  have "2 * v < lo + hi \<longleftrightarrow> (2 * real r) * u < 2 ^ j * u" "lo + hi < 2 * v \<longleftrightarrow> 2 ^ j * u < (2 * real r) * u"
    unfolding assms(2,3) by (auto simp: algebra_simps)
  then show "2 * v < lo + hi \<longleftrightarrow> 2 * r < 2 ^ j" "lo + hi < 2 * v \<longleftrightarrow> 2 ^ j < 2 * r"
    by (simp_all only: cmp cast)
  show "v < hi \<longleftrightarrow> r < 2 ^ j" unfolding assms(2,3) cast by (simp add: cmp)
qed

lemma frnd_round_case:
  assumes "0 < m" and k: "k = max (int (bitlen m) - int (Suc p)) (emin - e)" and "0 < k"
    and "0 < p"
  shows "rnd_spec p emin (real m * 2 powi e) (fcode p emin (round_shift m (nat k)) (e + k))"
proof -
  define j where "j = nat k"
  define q where "q = m div 2 ^ j"
  define r where "r = m mod 2 ^ j"
  define l where "l = fcode p emin q (e + k)"
  have kj: "k = int j" using assms(3) by (simp add: j_def)
  have x: "emin \<le> e + k" using k by linarith
  have q: "q < 2 ^ Suc p" "emin < e + k \<Longrightarrow> 2 ^ p \<le> q"
    using rounding_quotient [OF assms(1), of j p emin e] k by (simp_all add: q_def kj)
  have ek: "2 powi (e + k) = (2::real) powi e * 2 ^ j" by (simp add: kj two_powi_nat)
  have vl: "fval p emin l = real q * 2 powi (e + k)"
    unfolding l_def using q x by (intro fval_fcode) auto
  have "fval p emin (fcode p emin (Suc q) (e + k)) = real (Suc q) * 2 powi (e + k)"
    using q x by (intro fval_fcode) auto
  moreover have s: "fcode p emin (Suc q) (e + k) = Suc l" by (simp add: l_def fcode_def)
  ultimately have hi: "fval p emin (Suc l) = fval p emin l + 2 ^ j * 2 powi e"
    unfolding vl ek by (simp add: distrib_right)
  have "real m = real (q * 2 ^ j + r)" by (simp only: q_def r_def div_mult_mod_eq)
  then have v: "real m * 2 powi e = fval p emin l + real r * 2 powi e"
    unfolding vl ek by (simp add: distrib_right)
  have pe: "(0::real) < 2 powi e" by simp
  note side = rounding_side [OF pe v hi]
  have "r < 2 ^ j" by (simp add: r_def)
  moreover have "even l = even q" using assms(4) by (simp add: l_def fcode_def)
  then have "fcode p emin (round_shift m (nat k)) (e + k) =
      (if 2 * r < 2 ^ j then l else if 2 ^ j < 2 * r then Suc l else if even l then l else Suc l)"
    using s by (simp add: round_shift_def Let_def l_def flip: q_def r_def j_def)
  ultimately show ?thesis
    unfolding rnd_spec_def using side pe v by (intro exI [of _ l]) simp
qed

lemma frnd_rnd_spec: "0 < p \<Longrightarrow> rnd_spec p emin (real m * 2 powi e) (frnd p emin m e)"
  using rnd_spec_exact [of p emin 0] frnd_exact_case [OF _ refl, of m p emin e]
    frnd_round_case [OF _ refl, of m p emin e]
  by (auto simp: frnd_def Let_def not_le simp del: of_nat_Suc)

section \<open>Double precision numbers\<close>

definition INF_CODE :: nat where
  "INF_CODE = 2047 * 2 ^ 52"

definition dsign :: "double \<Rightarrow> bool" where
  "dsign w \<longleftrightarrow> 2 ^ 63 \<le> unat w"

definition dmag :: "double \<Rightarrow> nat" where
  "dmag w = unat w mod 2 ^ 63"

definition isnan :: "double \<Rightarrow> bool" where
  "isnan w \<longleftrightarrow> INF_CODE < dmag w"

definition isinf :: "double \<Rightarrow> bool" where
  "isinf w \<longleftrightarrow> dmag w = INF_CODE"

definition isfin :: "double \<Rightarrow> bool" where
  "isfin w \<longleftrightarrow> dmag w < INF_CODE"

definition dmake :: "bool \<Rightarrow> nat \<Rightarrow> double" where
  "dmake s c = word_of_nat ((if s then 2 ^ 63 else 0) + c)"

definition dnan :: double where
  "dnan = 0x7FF8000000000000"

definition dman :: "double \<Rightarrow> int" where
  "dman w = (if dsign w then - int (fman 52 (dmag w)) else int (fman 52 (dmag w)))"

definition dexp :: "double \<Rightarrow> int" where
  "dexp w = fexp 52 (-1074) (dmag w)"

text \<open>The real value of a finite number, and the key that orders all numbers that are not NaN.\<close>

definition dval :: "double \<Rightarrow> real" where
  "dval w = real_of_int (dman w) * 2 powi dexp w"

definition dkey :: "double \<Rightarrow> int" where
  "dkey w = (if dsign w then - int (dmag w) else int (dmag w))"

text \<open>Comparisons: false whenever an operand is NaN; the two zeros are equal.\<close>

definition fle :: "double \<Rightarrow> double \<Rightarrow> bool" where
  "fle a b \<longleftrightarrow> \<not> isnan a \<and> \<not> isnan b \<and> dkey a \<le> dkey b"

definition flt :: "double \<Rightarrow> double \<Rightarrow> bool" where
  "flt a b \<longleftrightarrow> \<not> isnan a \<and> \<not> isnan b \<and> dkey a < dkey b"

definition feq :: "double \<Rightarrow> double \<Rightarrow> bool" where
  "feq a b \<longleftrightarrow> \<not> isnan a \<and> \<not> isnan b \<and> dkey a = dkey b"

text \<open>The number nearest to \<open>n * 2^e\<close>; sign \<open>s\<close> for an exact zero.\<close>

definition dround :: "bool \<Rightarrow> int \<Rightarrow> int \<Rightarrow> double" where
  "dround s n e =
     (if n = 0 then dmake s 0
      else dmake (n < 0) (min INF_CODE (frnd 52 (-1074) (nat \<bar>n\<bar>) e)))"

definition fneg :: "double \<Rightarrow> double" where
  "fneg a = dmake (\<not> dsign a) (dmag a)"

definition fabs :: "double \<Rightarrow> double" where
  "fabs a = dmake False (dmag a)"

definition fadd :: "double \<Rightarrow> double \<Rightarrow> double" where
  "fadd a b =
     (if isnan a \<or> isnan b then dnan
      else if isinf a then (if isinf b \<and> dsign a \<noteq> dsign b then dnan else a)
      else if isinf b then b
      else let e = min (dexp a) (dexp b)
           in dround (dsign a \<and> dsign b)
                (dman a * 2 ^ nat (dexp a - e) + dman b * 2 ^ nat (dexp b - e)) e)"

definition fsub :: "double \<Rightarrow> double \<Rightarrow> double" where
  "fsub a b = (if isnan b then dnan else fadd a (fneg b))"

definition fmul :: "double \<Rightarrow> double \<Rightarrow> double" where
  "fmul a b =
     (if isnan a \<or> isnan b then dnan
      else let s = (dsign a \<noteq> dsign b)
           in if isinf a then (if dman b = 0 \<and> isfin b then dnan else dmake s INF_CODE)
              else if isinf b then (if dman a = 0 then dnan else dmake s INF_CODE)
              else dround s (dman a * dman b) (dexp a + dexp b))"

text \<open>
  Division keeps 56 more quotient bits than the divisor has and a sticky bit for the remainder,
  which is more than rounding needs.
\<close>

definition fdiv :: "double \<Rightarrow> double \<Rightarrow> double" where
  "fdiv a b =
     (if isnan a \<or> isnan b then dnan
      else let s = (dsign a \<noteq> dsign b)
           in if isinf a then (if isinf b then dnan else dmake s INF_CODE)
              else if isinf b then dmake s 0
              else if dman b = 0 then (if dman a = 0 then dnan else dmake s INF_CODE)
              else let m = nat \<bar>dman a\<bar> * 2 ^ (56 + bitlen (nat \<bar>dman b\<bar>)); d = nat \<bar>dman b\<bar>;
                       q = 2 * (m div d) + of_bool (m mod d \<noteq> 0)
                   in dround s (if s then - int q else int q)
                        (dexp a - dexp b - 57 - int (bitlen d)))"

definition ffloor :: "double \<Rightarrow> double" where
  "ffloor a =
     (if \<not> isfin a \<or> 0 \<le> dexp a then a
      else dround (dsign a) (dman a div 2 ^ nat (- dexp a)) 0)"

text \<open>Conversions: an integer to the nearest double, and the truncating cast of a finite double.\<close>

definition of_int64 :: "int \<Rightarrow> double" where
  "of_int64 i = dround False i 0"

definition ftrunc :: "double \<Rightarrow> int" where
  "ftrunc a =
     (if 0 \<le> dexp a then dman a * 2 ^ nat (dexp a)
      else sgn (dman a) * (\<bar>dman a\<bar> div 2 ^ nat (- dexp a)))"

text \<open>The conversion \<open>(float) value\<close>, as the bit pattern of the float (p = 23, emin = -149).\<close>

definition float_of_double :: "double \<Rightarrow> 32 word" where
  "float_of_double a =
     (let s = (if dsign a then 2 ^ 31 else 0)
      in if isnan a then word_of_nat (s + 0x7FC00000 + dmag a mod 2 ^ 51 div 2 ^ 29)
         else if isinf a then word_of_nat (s + 255 * 2 ^ 23)
         else word_of_nat (s + min (255 * 2 ^ 23) (frnd 23 (-149) (fman 52 (dmag a)) (dexp a))))"

lemmas fcmp_defs = fle_def flt_def feq_def

subsection \<open>Encoding and decoding\<close>

lemma INF_CODE_less: "INF_CODE < 2 ^ 63"
  by (simp add: INF_CODE_def)

lemma unat_dmake: "c < 2 ^ 63 \<Longrightarrow> unat (dmake s c) = (if s then 2 ^ 63 else 0) + c"
  by (simp only: dmake_def unat_of_nat) simp

lemma dmag_dmake [simp]: "c \<le> INF_CODE \<Longrightarrow> dmag (dmake s c) = c"
  using INF_CODE_less by (simp add: dmag_def unat_dmake)

lemma dsign_dmake [simp]: "c \<le> INF_CODE \<Longrightarrow> dsign (dmake s c) = s"
  using INF_CODE_less by (simp add: dsign_def unat_dmake)

lemma dkey_dmake: "c \<le> INF_CODE \<Longrightarrow> dkey (dmake s c) = (if s then - int c else int c)"
  by (simp add: dkey_def)

lemma isnan_dmake [simp]: "c \<le> INF_CODE \<Longrightarrow> \<not> isnan (dmake s c)"
  by (simp add: isnan_def)

lemma dkey_bounds: "\<not> isnan a \<Longrightarrow> \<bar>dkey a\<bar> \<le> int INF_CODE"
  by (simp add: dkey_def isnan_def)

lemma isfin_iff: "isfin a \<longleftrightarrow> \<not> isnan a \<and> \<not> isinf a"
  by (auto simp: isfin_def isnan_def isinf_def)

lemma dval_eq: "dval a = (if dsign a then - fval 52 (-1074) (dmag a) else fval 52 (-1074) (dmag a))"
  by (simp add: dval_def dman_def dexp_def fval_def)

lemma dmag_fneg [simp]: "\<not> isnan a \<Longrightarrow> dmag (fneg a) = dmag a"
  by (simp add: fneg_def isnan_def)

lemma dsign_fneg [simp]: "\<not> isnan a \<Longrightarrow> dsign (fneg a) = (\<not> dsign a)"
  by (simp add: fneg_def isnan_def)

lemma fneg_simps [simp]:
  assumes "\<not> isnan a"
  shows "isnan (fneg a) = False" "isinf (fneg a) = isinf a" "isfin (fneg a) = isfin a"
    "dval (fneg a) = - dval a" "dkey (fneg a) = - dkey a"
  using assms by (simp_all add: isnan_def isinf_def isfin_def dval_eq dkey_def)

subsection \<open>Rounded results on the order keys\<close>

text \<open>\<open>key_spec v k\<close>: \<open>k\<close> is the key of the number nearest to \<open>v\<close> (infinity beyond the range).\<close>

definition key_spec :: "real \<Rightarrow> int \<Rightarrow> bool" where
  "key_spec v k \<longleftrightarrow>
     (if 0 \<le> v then \<exists>c. rnd_spec 52 (-1074) v c \<and> k = int (min INF_CODE c)
      else \<exists>c. rnd_spec 52 (-1074) (- v) c \<and> k = - int (min INF_CODE c))"

lemma key_spec_mono:
  assumes "key_spec v k" and "key_spec w j" and "v \<le> w"
  shows "k \<le> j"
proof (cases "0 \<le> v")
  case True
  with assms obtain c d where "rnd_spec 52 (-1074) v c" "rnd_spec 52 (-1074) w d"
      and "k = int (min INF_CODE c)" "j = int (min INF_CODE d)"
    by (auto simp: key_spec_def split: if_splits)
  moreover from this have "c \<le> d" using assms(3) rnd_spec_mono by blast
  ultimately show ?thesis by simp
next
  case False
  with assms obtain c where c: "rnd_spec 52 (-1074) (- v) c" "k = - int (min INF_CODE c)"
    by (auto simp: key_spec_def split: if_splits)
  show ?thesis
  proof (cases "0 \<le> w")
    case True
    with assms have "0 \<le> j" by (auto simp: key_spec_def)
    with c show ?thesis by simp
  next
    case w: False
    with assms obtain d where "rnd_spec 52 (-1074) (- w) d" "j = - int (min INF_CODE d)"
      by (auto simp: key_spec_def split: if_splits)
    moreover from this c(1) have "d \<le> c" using assms(3) rnd_spec_mono [of 52 "-1074" "- w" d "- v" c] by simp
    ultimately show ?thesis using c(2) by simp
  qed
qed

lemma key_spec_unique: "key_spec v k \<Longrightarrow> key_spec v j \<Longrightarrow> k = j"
  by (meson key_spec_mono order_antisym order_refl)

lemma key_spec_dval:
  assumes "isfin a"
  shows "key_spec (dval a) (dkey a)"
proof -
  have m: "min INF_CODE (dmag a) = dmag a" using assms by (simp add: isfin_def)
  show ?thesis
  proof (cases "dsign a \<and> dmag a \<noteq> 0")
    case True
    then have "0 < fval 52 (-1074) (dmag a)"
      using fval_less_iff [of 52 "-1074" 0 "dmag a"] by simp
    with True m show ?thesis
      using rnd_spec_exact [of 52 "-1074" "dmag a"] by (auto simp: key_spec_def dval_eq dkey_def)
  next
    case False
    then have "dval a = fval 52 (-1074) (dmag a)" "dkey a = int (dmag a)"
      by (auto simp: dval_eq dkey_def)
    with m show ?thesis using rnd_spec_exact [of 52 "-1074" "dmag a"] by (auto simp: key_spec_def)
  qed
qed

lemma dval_dkey:
  "dval a = (if dkey a < 0 then - fval 52 (-1074) (nat (- dkey a)) else fval 52 (-1074) (nat (dkey a)))"
  by (auto simp: dval_eq dkey_def)

lemma dval_le_iff:
  assumes "isfin a" and "isfin b"
  shows "dval a \<le> dval b \<longleftrightarrow> dkey a \<le> dkey b"
proof
  assume "dval a \<le> dval b"
  with assms show "dkey a \<le> dkey b" by (meson key_spec_dval key_spec_mono)
next
  assume k: "dkey a \<le> dkey b"
  show "dval a \<le> dval b"
  proof (rule ccontr)
    assume n: "\<not> dval a \<le> dval b"
    with assms have "dkey b \<le> dkey a" by (meson key_spec_dval key_spec_mono linorder_le_cases)
    with k have "dval a = dval b" by (simp add: dval_dkey)
    with n show False by simp
  qed
qed

lemma dround_not_nan [simp]: "\<not> isnan (dround s n e)"
  by (simp add: dround_def)

lemma key_spec_dround: "key_spec (real_of_int n * 2 powi e) (dkey (dround s n e))"
proof -
  have pe: "(0::real) < 2 powi e" by simp
  have r: "rnd_spec 52 (-1074) (real (nat \<bar>n\<bar>) * 2 powi e) (frnd 52 (-1074) (nat \<bar>n\<bar>) e)"
    by (rule frnd_rnd_spec) simp
  consider "n = 0" | "0 < n" | "n < 0" by linarith
  then show ?thesis
  proof cases
    case 1
    have "rnd_spec 52 (-1074) 0 0" using rnd_spec_exact [of 52 "-1074" 0] by simp
    then show ?thesis using 1
      by (auto simp: key_spec_def dround_def dkey_dmake intro!: exI [of _ 0])
  next
    case 2
    then have "real (nat \<bar>n\<bar>) = real_of_int n" by simp
    with 2 pe r show ?thesis by (auto simp: key_spec_def dround_def dkey_dmake)
  next
    case 3
    then have "real (nat \<bar>n\<bar>) = - real_of_int n" by simp
    moreover have "\<not> 0 \<le> real_of_int n * 2 powi e" using 3 pe by (simp add: not_le mult_neg_pos)
    ultimately show ?thesis using 3 r by (auto simp: key_spec_def dround_def dkey_dmake)
  qed
qed

lemma powi_align: "e \<le> d \<Longrightarrow> 2 ^ nat (d - e) * 2 powi e = (2::real) powi d"
  using two_powi_nat [of e "nat (d - e)"] by (simp add: mult.commute)

lemma key_spec_fadd:
  assumes "isfin a" and "isfin b"
  shows "key_spec (dval a + dval b) (dkey (fadd a b))"
proof -
  define e where "e = min (dexp a) (dexp b)"
  define n where "n = dman a * 2 ^ nat (dexp a - e) + dman b * 2 ^ nat (dexp b - e)"
  have "real_of_int n * 2 powi e =
      real_of_int (dman a) * (2 ^ nat (dexp a - e) * 2 powi e) +
      real_of_int (dman b) * (2 ^ nat (dexp b - e) * 2 powi e)"
    by (simp add: n_def distrib_right)
  also have "\<dots> = dval a + dval b"
    by (simp add: e_def powi_align dval_def)
  finally show ?thesis
    using assms key_spec_dround [of n e "dsign a \<and> dsign b"]
    by (simp add: fadd_def Let_def isfin_iff flip: e_def n_def)
qed

lemma fadd_not_nan: "\<not> isnan a \<Longrightarrow> isfin b \<Longrightarrow> \<not> isnan (fadd a b)"
  by (auto simp: fadd_def Let_def isfin_iff)

lemma fadd_inf: "isinf a \<Longrightarrow> isfin b \<Longrightarrow> fadd a b = a"
  by (auto simp: fadd_def isfin_def isnan_def isinf_def)

lemma isinf_dkey: "isinf a \<Longrightarrow> dkey a = (if dsign a then - int INF_CODE else int INF_CODE)"
  by (simp add: isinf_def dkey_def)

lemma fadd_mono:
  assumes "\<not> isnan a" "\<not> isnan b" "isfin c" "dkey a \<le> dkey b"
  shows "dkey (fadd a c) \<le> dkey (fadd b c)"
proof (cases "isinf a \<or> isinf b")
  case True
  have "\<bar>dkey (fadd a c)\<bar> \<le> int INF_CODE" "\<bar>dkey (fadd b c)\<bar> \<le> int INF_CODE"
    using assms by (simp_all add: dkey_bounds fadd_not_nan)
  moreover have "\<bar>dkey a\<bar> \<le> int INF_CODE" "\<bar>dkey b\<bar> \<le> int INF_CODE"
    using assms by (simp_all add: dkey_bounds)
  moreover have "isinf a \<or> isfin a" "isinf b \<or> isfin b" using assms by (auto simp: isfin_iff)
  moreover have "isfin x \<Longrightarrow> \<bar>dkey x\<bar> < int INF_CODE" for x by (simp add: isfin_def dkey_def)
  ultimately show ?thesis
    using True assms by (auto simp: fadd_inf isinf_dkey split: if_splits) force+
next
  case False
  then have fin: "isfin a" "isfin b" using assms by (auto simp: isfin_iff)
  have "dval a \<le> dval b"
    using fin assms(4) by (simp add: dval_le_iff)
  then show ?thesis
    using key_spec_mono [OF key_spec_fadd [OF fin(1) assms(3)] key_spec_fadd [OF fin(2) assms(3)]]
    by simp
qed

lemma fadd_inflationary:
  assumes "\<not> isnan a" "isfin c" "0 \<le> dkey c"
  shows "dkey a \<le> dkey (fadd a c)"
proof (cases "isinf a")
  case True
  with assms show ?thesis by (simp add: fadd_inf)
next
  case False
  then have fin: "isfin a" using assms by (simp add: isfin_iff)
  have "0 \<le> dval c" using assms(3) by (auto simp: dval_dkey)
  then show ?thesis
    using key_spec_mono [OF key_spec_dval [OF fin] key_spec_fadd [OF fin assms(2)]] by simp
qed

lemma fadd_deflationary:
  assumes "\<not> isnan a" "isfin c" "dkey c \<le> 0"
  shows "dkey (fadd a c) \<le> dkey a"
proof (cases "isinf a")
  case True
  with assms show ?thesis by (simp add: fadd_inf)
next
  case False
  then have fin: "isfin a" using assms by (simp add: isfin_iff)
  have "dval c \<le> 0" using assms(3) by (auto simp: dval_dkey)
  then show ?thesis
    using key_spec_mono [OF key_spec_fadd [OF fin assms(2)] key_spec_dval [OF fin]] by simp
qed

lemma fsub_eq: "isfin b \<Longrightarrow> fsub a b = fadd a (fneg b)"
  by (simp add: fsub_def isfin_iff)

subsection \<open>Evaluation\<close>

text \<open>
  Concrete sums are evaluated in stages: decode both operands, align, add, round, encode.
\<close>

lemmas fp_eval = isnan_def isinf_def isfin_def dmag_def dsign_def INF_CODE_def dexp_def dman_def
  fman_def fexp_def dround_def frnd_def fcode_def round_shift_def bitlen.simps dmake_def
  fle_def flt_def feq_def dkey_def fneg_def fabs_def

lemma fadd_eval:
  assumes "isfin a" "isfin b" "dman a = ma" "dman b = mb" "dexp a = ea" "dexp b = eb"
    and "min ea eb = e" "ma * 2 ^ nat (ea - e) + mb * 2 ^ nat (eb - e) = n" "n \<noteq> 0"
  shows "fadd a b = dmake (n < 0) (min INF_CODE (frnd 52 (-1074) (nat \<bar>n\<bar>) e))"
  using assms by (simp add: fadd_def isfin_iff Let_def dround_def)

section \<open>Comparison with a tolerance\<close>

text \<open>
  What the event queue needs of its time arithmetic: a total order on the numbers that are not
  NaN, and two operations, adding and subtracting the tolerance, of which the first is monotone
  and never decreases and the second never increases its argument.
\<close>

locale tolerance_order =
  fixes num :: "'t \<Rightarrow> bool"
    and le :: "'t \<Rightarrow> 't \<Rightarrow> bool"
    and lt :: "'t \<Rightarrow> 't \<Rightarrow> bool"
    and up :: "'t \<Rightarrow> 't"
    and dn :: "'t \<Rightarrow> 't"
  assumes le_num: "le a b \<Longrightarrow> num a \<and> num b"
    and le_refl: "num a \<Longrightarrow> le a a"
    and le_trans: "le a b \<Longrightarrow> le b c \<Longrightarrow> le a c"
    and le_total: "num a \<Longrightarrow> num b \<Longrightarrow> le a b \<or> le b a"
    and not_le: "num a \<Longrightarrow> num b \<Longrightarrow> (\<not> le a b) = lt b a"
    and up_num: "num a \<Longrightarrow> num (up a)"
    and dn_num: "num a \<Longrightarrow> num (dn a)"
    and up_mono: "le a b \<Longrightarrow> le (up a) (up b)"
    and up_infl: "num a \<Longrightarrow> le a (up a)"
    and dn_defl: "num a \<Longrightarrow> le (dn a) a"
begin

text \<open>
  \<open>sorted_wrt (\<lambda>a b. le a (up b))\<close> says that no element exceeds a later one by more than the
  tolerance. Inserting behind the elements that are at most \<open>t\<close> plus the tolerance keeps it.
\<close>

lemma below_up: "num t \<Longrightarrow> num b \<Longrightarrow> \<not> le a (up t) \<Longrightarrow> le a (up b) \<Longrightarrow> le t (up b)"
  by (meson le_total le_trans up_infl up_mono)

lemma insert_tolerant:
  assumes "sorted_wrt (\<lambda>a b. le a (up b)) xs" and "\<And>x. x \<in> set xs \<Longrightarrow> num x" and "num t"
  shows "sorted_wrt (\<lambda>a b. le a (up b))
    (takeWhile (\<lambda>x. le x (up t)) xs @ t # dropWhile (\<lambda>x. le x (up t)) xs)"
  using assms
proof (induction xs)
  case Nil
  then show ?case by simp
next
  case (Cons x xs)
  show ?case
  proof (cases "le x (up t)")
    case True
    have "set (takeWhile (\<lambda>x. le x (up t)) xs @ t # dropWhile (\<lambda>x. le x (up t)) xs) = insert t (set xs)"
      by (metis Un_insert_right list.simps(15) set_append takeWhile_dropWhile_id)
    with True Cons show ?thesis by auto
  next
    case False
    have "le t (up b)" if "b \<in> set xs" for b
      using False Cons.prems that below_up [of t b x] by simp
    moreover have "le t (up x)"
      using False Cons.prems below_up [of t x x] up_infl by simp
    ultimately show ?thesis using False Cons.prems by auto
  qed
qed

end

text \<open>The tolerance \<open>eps_ = 1e-3\<close> of the queue, as the bit pattern of the C++ literal.\<close>

definition eps :: double where
  "eps = 0x3F50624DD2F1A9FC"

lemma unat_eps: "unat eps = 0x3F50624DD2F1A9FC"
  by (simp add: eps_def)

lemma eps_facts: "isfin eps" "0 \<le> dkey eps" "\<not> isnan eps"
  by (simp_all add: isfin_def isnan_def dkey_def dsign_def dmag_def INF_CODE_def unat_eps)

text \<open>Every finite tolerance that is not negative gives such an order.\<close>

lemma tolerance_order_finite:
  assumes "isfin r" and "0 \<le> dkey r"
  shows "tolerance_order (\<lambda>t. \<not> isnan t) fle flt (\<lambda>t. fadd t r) (\<lambda>t. fsub t r)"
proof unfold_locales
  have "\<not> isnan r" using assms(1) by (simp add: isfin_iff)
  then have n: "isfin (fneg r)" "dkey (fneg r) \<le> 0" using assms by simp_all
  fix a b c :: double
  show "\<not> isnan a \<Longrightarrow> \<not> isnan b \<Longrightarrow> (\<not> fle a b) = flt b a" by (auto simp: fcmp_defs)
  show "\<not> isnan a \<Longrightarrow> \<not> isnan (fadd a r)" by (simp add: fadd_not_nan assms)
  show "\<not> isnan a \<Longrightarrow> \<not> isnan (fsub a r)" by (simp add: fadd_not_nan assms fsub_eq n)
  show "fle a b \<Longrightarrow> fle (fadd a r) (fadd b r)"
    by (simp add: fcmp_defs fadd_not_nan fadd_mono assms)
  show "\<not> isnan a \<Longrightarrow> fle a (fadd a r)"
    by (simp add: fcmp_defs fadd_not_nan fadd_inflationary assms)
  show "\<not> isnan a \<Longrightarrow> fle (fsub a r) a"
    by (simp add: fcmp_defs fadd_not_nan fadd_deflationary assms fsub_eq n)
qed (auto simp: fcmp_defs)

interpretation dtime: tolerance_order "\<lambda>t. \<not> isnan t" fle flt "\<lambda>t. fadd t eps" "\<lambda>t. fsub t eps"
  by (rule tolerance_order_finite) (simp_all add: eps_facts)

text \<open>The difference of equal finite numbers is a zero.\<close>

lemma fsub_self:
  assumes "isfin a"
  shows "\<not> isnan (fsub a a)" "dkey (fsub a a) = 0"
proof -
  have n: "\<not> isnan a" "isfin (fneg a)" using assms by (simp_all add: isfin_iff)
  have e: "fsub a a = fadd a (fneg a)" using assms by (rule fsub_eq)
  show "\<not> isnan (fsub a a)" unfolding e by (rule fadd_not_nan [OF n])
  have "key_spec (dval a + dval (fneg a)) (dkey (fadd a (fneg a)))" by (rule key_spec_fadd [OF assms n(2)])
  then have "key_spec 0 (dkey (fsub a a))" using n(1) by (simp add: e)
  moreover have "key_spec 0 0" using key_spec_dval [of 0] by (simp add: dval_def fp_eval)
  ultimately show "dkey (fsub a a) = 0" by (rule key_spec_unique)
qed

lemma flt_fabs_fsub_self: "isfin a \<Longrightarrow> flt 0 r \<Longrightarrow> flt (fabs (fsub a a)) r"
proof -
  assume a: "isfin a" and r: "flt 0 r"
  let ?z = "fsub a a"
  have m: "dmag ?z = 0" "\<not> isnan ?z" using fsub_self [OF a] by (auto simp: dkey_def split: if_splits)
  then have "\<not> isnan (fabs ?z)" "dkey (fabs ?z) = 0" by (simp_all add: fabs_def dkey_def isnan_def)
  moreover have "dkey 0 = 0" by (simp add: fp_eval dkey_def)
  ultimately show ?thesis using r by (simp add: flt_def)
qed

section \<open>Signs of results\<close>

lemma dman_nonneg: "0 \<le> dkey a \<Longrightarrow> 0 \<le> dman a"
  by (auto simp: dkey_def dman_def fman_def split: if_splits)

lemma ftrunc_nonneg: "0 \<le> dkey a \<Longrightarrow> 0 \<le> ftrunc a"
  using dman_nonneg [of a] by (auto simp: ftrunc_def sgn_if pos_imp_zdiv_nonneg_iff)

lemma dkey_dround_nonneg: "0 \<le> n \<Longrightarrow> 0 \<le> dkey (dround s n e)"
  by (simp add: dround_def dkey_dmake)

lemma dsign_zero: "0 \<le> dkey a \<Longrightarrow> dsign a \<Longrightarrow> dman a = 0"
  by (auto simp: dkey_def dman_def fman_def split: if_splits)

lemma fmul_nonneg:
  assumes "\<not> isnan a" and "0 \<le> dkey a" and "isfin b" and "0 < dkey b"
  shows "\<not> isnan (fmul a b)" "0 \<le> dkey (fmul a b)"
proof -
  have b: "\<not> isnan b" "\<not> isinf b" "0 \<le> dman b" "dman b \<noteq> 0"
    using assms(3,4) dman_nonneg [of b] by (auto simp: isfin_iff dman_def dkey_def fman_def split: if_splits)
  have n: "0 \<le> dman a * dman b" using dman_nonneg [OF assms(2)] b(3) by simp
  have i: "isinf a \<Longrightarrow> \<not> dsign a" using assms(2) INF_CODE_less by (auto simp: isinf_dkey INF_CODE_def)
  have s: "\<not> dsign b" using assms(4) by (auto simp: dkey_def split: if_splits)
  show "\<not> isnan (fmul a b)" using assms(1) b by (simp add: fmul_def Let_def)
  show "0 \<le> dkey (fmul a b)" using assms(1) b i s dkey_dround_nonneg [OF n] by (simp add: fmul_def Let_def dkey_dmake)
qed

lemma fdiv_nonneg:
  assumes "\<not> isnan a" and "0 \<le> dkey a" and "isfin b" and "0 < dkey b"
  shows "\<not> isnan (fdiv a b)" "0 \<le> dkey (fdiv a b)"
proof -
  have b: "\<not> isnan b" "\<not> isinf b" "0 \<le> dman b" "dman b \<noteq> 0"
    using assms(3,4) dman_nonneg [of b] by (auto simp: isfin_iff dman_def dkey_def fman_def split: if_splits)
  have i: "isinf a \<Longrightarrow> \<not> dsign a" using assms(2) INF_CODE_less by (auto simp: isinf_dkey INF_CODE_def)
  have s: "\<not> dsign b" using assms(4) by (auto simp: dkey_def split: if_splits)
  have z: "dsign a \<Longrightarrow> dman a = 0" using dsign_zero [OF assms(2)] .
  show "\<not> isnan (fdiv a b)" using assms(1) b by (simp add: fdiv_def Let_def)
  show "0 \<le> dkey (fdiv a b)" using assms(1) b i s z
    by (auto simp: fdiv_def Let_def dkey_dmake intro!: dkey_dround_nonneg)
qed

lemma ffloor_bounds:
  assumes "isfin a" and "0 \<le> dkey a"
  shows "isfin (ffloor a)" "0 \<le> dkey (ffloor a)" "dkey (ffloor a) \<le> dkey a"
proof -
  have "isfin (ffloor a) \<and> 0 \<le> dkey (ffloor a) \<and> dkey (ffloor a) \<le> dkey a"
  proof (cases "0 \<le> dexp a")
    case False
    let ?n = "dman a div 2 ^ nat (- dexp a)" and ?r = "dround (dsign a) (dman a div 2 ^ nat (- dexp a)) 0"
    have r: "ffloor a = ?r" using False assms(1) by (simp add: ffloor_def)
    have "?n * 2 ^ nat (- dexp a) \<le> dman a" by (simp flip: minus_mod_eq_div_mult)
    then have "real_of_int (?n * 2 ^ nat (- dexp a)) \<le> real_of_int (dman a)" by (simp only: of_int_le_iff)
    moreover have "real_of_int (dman a) = dval a * 2 ^ nat (- dexp a)"
      using False by (simp add: dval_def power_int_def power_mult_distrib [symmetric])
    ultimately have "real_of_int ?n \<le> dval a" by simp
    then have "dkey ?r \<le> dkey a"
      using key_spec_mono [OF key_spec_dround [of ?n 0 "dsign a"] key_spec_dval [OF assms(1)]] by simp
    moreover have "0 \<le> dkey ?r" using dman_nonneg [OF assms(2)] by (intro dkey_dround_nonneg) (simp add: pos_imp_zdiv_nonneg_iff)
    moreover have "isfin ?r"
    proof -
      have "dkey a < int INF_CODE" using assms(1) by (auto simp: dkey_def isfin_def)
      with calculation have "\<bar>dkey ?r\<bar> < int INF_CODE" by simp
      then show ?thesis by (auto simp: isfin_def dkey_def split: if_splits)
    qed
    ultimately show ?thesis by (simp add: r)
  qed (use assms in \<open>simp add: ffloor_def\<close>)
  then show "isfin (ffloor a)" "0 \<le> dkey (ffloor a)" "dkey (ffloor a) \<le> dkey a" by simp_all
qed

lemma fsub_nonneg:
  assumes "isfin a" and "isfin b" and "dkey b \<le> dkey a"
  shows "\<not> isnan (fsub a b)" "0 \<le> dkey (fsub a b)"
proof -
  have n: "\<not> isnan a" "\<not> isnan b" "isfin (fneg b)" using assms by (simp_all add: isfin_iff)
  have e: "fsub a b = fadd a (fneg b)" by (rule fsub_eq [OF assms(2)])
  show "\<not> isnan (fsub a b)" unfolding e by (rule fadd_not_nan [OF n(1,3)])
  have "0 \<le> dval a + dval (fneg b)" using dval_le_iff [OF assms(2,1)] assms(3) n(2) by simp
  then show "0 \<le> dkey (fsub a b)" using key_spec_fadd [OF assms(1) n(3)] by (auto simp: e key_spec_def)
qed

text \<open>A quotient is bounded from below by the size of the dividend, and an integer of 62 bits has a finite double.\<close>

lemma fdiv_bound:
  assumes "isfin a" and "isfin b" and "dman b \<noteq> 0" and "isfin w"
    and "dval w \<le> - (2 * \<bar>dval a\<bar> * 2 powi (- dexp b))"
  shows "\<not> isnan (fdiv a b)" "dkey w \<le> dkey (fdiv a b)"
proof -
  have f: "\<not> isnan a" "\<not> isinf a" "\<not> isnan b" "\<not> isinf b" using assms(1,2) by (simp_all add: isfin_iff)
  define s d m e where "s = (dsign a \<noteq> dsign b)" and "d = nat \<bar>dman b\<bar>" and
    "m = nat \<bar>dman a\<bar> * 2 ^ (56 + bitlen d)" and "e = dexp a - dexp b - 57 - int (bitlen d)"
  define q n where "q = 2 * (m div d) + of_bool (m mod d \<noteq> 0)" and "n = (if s then - int q else int q)"
  have r: "fdiv a b = dround s n e" using f assms(3) by (simp add: fdiv_def Let_def s_def d_def m_def e_def q_def n_def)
  show "\<not> isnan (fdiv a b)" using f assms(3) by (simp add: fdiv_def Let_def)
  have "q \<le> 4 * m"
  proof (cases "m = 0")
    case False
    then have "of_bool (m mod d \<noteq> 0) \<le> m" by (simp add: of_bool_def)
    then show ?thesis using div_le_dividend [of m d] unfolding q_def by linarith
  qed (simp add: q_def)
  then have "real q * 2 powi e \<le> real (4 * m) * 2 powi e" by (intro mult_right_mono) (simp_all only: of_nat_le_iff, simp)
  also have "\<dots> = 2 * \<bar>dval a\<bar> * 2 powi (- dexp b)"
    by (simp add: m_def e_def dval_def abs_mult power_int_add power_int_diff power_add power_int_minus divide_simps)
  finally have "\<bar>real_of_int n * 2 powi e\<bar> \<le> 2 * \<bar>dval a\<bar> * 2 powi (- dexp b)" by (simp add: n_def abs_mult)
  then have "dval w \<le> real_of_int n * 2 powi e" using assms(5) by linarith
  then show "dkey w \<le> dkey (fdiv a b)" unfolding r
    by (rule key_spec_mono [OF key_spec_dval [OF assms(4)] key_spec_dround])
qed

lemma of_int64_negative:
  assumes "- (2 ^ 62) \<le> i" and "i \<le> 0"
  shows "isfin (of_int64 i)" "\<bar>dval (of_int64 i)\<bar> \<le> 2 ^ 62"
proof -
  let ?u = "0xC3D0000000000000 :: double"
  have u: "isfin ?u" "dval ?u = - (2 ^ 62)" "dkey ?u = - 0x43D0000000000000"
    by (simp_all add: fp_eval dval_def dkey_def)
  have z: "isfin 0" "dval 0 = 0" "dkey 0 = 0" by (simp_all add: fp_eval dval_def dkey_def)
  have k: "key_spec (real_of_int i) (dkey (of_int64 i))" using key_spec_dround [of i 0 False] by (simp add: of_int64_def)
  have "real_of_int (- (2 ^ 62)) \<le> real_of_int i" "real_of_int i \<le> real_of_int 0" using assms by (simp_all only: of_int_le_iff)
  then have r: "- (2 ^ 62) \<le> real_of_int i" "real_of_int i \<le> 0" by simp_all
  have b: "dkey ?u \<le> dkey (of_int64 i)" "dkey (of_int64 i) \<le> dkey 0"
    using key_spec_mono [OF key_spec_dval [OF u(1)] k] key_spec_mono [OF k key_spec_dval [OF z(1)]] r u(2) z(2) by simp_all
  then show f: "isfin (of_int64 i)" using u(3) z(3) by (auto simp: isfin_def dkey_def INF_CODE_def split: if_splits)
  show "\<bar>dval (of_int64 i)\<bar> \<le> 2 ^ 62"
    using b dval_le_iff [OF u(1) f] dval_le_iff [OF f z(1)] u(2) z(2) by simp
qed

end
