(* ===== verification/Number_Print.thy ===== *)
theory Number_Print
  imports IEEE_Double
begin

text \<open>
  Printing of doubles by the C++ standard library: \<open>std::to_string\<close> (the format \<open>%f\<close>, six decimals)
  and the default format of an output stream (\<open>%g\<close>, six significant digits). Both print the decimal
  number nearest to the exact value, ties to even, and are computed on the integers that make up the
  value.
\<close>

definition round_div :: "nat \<Rightarrow> nat \<Rightarrow> nat" where
  "round_div a b =
     (let q = a div b; r = a mod b
      in if b < 2 * r \<or> (2 * r = b \<and> odd q) then q + 1 else q)"

text \<open>The magnitude of a finite double as a quotient of naturals.\<close>

definition dnum :: "double \<Rightarrow> nat" where
  "dnum t = nat \<bar>dman t\<bar> * (if 0 \<le> dexp t then 2 ^ nat (dexp t) else 1)"

definition dden :: "double \<Rightarrow> nat" where
  "dden t = (if 0 \<le> dexp t then 1 else 2 ^ nat (- dexp t))"

definition pad_left :: "nat \<Rightarrow> string \<Rightarrow> string" where
  "pad_left n s = replicate (n - length s) (digit_char 0) @ s"

definition with_point :: "nat \<Rightarrow> string \<Rightarrow> string" where
  "with_point p s =
     (if p = 0 then s else take (length s - p) s @ CHR ''.'' # drop (length s - p) s)"

definition fixed_digits :: "nat \<Rightarrow> nat \<Rightarrow> nat \<Rightarrow> string" where
  "fixed_digits p num den = with_point p (pad_left (p + 1) (show_nat (round_div (num * 10 ^ p) den)))"

definition special :: "(nat \<Rightarrow> nat \<Rightarrow> string) \<Rightarrow> double \<Rightarrow> string" where
  "special digits t =
     (if dsign t then ''-'' else []) @
     (if isnan t then ''nan'' else if isinf t then ''inf'' else digits (dnum t) (dden t))"

definition show_fixed :: "nat \<Rightarrow> double \<Rightarrow> string" where
  "show_fixed p t = special (fixed_digits p) t"

text \<open>The exponent of the leading decimal digit of a positive quotient.\<close>

definition dec_exp :: "nat \<Rightarrow> nat \<Rightarrow> int" where
  "dec_exp num den =
     (if den \<le> num then int (length (show_nat (num div den))) - 1
      else - int (length (show_nat ((den - 1) div num))))"

definition strip_zeros :: "string \<Rightarrow> string" where
  "strip_zeros s =
     (if CHR ''.'' \<in> set s
      then let r = dropWhile (\<lambda>c. c = digit_char 0) (rev s)
           in rev (case r of c # cs \<Rightarrow> (if c = CHR ''.'' then cs else r) | [] \<Rightarrow> [])
      else s)"

definition exp_digits :: "int \<Rightarrow> string" where
  "exp_digits x = (if x < 0 then ''e-'' else ''e+'') @ pad_left 2 (show_nat (nat \<bar>x\<bar>))"

definition scaled :: "nat \<Rightarrow> nat \<Rightarrow> int \<Rightarrow> nat" where
  "scaled num den k =
     (if 0 \<le> k then round_div (num * 10 ^ nat k) den else round_div num (den * 10 ^ nat (- k)))"

definition general_digits :: "nat \<Rightarrow> nat \<Rightarrow> nat \<Rightarrow> string" where
  "general_digits p num den =
     (if num = 0 then ''0''
      else
        let x0 = dec_exp num den;
            m0 = scaled num den (int p - 1 - x0);
            x = (if m0 = 10 ^ p then x0 + 1 else x0);
            m = (if m0 = 10 ^ p then 10 ^ (p - 1) else m0)
        in if - 4 \<le> x \<and> x < int p
           then strip_zeros (fixed_digits (nat (int p - 1 - x)) num den)
           else strip_zeros (with_point (p - 1) (show_nat m)) @ exp_digits x)"

definition show_general :: "nat \<Rightarrow> double \<Rightarrow> string" where
  "show_general p t = special (general_digits p) t"

section \<open>Accuracy of the fixed format\<close>

lemma round_div_near:
  assumes "0 < b"
  shows "2 * \<bar>int (round_div a b) * int b - int a\<bar> \<le> int b"
proof -
  define q r where "q = a div b" and "r = a mod b"
  have a: "a = q * b + r" and r: "r < b"
    using assms by (simp_all add: q_def r_def)
  show ?thesis
  proof (cases "b < 2 * r \<or> (2 * r = b \<and> odd q)")
    case True
    then have "round_div a b = q + 1" by (simp add: round_div_def q_def r_def Let_def)
    then have "int (round_div a b) * int b - int a = int b - int r" by (simp add: a algebra_simps)
    with True r show ?thesis by auto
  next
    case False
    then have "round_div a b = q" by (simp add: round_div_def q_def r_def Let_def)
    then have "int (round_div a b) * int b - int a = - int r" by (simp add: a)
    with False show ?thesis by auto
  qed
qed

lemma dden_pos [simp]: "0 < dden t"
  by (simp add: dden_def)

lemma dnum_dden: "real (dnum t) / real (dden t) = \<bar>dval t\<bar>"
proof (cases "0 \<le> dexp t")
  case True
  then have "(2 :: real) powi dexp t = 2 ^ nat (dexp t)" by (simp add: power_int_def)
  with True show ?thesis by (simp add: dnum_def dden_def dval_def abs_mult)
next
  case False
  then have "(2 :: real) powi dexp t = inverse (2 ^ nat (- dexp t))" by (simp add: power_int_def power_one_over inverse_eq_divide)
  with False show ?thesis by (simp add: dnum_def dden_def dval_def abs_mult divide_inverse)
qed

lemma with_point_filter:
  assumes "CHR ''.'' \<notin> set s"
  shows "filter (\<lambda>c. c \<noteq> CHR ''.'') (with_point p s) = s"
proof -
  have f: "filter (\<lambda>c. c \<noteq> CHR ''.'') u = u" if "set u \<subseteq> set s" for u
    using assms that by (intro filter_True) auto
  have "filter (\<lambda>c. c \<noteq> CHR ''.'') (take k s @ CHR ''.'' # drop k s) = s" for k
    by (simp add: f set_take_subset set_drop_subset)
  then show ?thesis using f [of s] by (simp add: with_point_def)
qed

lemma nat_of_digits_zeros: "nat_of_digits (replicate k (digit_char 0) @ s) = nat_of_digits s"
  by (induction k) (simp_all add: of_char_digit_char)

lemma digit_not_point: "d < 10 \<Longrightarrow> digit_char d \<noteq> CHR ''.''"
proof
  assume d: "d < 10" and "digit_char d = CHR ''.''"
  then have "48 + d = (of_char (CHR ''.'') :: nat)" using of_char_digit_char [OF d] by simp
  then show False by simp
qed

lemma fixed_digits_value:
  "nat_of_digits (filter (\<lambda>c. c \<noteq> CHR ''.'') (fixed_digits p num den)) = round_div (num * 10 ^ p) den"
proof -
  have "CHR ''.'' \<notin> set (pad_left n (show_nat k))" for n k
    using digit_not_point show_nat_digits by (fastforce simp: pad_left_def)
  then have "filter (\<lambda>c. c \<noteq> CHR ''.'') (fixed_digits p num den) =
      pad_left (p + 1) (show_nat (round_div (num * 10 ^ p) den))"
    unfolding fixed_digits_def by (rule with_point_filter)
  then show ?thesis
    by (simp only: pad_left_def nat_of_digits_zeros nat_of_digits_show_nat)
qed

lemma fixed_digits_accurate:
  assumes "q = nat_of_digits (filter (\<lambda>c. c \<noteq> CHR ''.'') (fixed_digits p (dnum t) (dden t)))"
  shows "\<bar>real q / 10 ^ p - \<bar>dval t\<bar>\<bar> \<le> 1 / (2 * 10 ^ p)"
proof -
  define b a where "b = dden t" and "a = dnum t * 10 ^ p"
  have b: "0 < b" by (simp add: b_def)
  have q: "q = round_div a b" unfolding assms a_def b_def by (rule fixed_digits_value)
  have "2 * \<bar>int q * int b - int a\<bar> \<le> int b" unfolding q by (rule round_div_near [OF b])
  then have "real_of_int (2 * \<bar>int q * int b - int a\<bar>) \<le> real_of_int (int b)" by (simp only: of_int_le_iff)
  then have n: "2 * \<bar>real q * real b - real a\<bar> \<le> real b" by simp
  have "real q / 10 ^ p - \<bar>dval t\<bar> = (real q * real b - real a) / (real b * 10 ^ p)"
    using b by (simp add: dnum_dden [symmetric] a_def b_def [symmetric] field_simps)
  then have "\<bar>real q / 10 ^ p - \<bar>dval t\<bar>\<bar> = \<bar>real q * real b - real a\<bar> / (real b * 10 ^ p)"
    using b by (simp add: abs_divide)
  also have "\<dots> \<le> (real b / 2) / (real b * 10 ^ p)"
    using n b by (intro divide_right_mono) auto
  also have "\<dots> = 1 / (2 * 10 ^ p)" using b by simp
  finally show ?thesis .
qed

end
