(* ===== verification/Property_Tree.thy ===== *)
theory Property_Tree
  imports FTB_Prelude "HOL-Library.Sublist"
begin

text \<open>
  The configuration store. The program keeps its properties in a \<open>boost::property_tree::ptree\<close>,
  which is not part of the repository: a record of the operations the program calls is a parameter
  of every definition that uses the configuration, and the laws it relies on are the locale
  \<open>property_tree\<close>. The documented behaviour (nodes with a string datum and named children, paths
  split at the dots, \<open>put\<close> creating missing nodes) is realised by \<open>tree_ops\<close>, on which the locale is
  interpreted and concrete configurations are evaluated.

  The conversions of a datum to a number (the stream translators of the library) are further
  parameters.
\<close>

section \<open>The operations the program calls\<close>

record 'p ptree_ops =
  empty_tree :: 'p
  get_child_optional :: "'p \<Rightarrow> string \<Rightarrow> 'p option"
  data_of :: "'p \<Rightarrow> string"
  put_value :: "'p \<Rightarrow> string \<Rightarrow> string \<Rightarrow> 'p"
  children_of :: "'p \<Rightarrow> (string \<times> 'p) list"
  parse_int :: "string \<Rightarrow> int32 option"
  parse_uint32 :: "string \<Rightarrow> int32 option"
  parse_uint64 :: "string \<Rightarrow> 64 word option"
  parse_double :: "string \<Rightarrow> double option"
  parse_bool :: "string \<Rightarrow> bool option"
  parse_char :: "string \<Rightarrow> byte option"
  access_error :: "'p \<Rightarrow> string \<Rightarrow> string \<Rightarrow> string"
  write_info :: "'p \<Rightarrow> string"

text \<open>
  \<open>access_error t path ty\<close> is the text of the exception that an access with the type \<open>ty\<close> throws when
  it fails, \<open>write_info\<close> the text of a tree in the INFO format. The typed accessors \<open>get_optional<T>(path)\<close> and \<open>get<T>(path, default)\<close> of the library are
  documented in terms of these: no value when the node is missing or its datum does not convert.
\<close>

definition get_optional :: "'p ptree_ops \<Rightarrow> (string \<Rightarrow> 'v option) \<Rightarrow> 'p \<Rightarrow> string \<Rightarrow> 'v option" where
  "get_optional P conv t path =
     (case get_child_optional P t path of None \<Rightarrow> None | Some c \<Rightarrow> conv (data_of P c))"

definition get_default :: "'p ptree_ops \<Rightarrow> (string \<Rightarrow> 'v option) \<Rightarrow> 'p \<Rightarrow> string \<Rightarrow> 'v \<Rightarrow> 'v" where
  "get_default P conv t path d = (case get_optional P conv t path of None \<Rightarrow> d | Some v \<Rightarrow> v)"

section \<open>Numbered children\<close>

text \<open>
  Lists are configured as children named \<open>0\<close>, \<open>1\<close>, \<open>2\<close> and so on. The program walks through them with
  a loop that stops at the first number without a child; the loop's body may fail, or not return
  when it holds such a loop itself. A tree with a child for every number would keep the loop
  running, so its result is optional: \<open>None\<close> stands for not returning.
\<close>

partial_function (option) numbered_loop ::
    "(nat \<Rightarrow> 'c option) \<Rightarrow> ('c \<Rightarrow> 's \<Rightarrow> 's res option) \<Rightarrow> nat \<Rightarrow> 's \<Rightarrow> 's res option" where
  "numbered_loop child body nr s =
     (case child nr of
        None \<Rightarrow> Some (Inr s)
      | Some c \<Rightarrow> Option.bind (body c s) (\<lambda>r.
          case r of Inl e \<Rightarrow> Some (Inl e) | Inr s' \<Rightarrow> numbered_loop child body (Suc nr) s'))"

fun fold_body :: "('c \<Rightarrow> 's \<Rightarrow> 's res option) \<Rightarrow> 'c list \<Rightarrow> 's \<Rightarrow> 's res option" where
  "fold_body body [] s = Some (Inr s)"
| "fold_body body (c # cs) s = Option.bind (body c s) (\<lambda>r.
     case r of Inl e \<Rightarrow> Some (Inl e) | Inr s' \<Rightarrow> fold_body body cs s')"

definition numbered :: "'p ptree_ops \<Rightarrow> 'p \<Rightarrow> 'p list \<Rightarrow> bool" where
  "numbered P t cs \<longleftrightarrow> (\<forall>i<length cs. get_child_optional P t (show_nat i) = Some (cs ! i)) \<and>
     get_child_optional P t (show_nat (length cs)) = None"

text \<open>The same, child by child, as concrete trees are checked.\<close>

fun numbered_from :: "'p ptree_ops \<Rightarrow> 'p \<Rightarrow> nat \<Rightarrow> 'p list \<Rightarrow> bool" where
  "numbered_from P t k [] \<longleftrightarrow> get_child_optional P t (show_nat k) = None"
| "numbered_from P t k (c # cs) \<longleftrightarrow> get_child_optional P t (show_nat k) = Some c \<and> numbered_from P t (Suc k) cs"

lemma numbered_from_nth: "numbered_from P t k cs \<longleftrightarrow>
    (\<forall>i<length cs. get_child_optional P t (show_nat (k + i)) = Some (cs ! i)) \<and>
    get_child_optional P t (show_nat (k + length cs)) = None"
  by (induction cs arbitrary: k) (auto simp: All_less_Suc2)

lemma numbered_eval: "numbered P t cs \<longleftrightarrow> numbered_from P t 0 cs"
  by (simp add: numbered_def numbered_from_nth)

lemma numbered_loop_drop:
  assumes "numbered P t cs" and "k \<le> length cs"
  shows "numbered_loop (\<lambda>i. get_child_optional P t (show_nat i)) body k s = fold_body body (drop k cs) s"
  using assms(2)
proof (induction "length cs - k" arbitrary: k s)
  case 0
  with assms(1) show ?case by (simp add: numbered_def numbered_loop.simps)
next
  case (Suc n)
  then have k: "k < length cs" by simp
  then have "get_child_optional P t (show_nat k) = Some (cs ! k)" "drop k cs = cs ! k # drop (Suc k) cs"
    using assms(1) by (simp_all add: numbered_def Cons_nth_drop_Suc)
  moreover have "numbered_loop (\<lambda>i. get_child_optional P t (show_nat i)) body (Suc k) s' =
      fold_body body (drop (Suc k) cs) s'" for s'
    using Suc k by simp
  ultimately show ?case
    by (simp add: numbered_loop.simps [of _ _ k] cong: Option.bind_cong sum.case_cong)
qed

lemma numbered_loop_fold:
  "numbered P t cs \<Longrightarrow>
    numbered_loop (\<lambda>i. get_child_optional P t (show_nat i)) body 0 s = fold_body body cs s"
  using numbered_loop_drop [of P t cs 0] by simp

section \<open>Paths\<close>

fun split_at :: "char \<Rightarrow> string \<Rightarrow> string list" where
  "split_at c [] = [[]]"
| "split_at c (x # xs) =
     (if x = c then [] # split_at c xs
      else case split_at c xs of [] \<Rightarrow> [[x]] | w # ws \<Rightarrow> (x # w) # ws)"

definition path_of :: "string \<Rightarrow> string list" where
  "path_of s = (if s = [] then [] else split_at (CHR ''.'') s)"

definition unrelated :: "string \<Rightarrow> string \<Rightarrow> bool" where
  "unrelated k k' \<longleftrightarrow> \<not> prefix (path_of k) (path_of k') \<and> \<not> prefix (path_of k') (path_of k)"

lemma split_at_ne [simp]: "split_at c s \<noteq> []"
  by (cases s) (auto split: list.splits)

lemma split_at_inject: "split_at c s = split_at c t \<Longrightarrow> s = t"
proof (induction s arbitrary: t)
  case Nil
  then show ?case by (cases t) (auto split: list.splits if_splits)
next
  case (Cons x xs)
  have ne: "split_at c u \<noteq> []" for u by simp
  show ?case
  proof (cases t)
    case Nil
    with Cons.prems ne [of xs] show ?thesis by (auto split: list.splits if_splits)
  next
    case (Cons y ys)
    with Cons.prems Cons.IH [of ys] ne [of xs] ne [of ys] show ?thesis
      by (auto split: list.splits if_splits)
  qed
qed

lemma path_of_inject: "path_of s = path_of t \<longleftrightarrow> s = t"
  by (metis path_of_def split_at_inject split_at_ne)

section \<open>The laws the program relies on\<close>

locale property_tree =
  fixes P :: "'p ptree_ops"
  assumes empty_get: "k \<noteq> [] \<Longrightarrow> get_child_optional P (empty_tree P) k = None"
    and put_get: "\<exists>c. get_child_optional P (put_value P t k v) k = Some c \<and> data_of P c = v"
    and put_get_unrelated:
      "unrelated k k' \<Longrightarrow> get_child_optional P (put_value P t k v) k' = get_child_optional P t k'"
    and put_keeps: "k \<noteq> k' \<Longrightarrow> get_child_optional P t k' = Some c \<Longrightarrow>
      \<exists>c'. get_child_optional P (put_value P t k v) k' = Some c' \<and> data_of P c' = data_of P c"
begin

lemma get_optional_put: "get_optional P conv (put_value P t k v) k = conv v"
  using put_get [of t k v] by (auto simp: get_optional_def)

lemma get_optional_put_other:
  "k \<noteq> k' \<Longrightarrow> get_optional P conv t k' = Some x \<Longrightarrow> get_optional P conv (put_value P t k v) k' = Some x"
  using put_keeps [of k k' t _ v] by (fastforce simp: get_optional_def split: option.splits)

lemma put_present: "get_child_optional P t k' \<noteq> None \<Longrightarrow> get_child_optional P (put_value P t k v) k' \<noteq> None"
  using put_get [of t k v] put_keeps [of k k' t _ v] by (cases "k = k'") auto

end

section \<open>A concrete tree\<close>

datatype ptree = PNode (pdata: string) (pkids: "(string \<times> ptree) list")

fun plookup :: "ptree \<Rightarrow> string list \<Rightarrow> ptree option" where
  "plookup t [] = Some t"
| "plookup t (k # p) = (case map_of (pkids t) k of None \<Rightarrow> None | Some c \<Rightarrow> plookup c p)"

fun upd_key :: "('v \<Rightarrow> 'v) \<Rightarrow> 'v \<Rightarrow> string \<Rightarrow> (string \<times> 'v) list \<Rightarrow> (string \<times> 'v) list" where
  "upd_key f new k [] = [(k, f new)]"
| "upd_key f new k ((k', c) # ks) = (if k' = k then (k, f c) # ks else (k', c) # upd_key f new k ks)"

fun pput :: "string list \<Rightarrow> string \<Rightarrow> ptree \<Rightarrow> ptree" where
  "pput [] v t = PNode v (pkids t)"
| "pput (k # p) v t = PNode (pdata t) (upd_key (pput p v) (PNode [] []) k (pkids t))"

lemma map_of_upd_key:
  "map_of (upd_key f new k ks) k' =
     (if k' = k then Some (f (case map_of ks k of None \<Rightarrow> new | Some c \<Rightarrow> c)) else map_of ks k')"
  by (induction ks) auto

lemma plookup_pput_same: "\<exists>c. plookup (pput p v t) p = Some c \<and> pdata c = v"
  by (induction p arbitrary: t) (auto simp: map_of_upd_key)

lemma plookup_empty: "p \<noteq> [] \<Longrightarrow> plookup (PNode [] []) p = None"
  by (cases p) auto

lemma plookup_pput_unrelated:
  "\<not> prefix p q \<Longrightarrow> \<not> prefix q p \<Longrightarrow> plookup (pput p v t) q = plookup t q"
proof (induction p arbitrary: q t)
  case Nil
  then show ?case by simp
next
  case (Cons k p)
  obtain k' q' where q: "q = k' # q'" using Cons.prems by (cases q) auto
  show ?case
  proof (cases "k' = k")
    case True
    with Cons.prems q have "\<not> prefix p q'" "\<not> prefix q' p" by auto
    moreover from this have "q' \<noteq> []" by auto
    ultimately show ?thesis using True q Cons.IH
      by (auto simp: map_of_upd_key plookup_empty split: option.splits)
  next
    case False
    with q show ?thesis by (simp add: map_of_upd_key)
  qed
qed

lemma plookup_pput_keeps:
  "p \<noteq> q \<Longrightarrow> plookup t q = Some c \<Longrightarrow> \<exists>c'. plookup (pput p v t) q = Some c' \<and> pdata c' = pdata c"
proof (induction p arbitrary: q t)
  case Nil
  then obtain k' q' where "q = k' # q'" by (cases q) auto
  with Nil show ?case by auto
next
  case (Cons k p)
  show ?case
  proof (cases q)
    case Nil
    with Cons.prems show ?thesis by auto
  next
    case q: (Cons k' q')
    show ?thesis
    proof (cases "k' = k")
      case True
      with q Cons.prems obtain d where "map_of (pkids t) k = Some d" "plookup d q' = Some c"
        by (auto split: option.splits)
      moreover have "p \<noteq> q'" using True q Cons.prems by simp
      ultimately show ?thesis using True q Cons.IH by (simp add: map_of_upd_key)
    next
      case False
      with q Cons.prems show ?thesis by (simp add: map_of_upd_key)
    qed
  qed
qed

text \<open>
  The number formats of the concrete instance: unsigned decimal digits for the integers, \<open>0\<close> and
  \<open>1\<close> for the flags, and integral values for the doubles. They stand for the library's translators
  in concrete evaluations only.
\<close>

definition is_digits :: "string \<Rightarrow> bool" where
  "is_digits s \<longleftrightarrow> s \<noteq> [] \<and> list_all (\<lambda>c. 48 \<le> (of_char c :: nat) \<and> (of_char c :: nat) \<le> 57) s"

definition digits_conv :: "(nat \<Rightarrow> 'v) \<Rightarrow> string \<Rightarrow> 'v option" where
  "digits_conv f s = (if is_digits s then Some (f (nat_of_digits s)) else None)"

definition tree_ops :: "(nat \<Rightarrow> double) \<Rightarrow> ptree ptree_ops" where
  "tree_ops real_of = \<lparr>empty_tree = PNode [] [], get_child_optional = (\<lambda>t k. plookup t (path_of k)), data_of = pdata,
     put_value = (\<lambda>t k v. pput (path_of k) v t), children_of = pkids,
     parse_int = digits_conv word_of_nat, parse_uint32 = digits_conv word_of_nat,
     parse_uint64 = digits_conv word_of_nat, parse_double = digits_conv real_of,
     parse_bool = (\<lambda>s. if s = ''0'' then Some False else if s = ''1'' then Some True else None),
     parse_char = (\<lambda>s. case s of [c] \<Rightarrow> Some (of_char c) | _ \<Rightarrow> None),
     access_error = (\<lambda>t path ty. ''no value''), write_info = pdata\<rparr>"

interpretation tree: property_tree "tree_ops real_of" for real_of
proof unfold_locales
  fix t k v k' c
  show "k \<noteq> [] \<Longrightarrow> get_child_optional (tree_ops real_of) (empty_tree (tree_ops real_of)) k = None"
    by (simp add: tree_ops_def path_of_def plookup_empty)
  show "\<exists>c. get_child_optional (tree_ops real_of) (put_value (tree_ops real_of) t k v) k = Some c \<and>
      data_of (tree_ops real_of) c = v"
    by (simp add: tree_ops_def plookup_pput_same)
  show "unrelated k k' \<Longrightarrow> get_child_optional (tree_ops real_of) (put_value (tree_ops real_of) t k v) k' =
      get_child_optional (tree_ops real_of) t k'"
    by (simp add: tree_ops_def unrelated_def plookup_pput_unrelated)
  show "k \<noteq> k' \<Longrightarrow> get_child_optional (tree_ops real_of) t k' = Some c \<Longrightarrow>
      \<exists>c'. get_child_optional (tree_ops real_of) (put_value (tree_ops real_of) t k v) k' = Some c' \<and>
        data_of (tree_ops real_of) c' = data_of (tree_ops real_of) c"
    by (simp add: tree_ops_def plookup_pput_keeps path_of_inject)
qed

end
