(* ===== verification/Channel_Mapping.thy ===== *)
theory Channel_Mapping
  imports Ports Property_Tree
begin

text \<open>
  Channels and the variables they carry: \<open>base/TransmissionChannel\<close> and \<open>base/ChannelMapping\<close>. The
  mapping is built from a configuration subtree whose numbered children are the channels, the
  numbered children of which are the variables. Each pair of a name and a type gets one port
  identifier, drawn when the pair is met first, so that a variable that is used in several channels
  keeps its identifier.

  The configuration references a channel keeps (C++ references into the global tree, which is not
  changed after start-up) are modelled by the subtrees themselves. The contract of the component is
  the partial function \<open>port_of\<close> from names and types to identifiers.
\<close>

section \<open>TransmissionChannel\<close>

record 'p transmission_channel =
  channelConfig :: 'p
  portIDs :: "port_id list"
  portConfig :: "'p list"

definition TransmissionChannel :: "'p \<Rightarrow> 'p transmission_channel" where
  "TransmissionChannel cfg = \<lparr>channelConfig = cfg, portIDs = [], portConfig = []\<rparr>"

definition getChannelConfig :: "'p transmission_channel \<Rightarrow> 'p" where
  "getChannelConfig ch = channelConfig ch"

definition getPortConfig :: "'p transmission_channel \<Rightarrow> 'p list res" where
  "getPortConfig ch =
     rbind (assert_that (length (portConfig ch) = length (portIDs ch))) (\<lambda>_. Inr (portConfig ch))"

definition getPortIDs :: "'p transmission_channel \<Rightarrow> port_id list res" where
  "getPortIDs ch =
     rbind (assert_that (length (portConfig ch) = length (portIDs ch))) (\<lambda>_. Inr (portIDs ch))"

definition pushBackPort ::
    "'p transmission_channel \<Rightarrow> port_id \<Rightarrow> 'p \<Rightarrow> 'p transmission_channel res" where
  "pushBackPort ch i cfg =
     rbind (assert_that (length (portConfig ch) = length (portIDs ch))) (\<lambda>_.
       Inr (ch\<lparr>portConfig := portConfig ch @ [cfg], portIDs := portIDs ch @ [i]\<rparr>))"

section \<open>ChannelMapping\<close>

record 'p channel_mapping =
  variableNames :: "string list list"
  variableIDs :: "port_id list list"
  channels :: "'p transmission_channel list"

definition PROP_TYPE :: string where
  "PROP_TYPE = ''type''"

definition empty_mapping :: "'p channel_mapping" where
  "empty_mapping = \<lparr>variableNames = replicate 5 [], variableIDs = replicate 5 [], channels = []\<rparr>"

text \<open>The three assertions \<open>getVariableNames\<close> and \<open>getVariableIDs\<close> share.\<close>

definition row_assert :: "'p channel_mapping \<Rightarrow> fmi_type \<Rightarrow> unit res" where
  "row_assert m t =
     rbind (assert_that (type_code t < length (variableNames m))) (\<lambda>_.
     rbind (assert_that (length (variableNames m) = length (variableIDs m))) (\<lambda>_.
       assert_that (length (variableNames m ! type_code t) = length (variableIDs m ! type_code t))))"

definition getVariableNames :: "'p channel_mapping \<Rightarrow> fmi_type \<Rightarrow> string list res" where
  "getVariableNames m t = rbind (row_assert m t) (\<lambda>_. Inr (variableNames m ! type_code t))"

definition getAllVariableNames :: "'p channel_mapping \<Rightarrow> string list" where
  "getAllVariableNames m = concat (variableNames m)"

definition getVariableIDs :: "'p channel_mapping \<Rightarrow> fmi_type \<Rightarrow> port_id list res" where
  "getVariableIDs m t =
     rbind (assert_that (type_code t < length (variableIDs m))) (\<lambda>_.
     rbind (row_assert m t) (\<lambda>_. Inr (variableIDs m ! type_code t)))"

definition getAllVariableIDs :: "'p channel_mapping \<Rightarrow> port_id list" where
  "getAllVariableIDs m = concat (variableIDs m)"

definition getTotalNumberOfVariables :: "'p channel_mapping \<Rightarrow> int32" where
  "getTotalNumberOfVariables m = foldl (\<lambda>ret row. ret + word_of_nat (length row)) 0 (variableIDs m)"

definition quoted :: "string \<Rightarrow> string" where
  "quoted s = CHR 0x22 # s @ [CHR 0x22]"

definition unresolved :: "string \<Rightarrow> exn" where
  "unresolved name = SystemConfigurationException
     (''The variable '' @ quoted name @ '' could not be resolved.'') None"

fun search_rows :: "string \<Rightarrow> string list list \<Rightarrow> port_id list list \<Rightarrow> port_id res" where
  "search_rows name (ns # nss) (ids # idss) =
     rbind (assert_that (length ns = length ids)) (\<lambda>_.
       case find_index (\<lambda>x. x = name) ns of
         Some j \<Rightarrow> Inr (ids ! j)
       | None \<Rightarrow> search_rows name nss idss)"
| "search_rows name _ _ = Inl (unresolved name)"

definition getPortID :: "'p channel_mapping \<Rightarrow> string \<Rightarrow> port_id res" where
  "getPortID m name =
     rbind (assert_that (length (variableNames m) = length (variableIDs m))) (\<lambda>_.
       search_rows name (variableNames m) (variableIDs m))"

definition getNumberOfChannels :: "'p channel_mapping \<Rightarrow> int32" where
  "getNumberOfChannels m = word_of_nat (length (channels m))"

definition getTransmissionChannel :: "'p channel_mapping \<Rightarrow> int \<Rightarrow> 'p transmission_channel res" where
  "getTransmissionChannel m channelID =
     rbind (assert_that (0 \<le> channelID)) (\<lambda>_.
     rbind (assert_that (channelID < int (length (channels m)))) (\<lambda>_.
       Inr (channels m ! nat channelID)))"

definition getPorts :: "'p channel_mapping \<Rightarrow> int \<Rightarrow> port_id list res" where
  "getPorts m channelID =
     rbind (assert_that (0 \<le> channelID)) (\<lambda>_.
     rbind (assert_that (channelID < int (length (channels m)))) (\<lambda>_.
       getPortIDs (channels m ! nat channelID)))"

definition getID :: "'p channel_mapping \<Rightarrow> string \<Rightarrow> fmi_type \<Rightarrow> port_id res" where
  "getID m name t =
     rbind (assert_that (5 \<le> length (variableNames m))) (\<lambda>_.
     rbind (assert_that (length (variableNames m) = length (variableIDs m))) (\<lambda>_.
     rbind (assert_that (length (variableNames m ! type_code t) = length (variableIDs m ! type_code t))) (\<lambda>_.
     rbind (assert_that (type_code t < 5)) (\<lambda>_.
       case find_index (\<lambda>x. x = name) (variableNames m ! type_code t) of
         Some i \<Rightarrow> Inr (variableIDs m ! type_code t ! i)
       | None \<Rightarrow> Inr (fmiTypeUnknown, - 1)))))"

text \<open>
  The body of the loop of \<open>addVariables\<close>. The state of the construction is the mapping, the drawer
  it refers to and the channel that is filled.
\<close>

type_synonym 'p build = "'p channel_mapping \<times> drawer \<times> 'p transmission_channel"

definition addVariable :: "'p ptree_ops \<Rightarrow> 'p \<Rightarrow> 'p build \<Rightarrow> 'p build res" where
  "addVariable P variableProp = (\<lambda>(m, d, ch).
     let name = data_of P variableProp;
         code = unat (get_default P (parse_int P) variableProp PROP_TYPE 4)
     in if name = [] then
          Inl (SystemConfigurationException
            ''At least one channel variable doesn't specify a variable name'' None)
        else if length (variableNames m) \<le> code then
          Inl (SystemConfigurationException ''FMI type code does not exist''
            (Some (PROP_TYPE, get_default P Some variableProp PROP_TYPE ''4'')))
        else
          let t = all_types ! code in
          rbind (getID m name t) (\<lambda>known.
          rbind (if sint (snd known) < 0 then
                   rbind (getNextPortID d t) (\<lambda>(i, d'). Inr (i,
                     m\<lparr>variableNames := (variableNames m)[code := variableNames m ! code @ [name]],
                       variableIDs := (variableIDs m)[code := variableIDs m ! code @ [i]]\<rparr>, d'))
                 else Inr (known, m, d)) (\<lambda>(variableID, m', d').
          rbind (pushBackPort ch variableID variableProp) (\<lambda>ch'.
            Inr (m', d', ch')))))"

definition addVariables :: "'p ptree_ops \<Rightarrow> 'p \<Rightarrow> 'p build \<Rightarrow> 'p build res option" where
  "addVariables P channelProp = (\<lambda>(m, d, ch).
     case rbind (assert_that (5 \<le> length (variableNames m))) (\<lambda>_.
            assert_that (length (variableIDs m) = length (variableNames m))) of
       Inl e \<Rightarrow> Some (Inl e)
     | Inr _ \<Rightarrow> numbered_loop (\<lambda>nr. get_child_optional P channelProp (show_nat nr))
                 (\<lambda>v s. Some (addVariable P v s)) 0 (m, d, ch))"

definition addChannel ::
    "'p ptree_ops \<Rightarrow> 'p \<Rightarrow> 'p channel_mapping \<times> drawer \<Rightarrow> ('p channel_mapping \<times> drawer) res option" where
  "addChannel P channelProp = (\<lambda>(m, d).
     map_option (\<lambda>r. rbind r (\<lambda>(m', d', ch). Inr (m'\<lparr>channels := channels m' @ [ch]\<rparr>, d')))
       (addVariables P channelProp (m, d, TransmissionChannel channelProp)))"

definition addChannels ::
    "'p ptree_ops \<Rightarrow> 'p \<Rightarrow> 'p channel_mapping \<times> drawer \<Rightarrow> ('p channel_mapping \<times> drawer) res option" where
  "addChannels P prop s =
     numbered_loop (\<lambda>nr. get_child_optional P prop (show_nat nr)) (addChannel P) 0 s"

definition ChannelMapping :: "'p ptree_ops \<Rightarrow> drawer \<Rightarrow> 'p \<Rightarrow> ('p channel_mapping \<times> drawer) res option" where
  "ChannelMapping P d prop = addChannels P prop (empty_mapping, d)"

definition id_string :: "port_id \<Rightarrow> string" where
  "id_string i = ''('' @ getVariableTypeString (fst i) @ '', '' @ show_int (sint (snd i)) @ '')''"

definition names_string :: "'p channel_mapping \<Rightarrow> nat \<Rightarrow> string" where
  "names_string m i =
     (let n = length (variableNames m ! i) in
      ''defined '' @ getVariableTypeString (all_types ! i) @ '' variable names: {'' @
      concat (map (\<lambda>j. quoted (variableNames m ! i ! j) @ '' has id '' @ id_string (variableIDs m ! i ! j) @
        (if j < n - 1 then '', '' else [])) [0..<n]) @ ''}, '')"

definition ports_string :: "'p channel_mapping \<Rightarrow> nat \<Rightarrow> string" where
  "ports_string m i =
     (let ids = portIDs (channels m ! i); n = length ids in
      concat (map (\<lambda>j. ''id '' @ id_string (ids ! j) @ '' <-> port ('' @ show_nat i @ ''.'' @ show_nat j @ '')'' @
        (if i < length (channels m) - 1 \<or> j < n - 1 then '', '' else [])) [0..<n]))"

text \<open>The assertions of \<open>toString\<close> stand in its loops; they fail alike and nothing happens before.\<close>

definition mapping_toString :: "'p channel_mapping \<Rightarrow> string res" where
  "mapping_toString m =
     rbind (assert_that (length (variableIDs m) = length (variableNames m))) (\<lambda>_.
     rbind (assert_that (list_all2 (\<lambda>ids ns. length ids = length ns) (variableIDs m) (variableNames m))) (\<lambda>_.
     rbind (assert_that (list_all (\<lambda>ch. length (portConfig ch) = length (portIDs ch)) (channels m))) (\<lambda>_.
       Inr (''ChannelMapping: '' @ concat (map (names_string m) [0..<length (variableNames m)]) @
            ''mapping: {'' @ concat (map (ports_string m) [0..<length (channels m)]) @ ''}''))))"

section \<open>The contract and the invariant\<close>

definition port_of :: "'p channel_mapping \<Rightarrow> string \<times> fmi_type \<Rightarrow> port_id option" where
  "port_of m = (\<lambda>(n, t). map_of (zip (variableNames m ! type_code t) (variableIDs m ! type_code t)) n)"

definition channel_ok :: "'p channel_mapping \<Rightarrow> 'p transmission_channel \<Rightarrow> bool" where
  "channel_ok m ch \<longleftrightarrow> length (portConfig ch) = length (portIDs ch) \<and> set (portIDs ch) \<subseteq> ran (port_of m)"

definition row_ok :: "drawer \<Rightarrow> fmi_type \<Rightarrow> string list \<Rightarrow> port_id list \<Rightarrow> bool" where
  "row_ok d t ns ids \<longleftrightarrow> length ns = length ids \<and> distinct ns \<and> distinct ids \<and>
     (\<forall>i\<in>set ids. fst i = t \<and> drawn d i \<and> unat (snd i) < 2 ^ 31)"

definition mapping_ok :: "drawer \<Rightarrow> 'p channel_mapping \<Rightarrow> bool" where
  "mapping_ok d m \<longleftrightarrow> length (variableNames m) = 5 \<and> length (variableIDs m) = 5 \<and>
     (\<forall>t. row_ok d t (variableNames m ! type_code t) (variableIDs m ! type_code t)) \<and>
     (\<forall>ch\<in>set (channels m). channel_ok m ch)"

definition grows :: "drawer \<times> 'p channel_mapping \<Rightarrow> drawer \<times> 'p channel_mapping \<Rightarrow> bool" where
  "grows = (\<lambda>(d, m) (d', m'). drawer_ok d' \<and> mapping_ok d' m' \<and> drawer_le d d' \<and>
     port_of m \<subseteq>\<^sub>m port_of m' \<and> (\<forall>i\<in>ran (port_of m') - ran (port_of m). \<not> drawn d i))"

definition var_key :: "'p ptree_ops \<Rightarrow> 'p \<Rightarrow> string \<times> fmi_type" where
  "var_key P v = (data_of P v, all_types ! unat (get_default P (parse_int P) v PROP_TYPE 4))"

definition var_valid :: "'p ptree_ops \<Rightarrow> 'p \<Rightarrow> bool" where
  "var_valid P v \<longleftrightarrow> data_of P v \<noteq> [] \<and> unat (get_default P (parse_int P) v PROP_TYPE 4) < 5"

lemma find_index_map_of:
  "length xs = length ys \<Longrightarrow>
    map_option ((!) ys) (find_index (\<lambda>x. x = n) xs) = map_of (zip xs ys) n"
  by (induction xs ys rule: list_induct2) (auto simp: option.map_comp comp_def)

lemma sint_nonneg: "unat i < 2 ^ 31 \<Longrightarrow> 0 \<le> sint i" for i :: int32
proof -
  assume "unat i < 2 ^ 31"
  then have "int (unat i) < int (2 ^ 31)" by (simp only: of_nat_less_iff)
  then have "uint i < 2 ^ 31" by simp
  then have "signed_take_bit 31 (uint i) = uint i"
    by (intro signed_take_bit_int_eq_self) (simp_all add: order_trans [OF _ uint_ge_0])
  then have "sint i = uint i" by (simp add: sint_uint del: bit_uint_iff)
  then show ?thesis by (simp del: sint_ge)
qed

lemma row_okD:
  assumes "row_ok d t ns ids" and "i \<in> set ids"
  shows "fst i = t" "drawn d i" "unat (snd i) < 2 ^ 31" "0 \<le> sint (snd i)"
  using assms by (simp_all add: row_ok_def sint_nonneg)

lemma port_of_in_row: "port_of m (n, t) = Some i \<Longrightarrow> i \<in> set (variableIDs m ! type_code t)"
  by (auto simp: port_of_def dest: map_of_SomeD set_zip_rightD)

lemma ran_port_ofE:
  assumes "i \<in> ran (port_of m)"
  obtains t where "i \<in> set (variableIDs m ! type_code t)"
  using assms by (auto simp: ran_def dest: port_of_in_row)

lemma getID_port_of:
  assumes "mapping_ok d m"
  shows "getID m n t = Inr (case port_of m (n, t) of None \<Rightarrow> (fmiTypeUnknown, - 1) | Some i \<Rightarrow> i)"
proof -
  let ?ns = "variableNames m ! type_code t" and ?ids = "variableIDs m ! type_code t"
  have l: "length ?ns = length ?ids" using assms by (simp add: mapping_ok_def row_ok_def)
  have "port_of m (n, t) = map_option ((!) ?ids) (find_index (\<lambda>x. x = n) ?ns)"
    by (simp add: port_of_def find_index_map_of [OF l])
  then show ?thesis
    using assms l by (cases "find_index (\<lambda>x. x = n) ?ns") (simp_all add: getID_def mapping_ok_def)
qed

lemma getID_unknown_iff:
  assumes "mapping_ok d m" and "getID m n t = Inr i"
  shows "sint (snd i) < 0 \<longleftrightarrow> port_of m (n, t) = None"
proof (cases "port_of m (n, t)")
  case None
  then have "i = (fmiTypeUnknown, - 1)" using assms by (simp add: getID_port_of)
  then show ?thesis using None by simp
next
  case (Some j)
  then have "i = j" using assms by (simp add: getID_port_of)
  moreover have "0 \<le> sint (snd j)"
    using assms(1) port_of_in_row [OF Some] row_okD(4) unfolding mapping_ok_def by blast
  ultimately show ?thesis using Some by simp
qed

lemma grows_refl: "drawer_ok d \<Longrightarrow> mapping_ok d m \<Longrightarrow> grows (d, m) (d, m)"
  by (simp add: grows_def)

lemma grows_trans: "grows a b \<Longrightarrow> grows b c \<Longrightarrow> grows a c"
proof -
  assume ab: "grows a b" and bc: "grows b c"
  obtain d m d' m' d'' m'' where s: "a = (d, m)" "b = (d', m')" "c = (d'', m'')"
    by (cases a, cases b, cases c)
  have "\<not> drawn d i" if "i \<in> ran (port_of m'') - ran (port_of m)" for i
    using ab bc that drawn_mono [of d i d'] unfolding grows_def s by (cases "i \<in> ran (port_of m')") auto
  with ab bc show "grows a c"
    unfolding grows_def s using drawer_le_trans map_le_trans by blast
qed

lemma grows_port_of: "grows (d, m) (d', m') \<Longrightarrow> port_of m k = Some i \<Longrightarrow> port_of m' k = Some i"
proof -
  assume "grows (d, m) (d', m')" and k: "port_of m k = Some i"
  then have "port_of m \<subseteq>\<^sub>m port_of m'" unfolding grows_def by blast
  with k show "port_of m' k = Some i" unfolding map_le_def by (metis domI)
qed

section \<open>Adding a variable\<close>

definition add_row :: "'p channel_mapping \<Rightarrow> string \<Rightarrow> fmi_type \<Rightarrow> port_id \<Rightarrow> 'p channel_mapping" where
  "add_row m n t i =
     m\<lparr>variableNames := (variableNames m)[type_code t := variableNames m ! type_code t @ [n]],
       variableIDs := (variableIDs m)[type_code t := variableIDs m ! type_code t @ [i]]\<rparr>"

lemma nth_update_type:
  "length xs = 5 \<Longrightarrow> xs[type_code t := x] ! type_code s = (if s = t then x else xs ! type_code s)"
  by (cases "s = t") (auto simp: nth_list_update)

lemma map_of_zip_snoc:
  assumes "length xs = length ys" and "x \<notin> set xs"
  shows "map_of (zip (xs @ [x]) (ys @ [y])) = (map_of (zip xs ys))(x \<mapsto> y)"
  using assms by (induction xs ys rule: list_induct2) (auto simp: fun_upd_twist)

lemma port_of_add_row:
  assumes "mapping_ok d m" and "port_of m (n, t) = None"
  shows "port_of (add_row m n t i) = (port_of m)((n, t) \<mapsto> i)"
proof
  fix k :: "string \<times> fmi_type"
  obtain n' t' where k: "k = (n', t')" by (cases k)
  have l: "length (variableNames m) = 5" "length (variableIDs m) = 5"
      "length (variableNames m ! type_code t) = length (variableIDs m ! type_code t)"
    using assms(1) by (simp_all add: mapping_ok_def row_ok_def)
  show "port_of (add_row m n t i) k = ((port_of m)((n, t) \<mapsto> i)) k"
    using assms(2) l by (auto simp: port_of_def add_row_def nth_update_type k map_of_zip_snoc
      simp del: zip_append)
qed

lemma mapping_ok_mono:
  assumes "mapping_ok d m" and "drawer_le d d'"
  shows "mapping_ok d' m"
  using assms drawn_mono unfolding mapping_ok_def row_ok_def by blast

lemma add_row_grows:
  assumes ok: "mapping_ok d m" and new: "port_of m (n, t) = None"
    and i: "fst i = t" "\<not> drawn d i" "drawn d' i" "unat (snd i) < 2 ^ 31"
    and d': "drawer_ok d'" "drawer_le d d'"
  shows "grows (d, m) (d', add_row m n t i)"
proof -
  let ?m = "add_row m n t i"
  have p: "port_of ?m = (port_of m)((n, t) \<mapsto> i)" by (rule port_of_add_row [OF ok new])
  have le: "port_of m \<subseteq>\<^sub>m port_of ?m" using new by (auto simp: p map_le_def)
  have ok': "mapping_ok d' m" by (rule mapping_ok_mono [OF ok d'(2)])
  have l: "length (variableNames m) = 5" "length (variableIDs m) = 5"
    using ok by (simp_all add: mapping_ok_def)
  have n: "n \<notin> set (variableNames m ! type_code t)"
    using new ok by (simp add: port_of_def mapping_ok_def row_ok_def)
  have "i \<notin> set (variableIDs m ! type_code t)"
    using ok i(2) unfolding mapping_ok_def row_ok_def by blast
  then have "row_ok d' s (variableNames ?m ! type_code s) (variableIDs ?m ! type_code s)" for s
    using ok' n i l by (auto simp: mapping_ok_def row_ok_def add_row_def nth_update_type)
  moreover have "channel_ok ?m ch" if "ch \<in> set (channels m)" for ch
    using ok that new unfolding mapping_ok_def channel_ok_def p by (auto simp: ran_map_upd)
  ultimately have "mapping_ok d' ?m" using l by (simp add: mapping_ok_def add_row_def)
  then show ?thesis using le d' i(2) new by (auto simp: grows_def p)
qed

definition push_port :: "'p transmission_channel \<Rightarrow> port_id list \<Rightarrow> 'p list \<Rightarrow> 'p transmission_channel" where
  "push_port ch is' cfgs = ch\<lparr>portConfig := portConfig ch @ cfgs, portIDs := portIDs ch @ is'\<rparr>"

definition var_error :: "'p ptree_ops \<Rightarrow> 'p \<Rightarrow> exn" where
  "var_error P v =
     (if data_of P v = [] then SystemConfigurationException
        ''At least one channel variable doesn't specify a variable name'' None
      else SystemConfigurationException ''FMI type code does not exist''
        (Some (PROP_TYPE, get_default P Some v PROP_TYPE ''4'')))"

lemma addVariable_invalid:
  assumes "mapping_ok d m" and "\<not> var_valid P v"
  shows "addVariable P v (m, d, ch) = Inl (var_error P v)"
  using assms by (cases "data_of P v = []")
    (simp_all add: addVariable_def var_error_def var_valid_def mapping_ok_def Let_def not_less)

lemma addVariable_known:
  assumes "mapping_ok d m" and "var_valid P v" and "port_of m (var_key P v) = Some i"
    and "length (portConfig ch) = length (portIDs ch)"
  shows "addVariable P v (m, d, ch) = Inr (m, d, push_port ch [i] [v])"
proof -
  let ?t = "snd (var_key P v)"
  have "getID m (data_of P v) ?t = Inr i"
    using assms(3) by (simp add: getID_port_of [OF assms(1)] var_key_def)
  moreover from this have "\<not> sint (snd i) < 0"
    using getID_unknown_iff [OF assms(1)] assms(3) by (simp add: var_key_def)
  ultimately show ?thesis using assms(1,2,4)
    by (simp add: addVariable_def var_valid_def mapping_ok_def var_key_def Let_def pushBackPort_def
        push_port_def)
qed

lemma addVariable_new:
  assumes "mapping_ok d m" and "var_valid P v" and "port_of m (var_key P v) = None"
    and "length (portConfig ch) = length (portIDs ch)"
    and "getNextPortID d (snd (var_key P v)) = Inr (i, d')"
  shows "addVariable P v (m, d, ch) =
    Inr (add_row m (data_of P v) (snd (var_key P v)) i, d', push_port ch [i] [v])"
proof -
  let ?t = "snd (var_key P v)"
  have "getID m (data_of P v) ?t = Inr (fmiTypeUnknown, - 1)"
    using assms(3) by (simp add: getID_port_of [OF assms(1)] var_key_def)
  moreover have "type_code ?t = unat (get_default P (parse_int P) v PROP_TYPE 4)"
    using assms(2) by (simp add: var_key_def var_valid_def type_code_all_types)
  ultimately show ?thesis using assms(1,2,4,5)
    by (simp add: addVariable_def var_valid_def mapping_ok_def var_key_def Let_def pushBackPort_def
        push_port_def add_row_def)
qed

lemma addVariable_spec:
  assumes "mapping_ok d m" and "drawer_ok d" and "room (2 ^ 31) d (Suc n)" and "var_valid P v"
    and "length (portConfig ch) = length (portIDs ch)"
  shows "\<exists>m' d' i. addVariable P v (m, d, ch) = Inr (m', d', push_port ch [i] [v]) \<and>
    grows (d, m) (d', m') \<and> room (2 ^ 31) d' n \<and> channels m' = channels m \<and>
    port_of m' (var_key P v) = Some i \<and> dom (port_of m') = insert (var_key P v) (dom (port_of m))"
proof (cases "port_of m (var_key P v)")
  case (Some i)
  have "dom (port_of m) = insert (var_key P v) (dom (port_of m))" using Some by auto
  then show ?thesis
    using addVariable_known [OF assms(1,4) Some assms(5)] Some assms(1,2) room_mono [OF assms(3), of n]
      grows_refl by fastforce
next
  case None
  let ?t = "snd (var_key P v)"
  obtain i d' where g: "getNextPortID d ?t = Inr (i, d')"
    using assms(2) by (metis getNextPortID_Inr)
  note spec = getNextPortID_spec [OF assms(2,3) _ g, simplified]
  have k: "var_key P v = (data_of P v, ?t)" by (simp add: var_key_def)
  let ?m = "add_row m (data_of P v) ?t i"
  have "grows (d, m) (d', ?m)"
    by (rule add_row_grows [OF assms(1)]) (use None k spec in auto)
  moreover have "port_of ?m = (port_of m)(var_key P v \<mapsto> i)"
    using port_of_add_row [OF assms(1)] None k by metis
  moreover have "channels ?m = channels m" by (simp add: add_row_def)
  ultimately show ?thesis
    using addVariable_new [OF assms(1,4) None assms(5) g] spec
    by (intro exI [of _ ?m] exI [of _ d'] exI [of _ i]) simp
qed

section \<open>Building a mapping\<close>

lemma fold_body_append:
  "fold_body b (xs @ ys) s = Option.bind (fold_body b xs s) (\<lambda>r.
     case r of Inl e \<Rightarrow> Some (Inl e) | Inr s' \<Rightarrow> fold_body b ys s')"
proof (induction xs arbitrary: s)
  case Nil
  show ?case by simp
next
  case (Cons x xs)
  show ?case
    by (cases "b x s") (auto simp: Cons.IH split: sum.splits)
qed

abbreviation (input) add_step :: "'p ptree_ops \<Rightarrow> 'p \<Rightarrow> 'p build \<Rightarrow> 'p build res option" where
  "add_step P v s \<equiv> Some (addVariable P v s)"

lemma fold_addVariable:
  assumes "mapping_ok d m" and "drawer_ok d" and "room (2 ^ 31) d (length vs + n)"
    and "\<forall>v\<in>set vs. var_valid P v" and "length (portConfig ch) = length (portIDs ch)"
  shows "\<exists>m' d' ids. fold_body (add_step P) vs (m, d, ch) = Some (Inr (m', d', push_port ch ids vs)) \<and>
    grows (d, m) (d', m') \<and> room (2 ^ 31) d' n \<and> channels m' = channels m \<and>
    map Some ids = map (\<lambda>v. port_of m' (var_key P v)) vs \<and>
    dom (port_of m') = dom (port_of m) \<union> var_key P ` set vs"
  using assms
proof (induction vs arbitrary: m d ch)
  case Nil
  then show ?case by (auto simp: push_port_def grows_refl)
next
  case (Cons v vs)
  obtain m1 d1 i where 1: "addVariable P v (m, d, ch) = Inr (m1, d1, push_port ch [i] [v])"
      "grows (d, m) (d1, m1)" "room (2 ^ 31) d1 (length vs + n)" "channels m1 = channels m"
      "port_of m1 (var_key P v) = Some i" "dom (port_of m1) = insert (var_key P v) (dom (port_of m))"
    using addVariable_spec [of d m "length vs + n" P v ch] Cons.prems by auto
  obtain m2 d2 ids where 2: "fold_body (add_step P) vs (m1, d1, push_port ch [i] [v]) =
        Some (Inr (m2, d2, push_port (push_port ch [i] [v]) ids vs))"
      "grows (d1, m1) (d2, m2)" "room (2 ^ 31) d2 n" "channels m2 = channels m1"
      "map Some ids = map (\<lambda>v. port_of m2 (var_key P v)) vs"
      "dom (port_of m2) = dom (port_of m1) \<union> var_key P ` set vs"
    using Cons.IH [of d1 m1 "push_port ch [i] [v]"] 1 Cons.prems by (auto simp: grows_def push_port_def)
  have "port_of m2 (var_key P v) = Some i"
    by (rule grows_port_of [OF 2(2) 1(5)])
  moreover have "push_port (push_port ch [i] [v]) ids vs = push_port ch (i # ids) (v # vs)"
    by (simp add: push_port_def)
  ultimately show ?case
    using 1 2 grows_trans [OF 1(2) 2(2)]
    by (intro exI [of _ m2] exI [of _ d2] exI [of _ "i # ids"]) auto
qed

lemma fold_addVariable_error:
  assumes "mapping_ok d m" and "drawer_ok d" and "room (2 ^ 31) d (length pre)"
    and "\<forall>v\<in>set pre. var_valid P v" and "\<not> var_valid P v"
    and "length (portConfig ch) = length (portIDs ch)"
  shows "fold_body (add_step P) (pre @ v # post) (m, d, ch) = Some (Inl (var_error P v))"
proof -
  obtain m' d' ids where "fold_body (add_step P) pre (m, d, ch) = Some (Inr (m', d', push_port ch ids pre))"
      "grows (d, m) (d', m')"
    using fold_addVariable [of d m pre 0 P ch] assms by auto
  then show ?thesis using assms(5) by (auto simp: fold_body_append addVariable_invalid grows_def)
qed

definition channel_for :: "'p ptree_ops \<Rightarrow> 'p channel_mapping \<Rightarrow> 'p \<Rightarrow> 'p list \<Rightarrow> 'p transmission_channel \<Rightarrow> bool" where
  "channel_for P m c vs ch \<longleftrightarrow> channelConfig ch = c \<and> portConfig ch = vs \<and>
     map Some (portIDs ch) = map (\<lambda>v. port_of m (var_key P v)) vs"

lemma channel_for_mono:
  assumes "channel_for P m c vs ch" and "grows (d, m) (d', m')"
  shows "channel_for P m' c vs ch"
proof -
  have "port_of m (var_key P v) \<noteq> None" if "v \<in> set vs" for v
  proof -
    have "port_of m (var_key P v) \<in> Some ` set (portIDs ch)"
      using assms(1) that unfolding channel_for_def set_map [symmetric] by (metis image_eqI set_map)
    then show ?thesis by auto
  qed
  then have "map (\<lambda>v. port_of m (var_key P v)) vs = map (\<lambda>v. port_of m' (var_key P v)) vs"
    using grows_port_of [OF assms(2)] by (intro map_cong) (metis option.exhaust)+
  with assms(1) show ?thesis by (simp add: channel_for_def)
qed

lemma port_of_channels [simp]: "port_of (m\<lparr>channels := cs\<rparr>) = port_of m"
  by (simp add: port_of_def)

lemma channel_for_channels [simp]: "channel_for P (m\<lparr>channels := cs\<rparr>) c vs ch = channel_for P m c vs ch"
  by (simp add: channel_for_def)

lemma channel_for_ok:
  assumes "channel_for P m c vs ch"
  shows "channel_ok m ch"
proof -
  have "set (map Some (portIDs ch)) = set (map (\<lambda>v. port_of m (var_key P v)) vs)"
    using assms by (simp only: channel_for_def)
  then have "Some ` set (portIDs ch) = (\<lambda>v. port_of m (var_key P v)) ` set vs"
    by (simp only: set_map)
  then have "\<exists>k. port_of m k = Some i" if "i \<in> set (portIDs ch)" for i
  proof -
    have "Some i \<in> (\<lambda>v. port_of m (var_key P v)) ` set vs"
      using that \<open>Some ` set (portIDs ch) = _\<close> by blast
    then show ?thesis by (metis imageE)
  qed
  moreover have "length (portConfig ch) = length (portIDs ch)"
    using assms map_eq_imp_length_eq unfolding channel_for_def by metis
  ultimately show ?thesis by (auto simp: channel_ok_def ran_def)
qed

lemma grows_channels:
  assumes "grows (d, m) (d', m')" and "channel_ok m' ch"
  shows "grows (d, m) (d', m'\<lparr>channels := channels m' @ [ch]\<rparr>)"
  using assms by (auto simp: grows_def mapping_ok_def channel_ok_def)

lemma addVariables_fold:
  assumes "mapping_ok d m" and "numbered P c vs"
  shows "addVariables P c (m, d, ch) = fold_body (add_step P) vs (m, d, ch)"
  using assms by (simp add: addVariables_def mapping_ok_def numbered_loop_fold)

lemma addChannel_spec:
  assumes "mapping_ok d m" and "drawer_ok d" and "room (2 ^ 31) d (length vs + n)"
    and "\<forall>v\<in>set vs. var_valid P v" and "numbered P c vs"
  shows "\<exists>m' d' ch. addChannel P c (m, d) = Some (Inr (m', d')) \<and> grows (d, m) (d', m') \<and>
    room (2 ^ 31) d' n \<and> channels m' = channels m @ [ch] \<and> channel_for P m' c vs ch \<and>
    dom (port_of m') = dom (port_of m) \<union> var_key P ` set vs"
proof -
  let ?ch = "TransmissionChannel c"
  obtain m' d' ids where f: "fold_body (add_step P) vs (m, d, ?ch) = Some (Inr (m', d', push_port ?ch ids vs))"
      "grows (d, m) (d', m')" "room (2 ^ 31) d' n" "channels m' = channels m"
      "map Some ids = map (\<lambda>v. port_of m' (var_key P v)) vs"
      "dom (port_of m') = dom (port_of m) \<union> var_key P ` set vs"
    using fold_addVariable [OF assms(1-4), of ?ch] by (auto simp: TransmissionChannel_def)
  let ?c = "push_port ?ch ids vs"
  have cf: "channel_for P m' c vs ?c"
    using f(5) by (simp add: channel_for_def push_port_def TransmissionChannel_def)
  show ?thesis
    using f cf grows_channels [OF f(2) channel_for_ok [OF cf]]
    by (intro exI [of _ "m'\<lparr>channels := channels m' @ [?c]\<rparr>"] exI [of _ d'] exI [of _ ?c])
      (simp add: addChannel_def addVariables_fold [OF assms(1,5)])
qed

lemma fold_addChannel:
  assumes "mapping_ok d m" and "drawer_ok d" and "room (2 ^ 31) d (length (concat vss) + n)"
    and "\<forall>v\<in>set (concat vss). var_valid P v" and "list_all2 (numbered P) cs vss"
  shows "\<exists>m' d' chs. fold_body (addChannel P) cs (m, d) = Some (Inr (m', d')) \<and> grows (d, m) (d', m') \<and>
    room (2 ^ 31) d' n \<and> channels m' = channels m @ chs \<and> length chs = length cs \<and>
    (\<forall>i<length cs. channel_for P m' (cs ! i) (vss ! i) (chs ! i)) \<and>
    dom (port_of m') = dom (port_of m) \<union> var_key P ` set (concat vss)"
  using assms(5,1-4)
proof (induction cs vss arbitrary: m d rule: list_all2_induct)
  case Nil
  then show ?case by (auto simp: grows_refl)
next
  case (Cons c cs vs vss)
  obtain m1 d1 ch where 1: "addChannel P c (m, d) = Some (Inr (m1, d1))" "grows (d, m) (d1, m1)"
      "room (2 ^ 31) d1 (length (concat vss) + n)" "channels m1 = channels m @ [ch]"
      "channel_for P m1 c vs ch" "dom (port_of m1) = dom (port_of m) \<union> var_key P ` set vs"
    using addChannel_spec [of d m vs "length (concat vss) + n" P c] Cons by (auto simp: add.assoc)
  obtain m2 d2 chs where 2: "fold_body (addChannel P) cs (m1, d1) = Some (Inr (m2, d2))"
      "grows (d1, m1) (d2, m2)" "room (2 ^ 31) d2 n" "channels m2 = channels m1 @ chs"
      "length chs = length cs" "\<forall>i<length cs. channel_for P m2 (cs ! i) (vss ! i) (chs ! i)"
      "dom (port_of m2) = dom (port_of m1) \<union> var_key P ` set (concat vss)"
    using Cons.IH [of d1 m1] 1 Cons.prems by (auto simp: grows_def)
  have "\<forall>i<length (c # cs). channel_for P m2 ((c # cs) ! i) ((vs # vss) ! i) ((ch # chs) ! i)"
    using 2(6) channel_for_mono [OF 1(5) 2(2)] by (simp add: nth_Cons split: nat.splits)
  then show ?case
    using 1 2 grows_trans [OF 1(2) 2(2)]
    by (intro exI [of _ m2] exI [of _ d2] exI [of _ "ch # chs"]) auto
qed

lemma fold_addChannel_error:
  assumes "mapping_ok d m" and "drawer_ok d" and "room (2 ^ 31) d (length (concat vss))"
    and "list_all2 (numbered P) cs vss" and "concat vss = pre @ v # post"
    and "\<forall>v\<in>set pre. var_valid P v" and "\<not> var_valid P v"
  shows "fold_body (addChannel P) cs (m, d) = Some (Inl (var_error P v))"
  using assms(4,1-3,5-7)
proof (induction cs vss arbitrary: m d pre rule: list_all2_induct)
  case Nil
  then show ?case by simp
next
  case (Cons c cs vs vss)
  have split: "vs @ concat vss = pre @ v # post" using Cons.prems(4) by simp
  show ?case
  proof (cases "length vs \<le> length pre")
    case True
    then obtain pre' where pre: "pre = vs @ pre'" "concat vss = pre' @ v # post"
      using split by (auto simp: append_eq_append_conv2)
    obtain m1 d1 where 1: "addChannel P c (m, d) = Some (Inr (m1, d1))" "grows (d, m) (d1, m1)"
        "room (2 ^ 31) d1 (length (concat vss))"
      using addChannel_spec [of d m vs "length (concat vss)" P c] Cons.hyps Cons.prems pre by auto
    then show ?thesis using Cons.IH [of d1 m1 pre'] Cons.prems pre by (auto simp: grows_def)
  next
    case False
    then obtain post' where vs: "vs = pre @ v # post'"
      using split by (auto simp: append_eq_append_conv2 append_eq_Cons_conv)
    have "room (2 ^ 31) d (length pre)"
      using Cons.prems(3) vs by (auto intro: room_mono)
    then have "fold_body (add_step P) vs (m, d, TransmissionChannel c) = Some (Inl (var_error P v))"
      using fold_addVariable_error [of d m pre P v "TransmissionChannel c" post'] Cons.prems vs
      by (simp add: TransmissionChannel_def)
    then show ?thesis
      using addVariables_fold [OF Cons.prems(1) Cons.hyps(1)] by (simp add: addChannel_def)
  qed
qed

lemma nth_replicate_type [simp]: "replicate 5 x ! type_code t = x"
  by simp

lemma port_of_empty [simp]: "port_of empty_mapping = Map.empty"
  by (auto simp: port_of_def empty_mapping_def)

lemma mapping_ok_empty [simp]: "mapping_ok d empty_mapping"
  by (simp add: mapping_ok_def row_ok_def empty_mapping_def)

lemma getAllVariableIDs_empty [simp]: "getAllVariableIDs empty_mapping = []"
  by (simp add: getAllVariableIDs_def empty_mapping_def)

section \<open>Queries\<close>

lemma mapping_ok_rows:
  assumes "mapping_ok d m"
  shows "variableNames m = map (\<lambda>t. variableNames m ! type_code t) all_types"
    and "variableIDs m = map (\<lambda>t. variableIDs m ! type_code t) all_types"
  using assms by (auto simp: mapping_ok_def type_code_all_types intro!: nth_equalityI)

lemma port_of_iff:
  assumes "mapping_ok d m"
  shows "i \<in> set (getAllVariableIDs m) \<longleftrightarrow> i \<in> ran (port_of m)"
proof -
  have "i \<in> set (getAllVariableIDs m) \<longleftrightarrow> (\<exists>t. i \<in> set (variableIDs m ! type_code t))"
    unfolding getAllVariableIDs_def
    by (subst mapping_ok_rows(2) [OF assms]) simp
  also have "\<dots> \<longleftrightarrow> i \<in> ran (port_of m)"
  proof
    assume "\<exists>t. i \<in> set (variableIDs m ! type_code t)"
    then obtain t where "i \<in> set (variableIDs m ! type_code t)" ..
    moreover have "row_ok d t (variableNames m ! type_code t) (variableIDs m ! type_code t)"
      using assms by (simp add: mapping_ok_def)
    ultimately have "i \<in> ran (\<lambda>n. port_of m (n, t))"
      by (simp add: port_of_def row_ok_def ran_map_of_zip)
    then show "i \<in> ran (port_of m)" by (auto simp: ran_def)
  next
    assume "i \<in> ran (port_of m)"
    then show "\<exists>t. i \<in> set (variableIDs m ! type_code t)" by (metis ran_port_ofE)
  qed
  finally show ?thesis .
qed

lemma mapping_ok_drawn: "mapping_ok d m \<Longrightarrow> i \<in> ran (port_of m) \<Longrightarrow> drawn d i"
  unfolding mapping_ok_def using row_okD(2) by (metis ran_port_ofE)

lemma port_of_inject:
  assumes "mapping_ok d m" and "port_of m k = Some i" and "port_of m k' = Some i"
  shows "k = k'"
proof -
  obtain n t n' t' where k: "k = (n, t)" "k' = (n', t')" by (cases k, cases k')
  have "t = fst i" "t' = fst i"
    using assms k row_okD(1) port_of_in_row unfolding mapping_ok_def by metis+
  moreover have "row_ok d t (variableNames m ! type_code t) (variableIDs m ! type_code t)"
    using assms(1) by (simp add: mapping_ok_def)
  ultimately show ?thesis
    using assms(2,3) k
    by (auto simp: port_of_def row_ok_def in_set_zip distinct_conv_nth dest!: map_of_SomeD) metis
qed

lemma length_concat_rows: "mapping_ok d m \<Longrightarrow> length (getAllVariableNames m) = length (getAllVariableIDs m)"
  unfolding getAllVariableNames_def getAllVariableIDs_def
  by (subst mapping_ok_rows(1), assumption, subst mapping_ok_rows(2), assumption)
    (simp add: length_concat comp_def mapping_ok_def row_ok_def)

lemma total_number_concat:
  "foldl (\<lambda>ret row. ret + word_of_nat (length row)) w rows = w + word_of_nat (length (concat rows))"
  by (induction rows arbitrary: w) simp_all

lemma distinct_getAllVariableIDs:
  assumes "mapping_ok d m"
  shows "distinct (getAllVariableIDs m)"
proof -
  let ?r = "\<lambda>t. variableIDs m ! type_code t"
  have r: "row_ok d t (variableNames m ! type_code t) (?r t)" for t using assms by (simp add: mapping_ok_def)
  have ty: "fst i = t" if "i \<in> set (?r t)" for i t by (rule row_okD(1) [OF r that])
  have "distinct (?r t)" for t using r by (simp add: row_ok_def)
  then have "distinct (concat (map ?r all_types))"
    using ty by (intro distinct_concat_keyed [where key = fst]) (simp_all add: all_types_def)
  then show ?thesis unfolding getAllVariableIDs_def
    by (subst mapping_ok_rows(2) [OF assms])
qed

lemma search_rows_find:
  assumes "\<forall>t\<in>set ts. length (f t) = length (g t)"
  shows "search_rows n (map f ts) (map g ts) =
    (case find (\<lambda>t. map_of (zip (f t) (g t)) n \<noteq> None) ts of
       None \<Rightarrow> Inl (unresolved n)
     | Some t \<Rightarrow> Inr (the (map_of (zip (f t) (g t)) n)))"
  using assms
proof (induction ts)
  case Nil
  then show ?case by simp
next
  case (Cons t ts)
  have "map_option ((!) (g t)) (find_index (\<lambda>x. x = n) (f t)) = map_of (zip (f t) (g t)) n"
    using Cons.prems by (intro find_index_map_of) simp
  then have m: "map_of (zip (f t) (g t)) n = map_option ((!) (g t)) (find_index (\<lambda>x. x = n) (f t))" ..
  show ?case using Cons
    by (cases "find_index (\<lambda>x. x = n) (f t)") (simp_all add: m del: not_None_eq)
qed

lemma ChannelMapping_builds:
  assumes "numbered P prop cs" and "list_all2 (numbered P) cs vss"
    and "\<forall>v\<in>set (concat vss). var_valid P v"
    and "drawer_ok d" and "room (2 ^ 31) d (length (concat vss) + n)"
  shows "\<exists>m d'. ChannelMapping P d prop = Some (Inr (m, d')) \<and> grows (d, empty_mapping) (d', m) \<and>
    room (2 ^ 31) d' n \<and> dom (port_of m) = var_key P ` set (concat vss) \<and> length (channels m) = length cs \<and>
    (\<forall>i<length cs. channel_for P m (cs ! i) (vss ! i) (channels m ! i))"
  using fold_addChannel [of d empty_mapping vss n P cs] assms
  by (auto simp: ChannelMapping_def addChannels_def numbered_loop_fold [OF assms(1)]
      empty_mapping_def [THEN arg_cong, of channels])

lemma grows_empty:
  assumes "grows (d, empty_mapping) (d', m)" and "i \<in> ran (port_of m)"
  shows "\<not> drawn d i" "drawn d' i"
  using assms mapping_ok_drawn [of d' m i] by (auto simp: grows_def)

section \<open>Properties\<close>

text \<open>
  C12: construction of a mapping. For a configuration in which every channel and variable is valid,
  with identifiers left for its variables, the constructor returns (its loops end) without an
  exception. The mapping satisfies its invariant; the pairs of name and type that occur, and no
  others, have an identifier; different pairs have different identifiers, all of them new; and the
  channels are those of the configuration, in order, with the ports of their variables in order.
\<close>

theorem ChannelMapping_correct:
  assumes "numbered P prop cs" and "list_all2 (numbered P) cs vss"
    and "\<forall>v\<in>set (concat vss). var_valid P v"
    and "drawer_ok d" and "room (2 ^ 31) d (length (concat vss))"
  shows "\<exists>m d'. ChannelMapping P d prop = Some (Inr (m, d')) \<and> mapping_ok d' m \<and>
    dom (port_of m) = var_key P ` set (concat vss) \<and>
    (\<forall>k k' i. port_of m k = Some i \<and> port_of m k' = Some i \<longrightarrow> k = k') \<and>
    (\<forall>i\<in>ran (port_of m). \<not> drawn d i \<and> drawn d' i) \<and>
    length (channels m) = length cs \<and>
    (\<forall>i<length cs. channel_for P m (cs ! i) (vss ! i) (channels m ! i))"
proof -
  obtain m d' where f: "ChannelMapping P d prop = Some (Inr (m, d'))" "grows (d, empty_mapping) (d', m)"
      "length (channels m) = length cs" "dom (port_of m) = var_key P ` set (concat vss)"
      "\<forall>i<length cs. channel_for P m (cs ! i) (vss ! i) (channels m ! i)"
    using ChannelMapping_builds [OF assms(1-4), of 0] assms by auto
  then have ok: "mapping_ok d' m" by (simp add: grows_def)
  show ?thesis
    using f ok port_of_inject [OF ok] grows_empty [OF f(2)]
    by (intro exI [of _ m] exI [of _ d']) blast
qed

text \<open>A configuration with two channels that share the real variable \<open>x\<close>.\<close>

definition var_node :: "string \<Rightarrow> string \<Rightarrow> ptree" where
  "var_node n t = PNode n [(''type'', PNode t [])]"

definition shared_channels :: ptree where
  "shared_channels = PNode [] [(''0'', PNode [] [(''0'', var_node ''x'' ''0''), (''1'', var_node ''y'' ''1'')]),
     (''1'', PNode [] [(''0'', var_node ''x'' ''0'')])]"

lemmas tree_eval = numbered_eval tree_ops_def path_of_def show_nat_digit digit_char_eval
  var_node_def get_default_def get_optional_def PROP_TYPE_def var_valid_def digits_conv_def is_digits_def

definition shared_list :: "ptree list" where
  "shared_list = [PNode [] [(''0'', var_node ''x'' ''0''), (''1'', var_node ''y'' ''1'')],
     PNode [] [(''0'', var_node ''x'' ''0'')]]"

definition shared_vars :: "ptree list list" where
  "shared_vars = [[var_node ''x'' ''0'', var_node ''y'' ''1''], [var_node ''x'' ''0'']]"

lemma shared_channels_valid:
  "numbered (tree_ops real_of) shared_channels shared_list"
  "list_all2 (numbered (tree_ops real_of)) shared_list shared_vars"
  "\<forall>v\<in>set (concat shared_vars). var_valid (tree_ops real_of) v"
  "length (concat shared_vars) = 3"
  by (simp_all add: tree_eval shared_channels_def shared_list_def shared_vars_def)

theorem ChannelMapping_correct_witness:
  "\<exists>m d'. ChannelMapping (tree_ops (\<lambda>_. 0)) new_drawer shared_channels = Some (Inr (m, d')) \<and>
     mapping_ok d' m \<and> length (channels m) = 2"
  using ChannelMapping_correct [OF shared_channels_valid(1-3) [of "\<lambda>_. 0"] drawer_ok_new]
  by (auto simp: room_new shared_channels_valid(4) shared_list_def)

text \<open>
  C34: the first variable of the configuration without a name or with a type code outside \<open>0..4\<close>
  makes the constructor throw the \<open>SystemConfigurationException\<close> for that variable.
\<close>

theorem ChannelMapping_error:
  assumes "numbered P prop cs" and "list_all2 (numbered P) cs vss"
    and "concat vss = pre @ v # post" and "\<forall>v\<in>set pre. var_valid P v" and "\<not> var_valid P v"
    and "drawer_ok d" and "room (2 ^ 31) d (length (concat vss))"
  shows "ChannelMapping P d prop = Some (Inl (var_error P v))"
  using fold_addChannel_error [of d empty_mapping vss P cs pre v post] assms
  by (simp add: ChannelMapping_def addChannels_def numbered_loop_fold [OF assms(1)])

theorem ChannelMapping_error_witness:
  "ChannelMapping (tree_ops (\<lambda>_. 0)) new_drawer (PNode [] [(''0'', PNode [] [(''0'', var_node ''x'' ''7'')])]) =
     Some (Inl (SystemConfigurationException ''FMI type code does not exist'' (Some (''type'', ''7''))))"
proof -
  let ?P = "tree_ops (\<lambda>_. 0)" and ?x = "var_node ''x'' ''7''"
  let ?c = "PNode [] [(''0'', ?x)]"
  have "numbered ?P (PNode [] [(''0'', ?c)]) [?c]" "list_all2 (numbered ?P) [?c] [[?x]]"
      "\<not> var_valid ?P ?x"
    by (simp_all add: tree_eval)
  moreover have "room (2 ^ 31) new_drawer (length (concat [[?x]]))"
    by (simp add: room_new)
  moreover have "var_error ?P ?x =
      SystemConfigurationException ''FMI type code does not exist'' (Some (''type'', ''7''))"
    by (simp add: tree_eval var_error_def)
  ultimately show ?thesis
    using ChannelMapping_error [of ?P "PNode [] [(''0'', ?c)]" "[?c]" "[[?x]]" "[]" ?x "[]" new_drawer] by simp
qed

text \<open>
  \<open>getPortID\<close> resolves a name to the identifier of the first type, in the order of the type
  codes, under which the name is known, and throws when there is none.
\<close>

lemma getPortID_correct:
  assumes "mapping_ok d m"
  shows "getPortID m n = (case find (\<lambda>t. port_of m (n, t) \<noteq> None) all_types of
     None \<Rightarrow> Inl (unresolved n) | Some t \<Rightarrow> Inr (the (port_of m (n, t))))"
proof -
  let ?f = "\<lambda>t. variableNames m ! type_code t" and ?g = "\<lambda>t. variableIDs m ! type_code t"
  have "getPortID m n = search_rows n (map ?f all_types) (map ?g all_types)"
    using assms mapping_ok_rows [OF assms] by (simp add: getPortID_def mapping_ok_def)
  also have "\<dots> = (case find (\<lambda>t. map_of (zip (?f t) (?g t)) n \<noteq> None) all_types of
      None \<Rightarrow> Inl (unresolved n) | Some t \<Rightarrow> Inr (the (map_of (zip (?f t) (?g t)) n)))"
    by (rule search_rows_find) (use assms in \<open>simp add: mapping_ok_def row_ok_def\<close>)
  finally show ?thesis by (simp only: port_of_def prod.case)
qed

text \<open>
  The aggregate queries agree. \<open>getAllVariableIDs\<close> lists every identifier of the mapping once,
  \<open>getAllVariableNames\<close> has the same length, and \<open>getTotalNumberOfVariables\<close> is that length, reduced
  to the width of an \<open>int\<close>.
\<close>

lemma variable_queries:
  assumes "mapping_ok d m"
  shows "set (getAllVariableIDs m) = ran (port_of m) \<and> distinct (getAllVariableIDs m) \<and>
    length (getAllVariableNames m) = length (getAllVariableIDs m) \<and>
    getTotalNumberOfVariables m = word_of_nat (length (getAllVariableIDs m))"
  using port_of_iff [OF assms] distinct_getAllVariableIDs [OF assms] length_concat_rows [OF assms]
    total_number_concat [of 0 "variableIDs m"]
  by (auto simp: getTotalNumberOfVariables_def getAllVariableIDs_def)

end
