(* ===== verification/Variables.thy ===== *)
theory Variables
  imports Ports Number_Print Channel_Mapping
begin

text \<open>
  Variables and events: \<open>timing/Variable\<close>, \<open>timing/Event\<close>, \<open>timing/StaticEvent\<close> and
  \<open>network/PartialEvent\<close>. A variable pairs a port identifier with a \<open>boost::any\<close>; it is valid when the
  dynamic type of the value is the one the identifier names. The class hierarchy of the events is a
  datatype with one constructor per class; the variables of a lazy event come from the predictor
  (theory Event\_Predictor) and are not stored in it.
\<close>

section \<open>Variable\<close>

text \<open>The values a \<open>boost::any\<close> holds in this program; \<open>fmiBoolean\<close> is a \<open>char\<close>.\<close>

datatype any = AnyEmpty | AnyReal double | AnyInt int32 | AnyBool byte | AnyString string

record variable =
  var_id :: port_id
  var_data :: any

definition empty_variable :: variable where
  "empty_variable = \<lparr>var_id = (fmiTypeUnknown, 0), var_data = AnyEmpty\<rparr>"

definition Variable :: "port_id \<Rightarrow> any \<Rightarrow> variable" where
  "Variable i v = \<lparr>var_id = i, var_data = v\<rparr>"

definition setID :: "variable \<Rightarrow> port_id \<Rightarrow> variable" where
  "setID x i = x\<lparr>var_id := i\<rparr>"

definition setValue :: "variable \<Rightarrow> any \<Rightarrow> variable" where
  "setValue x v = x\<lparr>var_data := v\<rparr>"

text \<open>\<open>isValid\<close>: the switch over the type of the identifier.\<close>

fun any_has_type :: "fmi_type \<Rightarrow> any \<Rightarrow> bool" where
  "any_has_type fmiTypeReal v = (case v of AnyReal _ \<Rightarrow> True | _ \<Rightarrow> False)"
| "any_has_type fmiTypeInteger v = (case v of AnyInt _ \<Rightarrow> True | _ \<Rightarrow> False)"
| "any_has_type fmiTypeBoolean v = (case v of AnyBool _ \<Rightarrow> True | _ \<Rightarrow> False)"
| "any_has_type fmiTypeString v = (case v of AnyString _ \<Rightarrow> True | _ \<Rightarrow> False)"
| "any_has_type fmiTypeUnknown v = False"

definition var_isValid :: "variable \<Rightarrow> bool" where
  "var_isValid x = any_has_type (fst (var_id x)) (var_data x)"

definition isTypeUnknown :: "variable \<Rightarrow> bool" where
  "isTypeUnknown x \<longleftrightarrow> fst (var_id x) = fmiTypeUnknown"

definition getValue :: "variable \<Rightarrow> any res" where
  "getValue x = rbind (assert_that (var_isValid x)) (\<lambda>_. Inr (var_data x))"

definition getRealValue :: "variable \<Rightarrow> double res" where
  "getRealValue x =
     rbind (assert_that (fst (var_id x) = fmiTypeReal \<and> var_isValid x)) (\<lambda>_.
       case var_data x of AnyReal r \<Rightarrow> Inr r | _ \<Rightarrow> Inl BadAnyCast)"

definition getIntegerValue :: "variable \<Rightarrow> int32 res" where
  "getIntegerValue x =
     rbind (assert_that (fst (var_id x) = fmiTypeInteger \<and> var_isValid x)) (\<lambda>_.
       case var_data x of AnyInt r \<Rightarrow> Inr r | _ \<Rightarrow> Inl BadAnyCast)"

definition getBooleanValue :: "variable \<Rightarrow> byte res" where
  "getBooleanValue x =
     rbind (assert_that (fst (var_id x) = fmiTypeBoolean \<and> var_isValid x)) (\<lambda>_.
       case var_data x of AnyBool r \<Rightarrow> Inr r | _ \<Rightarrow> Inl BadAnyCast)"

definition getStringValue :: "variable \<Rightarrow> string res" where
  "getStringValue x =
     rbind (assert_that (fst (var_id x) = fmiTypeString \<and> var_isValid x)) (\<lambda>_.
       case var_data x of AnyString r \<Rightarrow> Inr r | _ \<Rightarrow> Inl BadAnyCast)"

fun typeName :: "fmi_type \<Rightarrow> string" where
  "typeName fmiTypeReal = ''fmiReal''"
| "typeName fmiTypeInteger = ''fmiTypeInteger''"
| "typeName fmiTypeBoolean = ''fmiTypeBoolean''"
| "typeName fmiTypeString = ''fmiTypeString''"
| "typeName fmiTypeUnknown = ''fmiTypeUnknown''"

definition value_string :: "variable \<Rightarrow> string res" where
  "value_string x =
     (if var_isValid x then
        (case fst (var_id x) of
           fmiTypeReal \<Rightarrow> rbind (getRealValue x) (\<lambda>r. Inr (show_fixed 6 r))
         | fmiTypeInteger \<Rightarrow> rbind (getIntegerValue x) (\<lambda>r. Inr (show_int (sint r)))
         | fmiTypeBoolean \<Rightarrow> rbind (getBooleanValue x) (\<lambda>r. Inr (show_int (sint r)))
         | fmiTypeString \<Rightarrow> rbind (getStringValue x) (\<lambda>r. Inr (quoted r))
         | fmiTypeUnknown \<Rightarrow> Inl AssertionFailed)
      else Inr ''Invalid Value'')"

definition var_toString :: "variable \<Rightarrow> string res" where
  "var_toString x =
     rbind (value_string x) (\<lambda>v.
       Inr (''Variable: <'' @ typeName (fst (var_id x)) @ '', id:'' @ show_int (sint (snd (var_id x))) @
            ''>='' @ v))"

definition equalValue :: "variable \<Rightarrow> variable \<Rightarrow> bool res" where
  "equalValue x y =
     rbind (assert_that (var_isValid x \<and> var_isValid y)) (\<lambda>_.
       if fst (var_id x) \<noteq> fst (var_id y) then Inr False
       else case fst (var_id x) of
           fmiTypeReal \<Rightarrow> rbind (getRealValue x) (\<lambda>a. rbind (getRealValue y) (\<lambda>b. Inr (feq a b)))
         | fmiTypeInteger \<Rightarrow> rbind (getIntegerValue x) (\<lambda>a. rbind (getIntegerValue y) (\<lambda>b. Inr (a = b)))
         | fmiTypeBoolean \<Rightarrow> rbind (getBooleanValue x) (\<lambda>a. rbind (getBooleanValue y) (\<lambda>b. Inr (a = b)))
         | fmiTypeString \<Rightarrow> rbind (getStringValue x) (\<lambda>a. rbind (getStringValue y) (\<lambda>b. Inr (a = b)))
         | fmiTypeUnknown \<Rightarrow> Inl AssertionFailed)"

definition var_eq :: "variable \<Rightarrow> variable \<Rightarrow> bool res" where
  "var_eq x y =
     (if fst (var_id x) \<noteq> fst (var_id y) \<or> snd (var_id x) \<noteq> snd (var_id y) \<or> var_isValid x \<noteq> var_isValid y
      then Inr False
      else if var_isValid x then rbind (equalValue x y) (\<lambda>e. Inr e)
      else Inr True)"

definition var_neq :: "variable \<Rightarrow> variable \<Rightarrow> bool res" where
  "var_neq x y = rbind (var_eq x y) (\<lambda>e. Inr (\<not> e))"

section \<open>Events\<close>

datatype event =
    StaticEvent (getTime: double) "variable list"
  | LazyEvent (getTime: double)
  | PartialEvent (getTime: double) (portTemplate: "port_id list") (partial_vars: "variable list")
      (nextTemplateIndex: nat)

text \<open>\<open>Event::isValid\<close> reads the value of a variable, which asserts its validity, before it checks it.\<close>

fun vars_isValid :: "variable list \<Rightarrow> bool res" where
  "vars_isValid [] = Inr True"
| "vars_isValid (x # xs) =
     rbind (getValue x) (\<lambda>_. if \<not> var_isValid x then Inr False else vars_isValid xs)"

definition vars_toString :: "variable list \<Rightarrow> string res" where
  "vars_toString xs =
     rbind (foldr (\<lambda>i rest. rbind (var_toString (xs ! i)) (\<lambda>s. rbind rest (\<lambda>r.
         Inr (s @ (if i < length xs - 1 then '', '' else []) @ r)))) [0..<length xs] (Inr [])) (\<lambda>body.
       Inr ('' variables={'' @ body @ ''}''))"

definition event_head :: "double \<Rightarrow> string" where
  "event_head t = ''Event: '' @ ''time='' @ show_general 6 t"

text \<open>The text of a lazy event depends on the state of its predictor and is an argument here.\<close>

fun event_toString :: "(double \<Rightarrow> string res) \<Rightarrow> event \<Rightarrow> string res" where
  "event_toString lazy (StaticEvent t xs) =
     rbind (vars_toString xs) (\<lambda>s. Inr (event_head t @ '' '' @ s))"
| "event_toString lazy (LazyEvent t) = lazy t"
| "event_toString lazy (PartialEvent t tmpl xs n) =
     rbind (vars_toString xs) (\<lambda>s. Inr (''PartialEvent: '' @ event_head t @ s @ '' -- '' @ show_nat n @
       '' of '' @ show_nat (length tmpl) @ '' variables registered''))"

definition newStaticEvent :: "double \<Rightarrow> variable list \<Rightarrow> event res" where
  "newStaticEvent t xs =
     rbind (vars_isValid xs) (\<lambda>ok. rbind (assert_that ok) (\<lambda>_. Inr (StaticEvent t xs)))"

definition newPartialEvent :: "double \<Rightarrow> port_id list \<Rightarrow> event" where
  "newPartialEvent t tmpl = PartialEvent t tmpl [] 0"

fun hasRemainingElements :: "event \<Rightarrow> bool" where
  "hasRemainingElements (PartialEvent t tmpl xs n) = (n < length tmpl)"
| "hasRemainingElements _ = False"

definition getNextPortType :: "event \<Rightarrow> fmi_type res" where
  "getNextPortType ev =
     rbind (assert_that (hasRemainingElements ev)) (\<lambda>_. Inr (fst (portTemplate ev ! nextTemplateIndex ev)))"

definition pushNextValue :: "event \<Rightarrow> any \<Rightarrow> event res" where
  "pushNextValue ev v =
     rbind (assert_that (hasRemainingElements ev)) (\<lambda>_.
     rbind (assert_that (length (partial_vars ev) < length (portTemplate ev))) (\<lambda>_.
       Inr (PartialEvent (getTime ev) (portTemplate ev)
         (partial_vars ev @ [Variable (portTemplate ev ! nextTemplateIndex ev) v])
         (nextTemplateIndex ev + 1))))"

definition ignoreNextValue :: "event \<Rightarrow> event res" where
  "ignoreNextValue ev =
     rbind (assert_that (hasRemainingElements ev)) (\<lambda>_.
       Inr (PartialEvent (getTime ev) (portTemplate ev) (partial_vars ev) (nextTemplateIndex ev + 1)))"

section \<open>Comparison of variables\<close>

lemma typed_cases:
  assumes "any_has_type t v"
  obtains r where "t = fmiTypeReal" "v = AnyReal r"
    | i where "t = fmiTypeInteger" "v = AnyInt i"
    | b where "t = fmiTypeBoolean" "v = AnyBool b"
    | s where "t = fmiTypeString" "v = AnyString s"
  using assms by (cases t; cases v) auto

definition same_value :: "any \<Rightarrow> any \<Rightarrow> bool" where
  "same_value v w = (case (v, w) of (AnyReal a, AnyReal b) \<Rightarrow> feq a b | _ \<Rightarrow> v = w)"

lemma equalValue_valid:
  assumes "var_isValid x" and "var_isValid y" and "fst (var_id x) = fst (var_id y)"
  shows "equalValue x y = Inr (same_value (var_data x) (var_data y))"
proof -
  have y: "any_has_type (fst (var_id x)) (var_data y)" using assms(2,3) by (simp add: var_isValid_def)
  have "any_has_type (fst (var_id x)) (var_data x)" using assms(1) by (simp add: var_isValid_def)
  then show ?thesis
    by (rule typed_cases; use y assms in \<open>cases "var_data y"\<close>)
      (simp_all add: equalValue_def getRealValue_def getIntegerValue_def getBooleanValue_def
        getStringValue_def same_value_def)
qed

text \<open>
  The comparison of variables never fails an assertion or a cast, and holds exactly when both
  have the same identifier and either both are invalid or both are valid with the same value, reals
  being compared as IEEE numbers (so that a NaN equals nothing and the zeros are equal).
\<close>

lemma var_eq_spec:
  "var_eq x y = Inr (var_id x = var_id y \<and> var_isValid x = var_isValid y \<and>
     (if var_isValid x then same_value (var_data x) (var_data y) else True))"
  by (cases "var_isValid x \<and> var_isValid y \<and> fst (var_id x) = fst (var_id y)")
    (auto simp: var_eq_def equalValue_valid prod_eq_iff)

lemma vars_isValid_iff: "vars_isValid xs = Inr True \<longleftrightarrow> list_all var_isValid xs"
  by (induction xs) (auto simp: getValue_def res_simps)

lemma vars_isValid_else: "\<not> list_all var_isValid xs \<Longrightarrow> vars_isValid xs = Inl AssertionFailed"
  by (induction xs) (auto simp: getValue_def assert_that_def)

text \<open>
  \<open>Event::isValid\<close> cannot return false. It returns true for a list of valid variables, and for
  any other list the assertion of \<open>getValue\<close> fails before the check that would report the variable.
\<close>

lemma vars_isValid_never_false:
  "vars_isValid xs = (if list_all var_isValid xs then Inr True else Inl AssertionFailed)"
  using vars_isValid_iff [of xs] vars_isValid_else [of xs] by simp

section \<open>Values by port\<close>

text \<open>The value the loops over the variables of an event assign to a port: the one that comes last.\<close>

definition last_value :: "variable list \<Rightarrow> port_id \<Rightarrow> any option" where
  "last_value vars = map_of (rev (map (\<lambda>v. (var_id v, var_data v)) vars))"

lemma last_value_Cons: "last_value (v # vars) i =
    (case last_value vars i of None \<Rightarrow> if i = var_id v then Some (var_data v) else None | Some d \<Rightarrow> Some d)"
  by (auto simp: last_value_def map_add_def split: option.splits)

lemma last_value_typed:
  assumes "list_all var_isValid vars" and "last_value vars i = Some d"
  shows "any_has_type (fst i) d"
proof -
  obtain v where "v \<in> set vars" "var_id v = i" "var_data v = d"
    using assms(2) unfolding last_value_def by (auto dest!: map_of_SomeD)
  then show ?thesis using assms(1) by (auto simp: list_all_iff var_isValid_def)
qed

section \<open>Partial events\<close>

text \<open>The variables of a partial event are typed by the consumed part of its template.\<close>

fun partial_ok :: "event \<Rightarrow> bool" where
  "partial_ok (PartialEvent t tmpl xs n) \<longleftrightarrow> n \<le> length tmpl \<and> length xs \<le> n \<and>
     subseq (map var_id xs) (take n tmpl) \<and> list_all var_isValid xs"
| "partial_ok _ = False"

lemma partial_ok_new [simp]: "partial_ok (newPartialEvent t tmpl)"
  by (simp add: newPartialEvent_def)

lemma partial_okE:
  assumes "partial_ok ev"
  obtains t tmpl xs n where "ev = PartialEvent t tmpl xs n"
  using assms by (cases ev) auto

lemma pushNextValue_ok:
  assumes "partial_ok ev" and "hasRemainingElements ev"
    and "any_has_type (fst (portTemplate ev ! nextTemplateIndex ev)) v"
  shows "\<exists>ev'. pushNextValue ev v = Inr ev' \<and> partial_ok ev' \<and> getTime ev' = getTime ev \<and>
    portTemplate ev' = portTemplate ev \<and> nextTemplateIndex ev' = Suc (nextTemplateIndex ev)"
proof -
  obtain t tmpl xs n where ev: "ev = PartialEvent t tmpl xs n" using assms(1) by (rule partial_okE)
  have n: "n < length tmpl" "length xs \<le> n" using assms ev by simp_all
  then have "take (Suc n) tmpl = take n tmpl @ [tmpl ! n]" by (simp add: take_Suc_conv_app_nth)
  with assms ev n show ?thesis
    by (simp add: pushNextValue_def Variable_def var_isValid_def)
qed

lemma ignoreNextValue_ok:
  assumes "partial_ok ev" and "hasRemainingElements ev"
  shows "\<exists>ev'. ignoreNextValue ev = Inr ev' \<and> partial_ok ev' \<and> getTime ev' = getTime ev \<and>
    portTemplate ev' = portTemplate ev \<and> nextTemplateIndex ev' = Suc (nextTemplateIndex ev) \<and>
    partial_vars ev' = partial_vars ev"
proof -
  obtain t tmpl xs n where ev: "ev = PartialEvent t tmpl xs n" using assms(1) by (rule partial_okE)
  have "n < length tmpl" using assms ev by simp
  then have "take (Suc n) tmpl = take n tmpl @ [tmpl ! n]" by (simp add: take_Suc_conv_app_nth)
  with assms ev show ?thesis by (simp add: ignoreNextValue_def subseq_rev_drop_many)
qed

end
