(* ===== verification/Event_Queue.thy ===== *)
theory Event_Queue
  imports Variables IEEE_Double "HOL-Library.Multiset"
begin

text \<open>
  The event queue: \<open>timing/EventQueue\<close>, \<open>timing/TimedEventQueue\<close> with its initialization barrier, and
  the part of \<open>timing/EventLogger\<close> the queue uses. Every public operation runs under the queue's
  mutex, so one call is one atomic step; where \<open>get\<close> waits it gives up the mutex, so each pass of its
  loop is a step of its own (\<open>get_iteration\<close>) and the threads are interleaved by the relation
  \<open>qstep\<close>.

  System times are counted in microsecond ticks, the resolution of the clock the program reads. The
  current time is an argument of the operations that query the clock.
\<close>

section \<open>Logged stages\<close>

datatype processing_stage =
    realTimeGeneration | prediction | endOfDistribution | beginOfDistribution | outdated | locationUndefined

fun stage_code :: "processing_stage \<Rightarrow> int" where
  "stage_code realTimeGeneration = 0"
| "stage_code prediction = 1"
| "stage_code endOfDistribution = 2"
| "stage_code beginOfDistribution = 3"
| "stage_code outdated = 4"
| "stage_code locationUndefined = - 1"

type_synonym log_entry = "event \<times> processing_stage"

section \<open>State\<close>

type_synonym entry = "event \<times> bool"

record queue_state =
  queue :: "entry list"
  localEpoch :: int
  initialized :: bool
  simulationEpoch :: int
  queueLog :: "log_entry list"

definition TimedEventQueue :: "int \<Rightarrow> queue_state" where
  "TimedEventQueue now =
     \<lparr>queue = [], localEpoch = now, initialized = False, simulationEpoch = now, queueLog = []\<rparr>"

abbreviation entry_time :: "entry \<Rightarrow> double" where
  "entry_time e \<equiv> getTime (fst e)"

section \<open>Time conversions\<close>

definition thousand :: double where "thousand = 0x408F400000000000"
definition million :: double where "million = 0x412E848000000000"
definition DBL_MAX :: double where "DBL_MAX = 0x7FEFFFFFFFFFFFFF"
definition neg_DBL_MAX :: double where "neg_DBL_MAX = 0xFFEFFFFFFFFFFFFF"

definition getRelativeTime :: "double \<Rightarrow> int" where
  "getRelativeTime t =
     ftrunc (ffloor t) * 1000000 + ftrunc (fmul (fmul (fsub t (ffloor t)) thousand) thousand)"

definition getSystemTime :: "queue_state \<Rightarrow> event \<Rightarrow> int" where
  "getSystemTime s ev = localEpoch s + getRelativeTime (getTime ev)"

definition getSimulationTime :: "queue_state \<Rightarrow> int \<Rightarrow> double" where
  "getSimulationTime s sysTime = fdiv (of_int64 (sysTime - localEpoch s)) million"

definition isFutureEvent :: "queue_state \<Rightarrow> int \<Rightarrow> event \<Rightarrow> bool" where
  "isFutureEvent s now ev \<longleftrightarrow> now < getSystemTime s ev"

section \<open>Operations\<close>

definition logEvent :: "queue_state \<Rightarrow> event \<Rightarrow> processing_stage \<Rightarrow> queue_state" where
  "logEvent s ev stage = s\<lparr>queueLog := queueLog s @ [(ev, stage)]\<rparr>"

definition deleteEvent :: "queue_state \<Rightarrow> event \<Rightarrow> queue_state" where
  "deleteEvent s ev = logEvent s ev outdated"

definition notifyInitialized :: "queue_state \<Rightarrow> queue_state res" where
  "notifyInitialized s =
     rbind (assert_that (\<not> initialized s)) (\<lambda>_. Inr (s\<lparr>initialized := True\<rparr>))"

definition initStartTimeNow :: "queue_state \<Rightarrow> int \<Rightarrow> double \<Rightarrow> queue_state res" where
  "initStartTimeNow s now start =
     rbind (assert_that (queue s = [])) (\<lambda>_.
       let epoch = now - getRelativeTime start in
       notifyInitialized (s\<lparr>localEpoch := epoch, simulationEpoch := epoch\<rparr>))"

definition isQueuePredictionConsistent :: "entry list \<Rightarrow> bool" where
  "isQueuePredictionConsistent q = list_all (\<lambda>e. \<not> snd e) (tl q)"

definition hasPriorEvents :: "entry list \<Rightarrow> double \<Rightarrow> bool" where
  "hasPriorEvents q maxTime \<longleftrightarrow> q \<noteq> [] \<and> flt (entry_time (hd q)) (fsub maxTime eps)"

definition removeFuturPredictions :: "queue_state \<Rightarrow> double \<Rightarrow> queue_state res" where
  "removeFuturPredictions s time =
     rbind (assert_that (isQueuePredictionConsistent (queue s))) (\<lambda>_.
       if queue s \<noteq> [] \<and> snd (hd (queue s)) \<and> flt (fadd time eps) (entry_time (hd (queue s)))
       then Inr ((deleteEvent s (fst (hd (queue s))))\<lparr>queue := tl (queue s)\<rparr>)
       else Inr s)"

definition removeConcurrentPrediction :: "queue_state \<Rightarrow> double \<Rightarrow> queue_state res" where
  "removeConcurrentPrediction s time =
     rbind (assert_that (isQueuePredictionConsistent (queue s))) (\<lambda>_.
       if queue s \<noteq> [] \<and> snd (hd (queue s)) \<and> fle (fabs (fsub (entry_time (hd (queue s))) time)) eps
       then Inr ((deleteEvent s (fst (hd (queue s))))\<lparr>queue := tl (queue s)\<rparr>)
       else Inr s)"

text \<open>
  The loop of \<open>push\<close>: the entries it passes and the rest, in front of which the event is put.
  \<open>old\<close> is \<open>invariantOldTime\<close>.
\<close>

fun push_scan :: "double \<Rightarrow> double \<Rightarrow> entry list \<Rightarrow> (entry list \<times> entry list) res" where
  "push_scan old limit [] = Inr ([], [])"
| "push_scan old limit (e # q) =
     (if fle (entry_time e) limit then
        rbind (assert_that (fle old (fadd (entry_time e) eps))) (\<lambda>_.
        rbind (push_scan (entry_time e) limit q) (\<lambda>(before, after). Inr (e # before, after)))
      else Inr ([], e # q))"

definition push :: "queue_state \<Rightarrow> event \<Rightarrow> bool \<Rightarrow> queue_state res" where
  "push s ev predicted =
     rbind (assert_that (queue s = [] \<or> \<not> snd (hd (queue s)) \<or> \<not> predicted)) (\<lambda>_.
     rbind (if predicted then Inr ([], queue s)
            else push_scan neg_DBL_MAX (fadd (getTime ev) eps) (queue s)) (\<lambda>(before, after).
       Inr (s\<lparr>queue := before @ (ev, predicted) # after\<rparr>)))"

text \<open>
  \<open>add\<close> after the barrier, and \<open>pushExternalEvent\<close>. The flag of the result tells whether
  \<open>newEventCondition_\<close> was notified.
\<close>

definition add :: "queue_state \<Rightarrow> event \<Rightarrow> bool \<Rightarrow> (queue_state \<times> bool) res" where
  "add s ev predicted =
     rbind (removeFuturPredictions s (getTime ev)) (\<lambda>s1.
       if predicted \<and> hasPriorEvents (queue s1) (getTime ev)
       then Inr (deleteEvent s1 ev, False)
       else rbind (if predicted then removeConcurrentPrediction s1 (getTime ev) else Inr s1) (\<lambda>s2.
         rbind (push s2 ev predicted) (\<lambda>s3. Inr (s3, True))))"

definition pushExternalEvent :: "queue_state \<Rightarrow> event \<Rightarrow> (queue_state \<times> bool) res" where
  "pushExternalEvent s ev = add (logEvent s ev realTimeGeneration) ev False"

definition getTimeStampNow :: "queue_state \<Rightarrow> int \<Rightarrow> double" where
  "getTimeStampNow s now = getSimulationTime s now"

text \<open>One pass of the loop of \<open>get\<close>, with the mutex held.\<close>

datatype iteration = WaitForNew | WaitUntil int | Return event queue_state

definition get_iteration :: "queue_state \<Rightarrow> int \<Rightarrow> iteration" where
  "get_iteration s now =
     (case queue s of
        [] \<Rightarrow> WaitForNew
      | e # q \<Rightarrow>
          if isFutureEvent s now (fst e) then WaitUntil (getSystemTime s (fst e))
          else Return (fst e) (s\<lparr>queue := q\<rparr>))"

fun queue_items :: "(double \<Rightarrow> string res) \<Rightarrow> entry list \<Rightarrow> string res" where
  "queue_items lazy [] = Inr []"
| "queue_items lazy (e # q) =
     rbind (event_toString lazy (fst e)) (\<lambda>t. rbind (queue_items lazy q) (\<lambda>r.
       Inr (t @ (if snd e then '' (predicted)'' else '' (external)'') @ (if q \<noteq> [] then '', '' else []) @ r)))"

definition queue_toString :: "(double \<Rightarrow> string res) \<Rightarrow> queue_state \<Rightarrow> string res" where
  "queue_toString lazy s =
     rbind (queue_items lazy (queue s)) (\<lambda>r. Inr (''TimedEventQueue: ['' @ r @ '']''))"

section \<open>The invariant\<close>

text \<open>
  Times are numbers not below \<open>- DBL_MAX\<close>. Only the first entry may be a prediction; an external
  entry exceeds no later one by more than the tolerance (\<open>queue_safe\<close>). With \<open>head_ok\<close>, a prediction does
  not exceed the entry behind it by more than the tolerance either: that is what the assertion in the
  loop of \<open>push\<close> needs. When a prediction is put in front, the code tests it with the tolerance
  subtracted instead of added; the two tests may differ by a rounding error.
\<close>

definition valid_time :: "double \<Rightarrow> bool" where
  "valid_time t \<longleftrightarrow> fle neg_DBL_MAX t"

definition tol :: "entry \<Rightarrow> entry \<Rightarrow> bool" where
  "tol a b \<longleftrightarrow> fle (entry_time a) (fadd (entry_time b) eps)"

definition head_ok :: "entry list \<Rightarrow> bool" where
  "head_ok q = (case q of a # b # _ \<Rightarrow> tol a b | _ \<Rightarrow> True)"

definition externals :: "entry list \<Rightarrow> entry list" where
  "externals q = filter (\<lambda>e. \<not> snd e) q"

definition queue_safe :: "entry list \<Rightarrow> bool" where
  "queue_safe q \<longleftrightarrow> list_all (\<lambda>e. valid_time (entry_time e)) q \<and> isQueuePredictionConsistent q \<and>
     sorted_wrt tol (externals q)"

definition queue_ok :: "entry list \<Rightarrow> bool" where
  "queue_ok q \<longleftrightarrow> queue_safe q \<and> head_ok q"

definition insert_entry :: "entry \<Rightarrow> entry list \<Rightarrow> entry list" where
  "insert_entry e q =
     takeWhile (\<lambda>x. tol x e) q @ e # dropWhile (\<lambda>x. tol x e) q"

definition drop_future :: "double \<Rightarrow> entry list \<Rightarrow> entry list" where
  "drop_future t q =
     (case q of [] \<Rightarrow> [] | e # r \<Rightarrow> if snd e \<and> flt (fadd t eps) (entry_time e) then r else q)"

lemma valid_time_num: "valid_time t \<Longrightarrow> \<not> isnan t"
  by (simp add: valid_time_def fle_def)

lemma valid_time_up: "valid_time t \<Longrightarrow> fle neg_DBL_MAX (fadd t eps)"
  using dtime.up_infl [of t] dtime.le_trans valid_time_num unfolding valid_time_def by blast

lemma externals_consistent:
  "isQueuePredictionConsistent q \<Longrightarrow>
    externals q = (case q of [] \<Rightarrow> [] | e # r \<Rightarrow> if snd e then r else e # r)"
proof -
  have "list_all (\<lambda>e. \<not> snd e) r \<Longrightarrow> filter (\<lambda>e. \<not> snd e) r = r" for r :: "entry list"
    by (induction r) auto
  then show "isQueuePredictionConsistent q \<Longrightarrow> ?thesis"
    by (auto simp: externals_def isQueuePredictionConsistent_def split: list.splits)
qed

lemma insert_entry_sorted:
  assumes "sorted_wrt tol q" and "list_all (\<lambda>e. valid_time (entry_time e)) q" and "valid_time (entry_time e)"
  shows "sorted_wrt tol (insert_entry e q)"
proof -
  let ?r = "\<lambda>a b. fle a (fadd b eps)"
  have m: "sorted_wrt tol q' = sorted_wrt ?r (map entry_time q')" for q'
    by (simp add: sorted_wrt_map tol_def [abs_def])
  have "sorted_wrt ?r (takeWhile (\<lambda>x. ?r x (entry_time e)) (map entry_time q) @ entry_time e #
      dropWhile (\<lambda>x. ?r x (entry_time e)) (map entry_time q))"
    using assms by (intro dtime.insert_tolerant) (auto simp: m list_all_iff valid_time_num)
  then show ?thesis
    by (simp add: m insert_entry_def takeWhile_map dropWhile_map comp_def tol_def)
qed

lemma push_scan_spec:
  assumes "successively tol q" and "q \<noteq> [] \<Longrightarrow> fle old (fadd (entry_time (hd q)) eps)"
  shows "push_scan old limit q =
    Inr (takeWhile (\<lambda>x. fle (entry_time x) limit) q, dropWhile (\<lambda>x. fle (entry_time x) limit) q)"
  using assms
proof (induction q arbitrary: old)
  case Nil
  then show ?case by simp
next
  case (Cons e q)
  have "push_scan (entry_time e) limit q =
      Inr (takeWhile (\<lambda>x. fle (entry_time x) limit) q, dropWhile (\<lambda>x. fle (entry_time x) limit) q)"
    using Cons.prems(1) by (intro Cons.IH) (auto simp: successively_Cons tol_def)
  with Cons.prems(2) show ?case by simp
qed

lemma sorted_wrt_successively: "sorted_wrt r xs \<Longrightarrow> successively r xs"
  by (induction xs) (auto simp: successively_Cons dest: hd_in_set)

lemma queue_ok_successively:
  assumes "queue_ok q"
  shows "successively tol q"
proof (cases q)
  case Nil
  then show ?thesis by simp
next
  case (Cons e r)
  have x: "externals q = (if snd e then r else e # r)"
    using assms Cons by (simp add: queue_ok_def queue_safe_def externals_consistent)
  show ?thesis
  proof (cases "snd e")
    case True
    then have "successively tol r" using assms x by (simp add: queue_ok_def queue_safe_def sorted_wrt_successively)
    moreover have "r \<noteq> [] \<Longrightarrow> tol e (hd r)"
      using assms Cons by (auto simp: queue_ok_def head_ok_def neq_Nil_conv)
    ultimately show ?thesis using Cons by (auto simp: successively_Cons)
  next
    case False
    then show ?thesis using assms x Cons sorted_wrt_successively [of tol q] by (simp add: queue_ok_def queue_safe_def)
  qed
qed

section \<open>Adding external events\<close>

lemma queue_ok_externals:
  assumes "list_all (\<lambda>e. valid_time (entry_time e)) q" "list_all (\<lambda>e. \<not> snd e) q" "sorted_wrt tol q"
  shows "queue_ok q"
proof -
  have "externals q = q" using assms(2) by (induction q) (auto simp: externals_def)
  moreover have "isQueuePredictionConsistent q"
    using assms(2) by (cases q) (auto simp: isQueuePredictionConsistent_def)
  ultimately show ?thesis using assms by (auto simp: queue_ok_def queue_safe_def head_ok_def split: list.splits)
qed

lemma queue_safe_tl:
  assumes "queue_safe (e # r)"
  shows "queue_ok r" "sorted_wrt tol r" "list_all (\<lambda>e. \<not> snd e) r" "externals r = r"
proof -
  show c: "list_all (\<lambda>e. \<not> snd e) r" using assms by (simp add: queue_safe_def isQueuePredictionConsistent_def)
  show x: "externals r = r" using c by (induction r) (auto simp: externals_def)
  show s: "sorted_wrt tol r" using assms x by (auto simp: queue_safe_def externals_def split: if_splits)
  show "queue_ok r" using assms s c by (intro queue_ok_externals) (simp_all add: queue_safe_def)
qed

lemma queue_safe_unpredicted:
  assumes "queue_safe q" and "q = [] \<or> \<not> snd (hd q)"
  shows "list_all (\<lambda>e. \<not> snd e) q" "sorted_wrt tol q" "externals q = q" "queue_ok q"
proof -
  show c: "list_all (\<lambda>e. \<not> snd e) q" using assms queue_safe_tl(3) by (cases q) auto
  then show x: "externals q = q" by (induction q) (auto simp: externals_def)
  with assms(1) show "sorted_wrt tol q" by (simp add: queue_safe_def)
  with c show "queue_ok q" using assms(1) by (intro queue_ok_externals) (simp_all add: queue_safe_def)
qed

lemma set_insert_entry: "set (insert_entry e q) = insert e (set q)"
  unfolding insert_entry_def
  by (metis Un_insert_right list.simps(15) set_append takeWhile_dropWhile_id)

lemma mset_insert_entry: "mset (insert_entry e q) = add_mset e (mset q)"
proof -
  have "mset (takeWhile (\<lambda>x. tol x e) q) + mset (dropWhile (\<lambda>x. tol x e) q) = mset q"
    by (metis mset_append takeWhile_dropWhile_id)
  then show ?thesis by (simp add: insert_entry_def)
qed

lemma insert_entry_safe:
  assumes "queue_safe q" and "valid_time (entry_time e)" and "\<not> snd e"
    and "q \<noteq> [] \<Longrightarrow> snd (hd q) \<Longrightarrow> tol (hd q) e"
  shows "queue_safe (insert_entry e q)" and "externals (insert_entry e q) = insert_entry e (externals q)"
proof -
  have v: "list_all (\<lambda>x. valid_time (entry_time x)) q" using assms(1) by (simp add: queue_safe_def)
  have "queue_safe (insert_entry e q) \<and> externals (insert_entry e q) = insert_entry e (externals q)"
  proof (cases "q \<noteq> [] \<and> snd (hd q)")
    case False
    then have q: "list_all (\<lambda>x. \<not> snd x) q" "sorted_wrt tol q" "externals q = q"
      using queue_safe_unpredicted [OF assms(1)] by auto
    have "queue_ok (insert_entry e q)"
      using q assms v insert_entry_sorted [OF q(2) v assms(2)]
      by (intro queue_ok_externals) (auto simp: list_all_iff set_insert_entry)
    moreover have "externals (insert_entry e q) = insert_entry e q"
      using q(1) assms(3) by (auto simp: externals_def list_all_iff set_insert_entry)
    ultimately show ?thesis using q(3) by (simp add: queue_ok_def)
  next
    case True
    then obtain p r where q: "q = p # r" "snd p" by (cases q) auto
    have i: "insert_entry e q = p # insert_entry e r" using assms(4) q by (simp add: insert_entry_def)
    note r = queue_safe_tl [OF assms(1) [unfolded q(1)]]
    have vr: "list_all (\<lambda>x. valid_time (entry_time x)) r" using v q by simp
    have c: "list_all (\<lambda>x. \<not> snd x) (insert_entry e r)"
      using r(3) assms(3) by (auto simp: list_all_iff set_insert_entry)
    have "externals (p # insert_entry e r) = insert_entry e r"
      using c q(2) by (auto simp: externals_def list_all_iff)
    then show ?thesis
      using v c r assms(2) insert_entry_sorted [OF r(2) vr assms(2)] unfolding i queue_safe_def
      by (simp add: isQueuePredictionConsistent_def list_all_iff set_insert_entry q externals_def)
  qed
  then show "queue_safe (insert_entry e q)" and "externals (insert_entry e q) = insert_entry e (externals q)"
    by simp_all
qed

lemma insert_entry_head_ok:
  assumes "queue_ok q" and "q \<noteq> [] \<Longrightarrow> snd (hd q) \<Longrightarrow> tol (hd q) e" and "queue_safe (insert_entry e q)" and "\<not> snd e"
  shows "queue_ok (insert_entry e q)"
proof (cases "q \<noteq> [] \<and> snd (hd q)")
  case True
  then obtain p r where q: "q = p # r" "snd p" by (cases q) auto
  have pe: "tol p e" using assms(2) q by simp
  then have i: "insert_entry e q = p # insert_entry e r" using q by (simp add: insert_entry_def)
  have "tol p (hd (insert_entry e r))"
    using pe assms(1) q by (cases r) (auto simp: insert_entry_def queue_ok_def head_ok_def)
  moreover have "insert_entry e r \<noteq> []" by (simp add: insert_entry_def)
  ultimately have "head_ok (insert_entry e q)"
    unfolding i by (cases "insert_entry e r") (simp_all add: head_ok_def)
  with assms(3) show ?thesis by (simp add: queue_ok_def)
next
  case False
  show ?thesis
  proof (rule queue_safe_unpredicted(4) [OF assms(3)])
    show "insert_entry e q = [] \<or> \<not> snd (hd (insert_entry e q))"
    proof (cases "snd e")
      case True
      then show ?thesis using assms(4) by simp
    next
      case f: False
      then show ?thesis using False by (cases q) (auto simp: insert_entry_def)
    qed
  qed
qed

lemma drop_future_safe: "queue_safe q \<Longrightarrow> queue_safe (drop_future t q)"
  by (cases q) (use queue_safe_tl(1) in \<open>auto simp: drop_future_def queue_ok_def\<close>)

lemma drop_future_ok: "queue_ok q \<Longrightarrow> queue_ok (drop_future t q)"
  by (cases q) (auto simp: drop_future_def queue_ok_def [of "_ # _"] dest: queue_safe_tl(1))

lemma drop_future_head:
  assumes "queue_safe q" and "valid_time (getTime ev)" and "drop_future (getTime ev) q \<noteq> []"
    and "snd (hd (drop_future (getTime ev) q))"
  shows "tol (hd (drop_future (getTime ev) q)) (ev, b)"
proof (cases q)
  case (Cons e r)
  note r = queue_safe_tl(3) [OF assms(1) [unfolded Cons]]
  have "\<not> (snd e \<and> flt (fadd (getTime ev) eps) (entry_time e))"
    using assms(3,4) Cons r by (cases r) (auto simp: drop_future_def)
  moreover from this have "snd e" "drop_future (getTime ev) q = e # r"
    using assms(4) Cons by (auto simp: drop_future_def)
  moreover have "\<not> isnan (fadd (getTime ev) eps)" "\<not> isnan (entry_time e)"
    using assms(1,2) Cons by (auto simp: queue_safe_def valid_time_num intro!: dtime.up_num)
  ultimately show ?thesis using dtime.not_le by (auto simp: tol_def)
qed (use assms in \<open>simp add: drop_future_def\<close>)

definition outdated_by :: "double \<Rightarrow> entry list \<Rightarrow> log_entry list" where
  "outdated_by t q = (if drop_future t q = q then [] else [(fst (hd q), outdated)])"

lemma removeFuturPredictions_spec:
  "queue_safe (queue s) \<Longrightarrow> removeFuturPredictions s t =
    Inr (s\<lparr>queue := drop_future t (queue s), queueLog := queueLog s @ outdated_by t (queue s)\<rparr>)"
  by (cases "queue s")
    (auto simp: removeFuturPredictions_def queue_safe_def drop_future_def outdated_by_def deleteEvent_def
      logEvent_def)

lemma push_scan_result:
  "push_scan old limit q = Inr r \<Longrightarrow>
    r = (takeWhile (\<lambda>x. fle (entry_time x) limit) q, dropWhile (\<lambda>x. fle (entry_time x) limit) q)"
  by (induction q arbitrary: old r) (fastforce simp: res_simps split: if_splits)+

lemma push_external_result:
  "push s ev False = Inr s' \<Longrightarrow> s' = s\<lparr>queue := insert_entry (ev, False) (queue s)\<rparr>"
  by (auto simp: push_def res_simps insert_entry_def tol_def dest!: push_scan_result)

lemma push_external:
  assumes "queue_ok (queue s)"
  shows "push s ev False = Inr (s\<lparr>queue := insert_entry (ev, False) (queue s)\<rparr>)"
proof -
  have "push_scan neg_DBL_MAX (fadd (getTime ev) eps) (queue s) =
      Inr (takeWhile (\<lambda>x. tol x (ev, False)) (queue s), dropWhile (\<lambda>x. tol x (ev, False)) (queue s))"
    unfolding tol_def fst_conv
  proof (rule push_scan_spec [OF queue_ok_successively [OF assms]])
    assume "queue s \<noteq> []"
    then show "fle neg_DBL_MAX (fadd (entry_time (hd (queue s))) eps)"
      using assms by (intro valid_time_up) (auto simp: queue_ok_def queue_safe_def list_all_iff)
  qed
  then show ?thesis by (simp add: push_def insert_entry_def)
qed

text \<open>The queue with an external event, a prediction for a later time being dropped.\<close>

definition after_external :: "event \<Rightarrow> entry list \<Rightarrow> entry list" where
  "after_external ev q = insert_entry (ev, False) (drop_future (getTime ev) q)"

definition with_external :: "queue_state \<Rightarrow> event \<Rightarrow> queue_state" where
  "with_external s ev = s\<lparr>queue := after_external ev (queue s),
     queueLog := queueLog s @ outdated_by (getTime ev) (queue s)\<rparr>"

lemma externals_drop_future: "queue_safe q \<Longrightarrow> externals (drop_future t q) = externals q"
  by (cases q) (auto simp: drop_future_def externals_def)

lemma after_external_safe:
  assumes "queue_safe q" and "valid_time (getTime ev)"
  shows "queue_safe (after_external ev q)"
    and "externals (after_external ev q) = insert_entry (ev, False) (externals q)"
proof -
  have e: "\<not> snd (ev, False)" "valid_time (entry_time (ev, False))" using assms(2) by simp_all
  note i = insert_entry_safe [OF drop_future_safe [OF assms(1)] e(2,1) drop_future_head [OF assms]]
  show "queue_safe (after_external ev q)" unfolding after_external_def by (rule i(1)) auto
  show "externals (after_external ev q) = insert_entry (ev, False) (externals q)"
    unfolding after_external_def externals_drop_future [OF assms(1), of "getTime ev", symmetric]
    by (rule i(2)) auto
qed

lemma after_external_ok:
  assumes "queue_ok q" and "valid_time (getTime ev)"
  shows "queue_ok (after_external ev q)"
proof -
  have safe: "queue_safe q" using assms(1) by (simp add: queue_ok_def)
  show ?thesis
    unfolding after_external_def
  proof (rule insert_entry_head_ok [OF drop_future_ok [OF assms(1)]])
    show "queue_safe (insert_entry (ev, False) (drop_future (getTime ev) q))"
      using after_external_safe(1) [OF safe assms(2)] by (simp add: after_external_def)
  qed (use drop_future_head [OF safe assms(2)] in auto)
qed

lemma add_external:
  assumes "queue_ok (queue s)" and "valid_time (getTime ev)"
  shows "add s ev False = Inr (with_external s ev, True)"
  using assms drop_future_ok [OF assms(1), of "getTime ev"]
  by (simp add: add_def removeFuturPredictions_spec push_external queue_ok_def [of "queue s"]
      with_external_def after_external_def)

lemma add_external_result:
  assumes "queue_safe (queue s)" and "add s ev False = Inr r"
  shows "r = (with_external s ev, True)"
  using assms
  by (auto simp: add_def removeFuturPredictions_spec res_simps with_external_def after_external_def
      dest!: push_external_result)

section \<open>Adding predictions\<close>

definition unpredicted :: "entry list \<Rightarrow> bool" where
  "unpredicted q \<longleftrightarrow> q = [] \<or> \<not> snd (hd q)"

lemma drop_future_unpredicted: "unpredicted q \<Longrightarrow> drop_future t q = q"
  by (cases q) (auto simp: unpredicted_def drop_future_def)

lemma consistent_Cons: "queue_safe q \<Longrightarrow> unpredicted q \<Longrightarrow> isQueuePredictionConsistent (e # q)"
  using queue_safe_unpredicted(1) by (simp add: isQueuePredictionConsistent_def unpredicted_def)

lemma prediction_safe:
  assumes "queue_safe q" and "unpredicted q" and "valid_time (getTime ev)"
  shows "queue_safe ((ev, True) # q)" and "externals ((ev, True) # q) = externals q"
  using assms queue_safe_unpredicted [of q] consistent_Cons [OF assms(1,2), of "(ev, True)"]
  by (auto simp: queue_safe_def externals_def unpredicted_def)

lemma add_predicted:
  assumes "queue_safe (queue s)" and "unpredicted (queue s)"
  shows "add s ev True = (if hasPriorEvents (queue s) (getTime ev) then Inr (deleteEvent s ev, False)
     else Inr (s\<lparr>queue := (ev, True) # queue s\<rparr>, True))"
proof -
  have "removeFuturPredictions s (getTime ev) = Inr s"
    using removeFuturPredictions_spec [OF assms(1), of "getTime ev"] drop_future_unpredicted [OF assms(2)]
    by (simp add: outdated_by_def)
  moreover have "removeConcurrentPrediction s (getTime ev) = Inr s"
    using assms by (auto simp: removeConcurrentPrediction_def queue_safe_def unpredicted_def)
  moreover have "push s ev True = Inr (s\<lparr>queue := (ev, True) # queue s\<rparr>)"
    using assms(2) by (auto simp: push_def unpredicted_def)
  ultimately show ?thesis by (simp add: add_def)
qed

lemma add_predicted_head:
  assumes "queue_safe (queue s)" and "queue s = (p, True) # r"
  shows "add s ev True =
    (let gone = s\<lparr>queue := r, queueLog := queueLog s @ [(p, outdated)]\<rparr> in
     if flt (fadd (getTime ev) eps) (getTime p) then
       (if hasPriorEvents r (getTime ev) then Inr (deleteEvent gone ev, False)
        else Inr (gone\<lparr>queue := (ev, True) # r\<rparr>, True))
     else if flt (getTime p) (fsub (getTime ev) eps) then Inr (deleteEvent s ev, False)
     else if fle (fabs (fsub (getTime p) (getTime ev))) eps then Inr (gone\<lparr>queue := (ev, True) # r\<rparr>, True)
     else Inl AssertionFailed)"
proof -
  define gone where "gone = s\<lparr>queue := r, queueLog := queueLog s @ [(p, outdated)]\<rparr>"
  have r: "queue_safe r" "unpredicted r"
    using queue_safe_tl(1,3) [of "(p, True)" r] assms by (auto simp: queue_ok_def unpredicted_def list_all_iff)
  have rf: "removeFuturPredictions s (getTime ev) =
      Inr (if flt (fadd (getTime ev) eps) (getTime p) then gone else s)"
    using assms by (simp add: removeFuturPredictions_def queue_safe_def deleteEvent_def logEvent_def gone_def)
  have rc: "removeConcurrentPrediction s (getTime ev) =
      Inr (if fle (fabs (fsub (getTime p) (getTime ev))) eps then gone else s)"
    using assms by (simp add: removeConcurrentPrediction_def queue_safe_def deleteEvent_def logEvent_def gone_def)
  have rg: "removeConcurrentPrediction gone (getTime ev) = Inr gone"
    using r by (auto simp: removeConcurrentPrediction_def queue_safe_def unpredicted_def gone_def)
  have pg: "push gone ev True = Inr (gone\<lparr>queue := (ev, True) # r\<rparr>)"
    using r by (auto simp: push_def unpredicted_def gone_def)
  have ps: "push s ev True = Inl AssertionFailed"
    using assms by (simp add: push_def assert_that_def)
  have qg: "queue gone = r" by (simp add: gone_def)
  have qs: "hasPriorEvents (queue s) (getTime ev) = flt (getTime p) (fsub (getTime ev) eps)"
    using assms by (simp add: hasPriorEvents_def)
  show ?thesis
    unfolding gone_def [symmetric] Let_def by (simp add: add_def rf rc rg pg ps qg qs)
qed

lemma unpredicted_tl: "queue_safe (e # r) \<Longrightarrow> unpredicted r"
  using queue_safe_tl(3) [of e r] by (cases r) (auto simp: unpredicted_def)

text \<open>Every call that returns keeps the safe part of the invariant and the external entries.\<close>

lemma add_keeps:
  assumes "queue_safe (queue s)" and "valid_time (getTime ev)" and "add s ev b = Inr (s', n)"
  shows "queue_safe (queue s') \<and> localEpoch s' = localEpoch s \<and> initialized s' = initialized s \<and>
    externals (queue s') = (if b then externals (queue s) else insert_entry (ev, False) (externals (queue s))) \<and>
    (\<not> n \<longrightarrow> b)"
proof (cases b)
  case False
  with assms(3) have "s' = with_external s ev" "n" using add_external_result [OF assms(1)] by auto
  then show ?thesis using False after_external_safe [OF assms(1,2)] by (simp add: with_external_def)
next
  case True
  show ?thesis
  proof (cases "unpredicted (queue s)")
    case u: True
    then show ?thesis
      using True assms(3) prediction_safe [OF assms(1) u assms(2)] assms(1)
      by (auto simp: add_predicted [OF assms(1) u] deleteEvent_def logEvent_def split: if_splits)
  next
    case u: False
    then obtain p r where q: "queue s = (p, True) # r" by (cases "queue s") (auto simp: unpredicted_def)
    have r: "queue_safe r" "unpredicted r" "externals (queue s) = externals r"
      using assms(1) q queue_safe_tl(1) unpredicted_tl by (auto simp: queue_ok_def externals_def)
    show ?thesis
      using True assms(3) prediction_safe [OF r(1,2) assms(2)] r assms(1)
      by (auto simp: add_predicted_head [OF assms(1) q] Let_def deleteEvent_def logEvent_def split: if_splits)
  qed
qed

section \<open>Retrieving events\<close>

lemma get_iteration_cases:
  obtains "queue s = []" "get_iteration s now = WaitForNew"
  | e q where "queue s = e # q" "now < getSystemTime s (fst e)"
      "get_iteration s now = WaitUntil (getSystemTime s (fst e))"
  | e q where "queue s = e # q" "getSystemTime s (fst e) \<le> now"
      "get_iteration s now = Return (fst e) (s\<lparr>queue := q\<rparr>)"
proof (cases "queue s")
  case Nil
  then show ?thesis using that(1) by (simp add: get_iteration_def)
next
  case (Cons e q)
  then show ?thesis using that(2,3) [OF Cons] by (cases "now < getSystemTime s (fst e)")
    (simp_all add: get_iteration_def isFutureEvent_def)
qed

lemma front_bound:
  assumes "queue_ok (e # q)" and "f \<in> set q"
  shows "fle (entry_time e) (fadd (fadd (entry_time f) eps) eps)" and "\<not> snd e \<Longrightarrow> tol e f"
proof -
  have safe: "queue_safe (e # q)" using assms(1) by (simp add: queue_ok_def)
  note q = queue_safe_tl [OF safe]
  obtain g r where g: "q = g # r" using assms(2) by (cases q) auto
  have v: "\<not> isnan (entry_time f)" using safe assms(2) by (auto simp: queue_safe_def list_all_iff valid_time_num)
  have "fle (entry_time g) (fadd (entry_time f) eps)"
    using q(2) g assms(2) dtime.up_infl [OF v] by (auto simp: tol_def)
  moreover have "fle (entry_time e) (fadd (entry_time g) eps)"
    using assms(1) g by (simp add: queue_ok_def head_ok_def tol_def)
  ultimately show "fle (entry_time e) (fadd (fadd (entry_time f) eps) eps)"
    using dtime.up_mono dtime.le_trans by blast
  show "\<not> snd e \<Longrightarrow> tol e f"
  proof -
    assume "\<not> snd e"
    moreover from this have "externals (e # q) = e # q" using q(4) by (simp add: externals_def)
    ultimately show "tol e f" using safe assms(2) by (simp add: queue_safe_def)
  qed
qed

section \<open>Times\<close>

text \<open>A start time that is not negative puts the epoch before the start.\<close>

lemma getRelativeTime_nonneg:
  assumes "isfin t" and "fle 0 t"
  shows "0 \<le> getRelativeTime t"
proof -
  have k: "0 \<le> dkey t" using assms(2) by (simp add: fle_def fp_eval dkey_def)
  note f = ffloor_bounds [OF assms(1) k]
  have th: "isfin thousand" "0 < dkey thousand" by (simp_all add: thousand_def fp_eval dkey_def)
  note s = fsub_nonneg [OF assms(1) f(1,3)]
  note m = fmul_nonneg [OF fmul_nonneg [OF s th] th]
  show ?thesis using ftrunc_nonneg [OF f(2)] ftrunc_nonneg [OF m(2)] by (simp add: getRelativeTime_def)
qed

text \<open>
  The clock may be read before the start time is set: an earlier reading gives a negative time, which is valid as well. The
  bound stands for the width of the clock's count of microseconds.
\<close>

lemma getTimeStampNow_later:
  assumes "localEpoch q \<le> t"
  shows "valid_time (getTimeStampNow q t)"
proof -
  have m: "isfin million" "0 < dkey million" by (simp_all add: million_def fp_eval dkey_def)
  have "0 \<le> dkey (of_int64 (t - localEpoch q))" using assms by (simp add: of_int64_def dkey_dround_nonneg)
  note d = fdiv_nonneg [OF _ this m]
  have "\<not> isnan neg_DBL_MAX" "dkey neg_DBL_MAX \<le> 0" by (simp_all add: neg_DBL_MAX_def fp_eval dkey_def)
  then show ?thesis using d
    by (simp add: valid_time_def fle_def getTimeStampNow_def getSimulationTime_def of_int64_def)
qed

lemma getTimeStampNow_valid:
  assumes "localEpoch q \<le> t + 2 ^ 62"
  shows "valid_time (getTimeStampNow q t)"
proof (cases "localEpoch q \<le> t")
  case True
  then show ?thesis by (rule getTimeStampNow_later)
next
  case False
  note a = of_int64_negative [of "t - localEpoch q"]
  have m: "isfin million" "dman million \<noteq> 0" "dexp million = - 33" "isfin neg_DBL_MAX"
    by (simp_all add: million_def neg_DBL_MAX_def fp_eval)
  have "dval neg_DBL_MAX \<le> - (2 ^ 96)" by (simp add: dval_def neg_DBL_MAX_def fp_eval)
  also have "\<dots> \<le> - (2 * \<bar>dval (of_int64 (t - localEpoch q))\<bar> * 2 powi (- dexp million))"
    using a(2) False assms by (simp add: m(3))
  finally show ?thesis using fdiv_bound [OF a(1) m(1,2,4)] False assms m(4)
    by (simp add: valid_time_def fle_def getTimeStampNow_def getSimulationTime_def isfin_iff)
qed

section \<open>Properties\<close>

text \<open>
  C1: adding an external event. In a queue that satisfies its invariant no assertion fails; a
  prediction for a time after the event (plus the tolerance) is outdated and logged as such, the
  event is put behind all entries up to its time (plus the tolerance), no other entry is lost or
  moved, the invariant holds again, and a waiting reader is notified.
\<close>

theorem add_external_correct:
  assumes "queue_ok (queue s)" and "valid_time (getTime ev)"
  shows "\<exists>s'. add s ev False = Inr (s', True) \<and> queue_ok (queue s') \<and>
    queue s' = insert_entry (ev, False) (drop_future (getTime ev) (queue s)) \<and>
    queueLog s' = queueLog s @ outdated_by (getTime ev) (queue s) \<and>
    mset (externals (queue s')) = add_mset (ev, False) (mset (externals (queue s)))"
proof -
  have safe: "queue_safe (queue s)" using assms(1) by (simp add: queue_ok_def)
  show ?thesis
    using add_external [OF assms] after_external_ok [OF assms] after_external_safe(2) [OF safe assms(2)]
    by (simp add: with_external_def mset_insert_entry) (simp add: after_external_def)
qed

lemma time_zero: "valid_time 0" "\<not> isnan 0" "isfin 0"
  by (simp_all add: valid_time_def fp_eval neg_DBL_MAX_def)



text \<open>
  C26: a new prediction when one is queued. The queued one is replaced when it lies after the new one
  by more than the tolerance (unless an external event then precedes the new one) or within the
  tolerance of it, and the new one is refused when the queued one lies before it by more than the
  tolerance. In the remaining case, in which rounding leaves a gap between the three comparisons,
  the assertion of \<open>push\<close> fails.
\<close>

theorem replace_prediction:
  assumes "queue_safe (queue s)" and "queue s = (p, True) # r"
  shows "add s ev True =
    (let gone = s\<lparr>queue := r, queueLog := queueLog s @ [(p, outdated)]\<rparr> in
     if flt (fadd (getTime ev) eps) (getTime p) then
       (if hasPriorEvents r (getTime ev) then Inr (deleteEvent gone ev, False)
        else Inr (gone\<lparr>queue := (ev, True) # r\<rparr>, True))
     else if flt (getTime p) (fsub (getTime ev) eps) then Inr (deleteEvent s ev, False)
     else if fle (fabs (fsub (getTime p) (getTime ev))) eps then Inr (gone\<lparr>queue := (ev, True) # r\<rparr>, True)
     else Inl AssertionFailed)"
  by (rule add_predicted_head [OF assms])

text \<open>The times 0.1 and 0.101, and a queue that holds a prediction for the latter.\<close>

definition t_100ms :: double where "t_100ms = 0x3FB999999999999A"
definition t_101ms :: double where "t_101ms = 0x3FB9DB22D0E56042"

definition gap_queue :: queue_state where
  "gap_queue = (TimedEventQueue 0)\<lparr>queue := [(LazyEvent t_101ms, True)]\<rparr>"

lemma gap_fadd: "fadd t_100ms eps = t_101ms"
  unfolding t_100ms_def t_101ms_def eps_def
  by (subst fadd_eval, (simp add: fp_eval)+)

lemma gap_fsub_eps: "fsub t_100ms eps = 0x3FB95810624DD2F2"
proof -
  have "fneg eps = 0xBF50624DD2F1A9FC" by (simp add: fp_eval eps_def)
  then have "fsub t_100ms eps = fadd 0x3FB999999999999A 0xBF50624DD2F1A9FC"
    by (simp add: fsub_eq eps_facts t_100ms_def)
  also have "\<dots> = 0x3FB95810624DD2F2"
    by (subst fadd_eval, (simp add: fp_eval)+)
  finally show ?thesis .
qed

lemma gap_fsub: "fsub t_101ms t_100ms = 0x3F50624DD2F1AA00"
proof -
  have "isfin t_100ms" "fneg t_100ms = 0xBFB999999999999A" by (simp_all add: fp_eval t_100ms_def)
  then have "fsub t_101ms t_100ms = fadd 0x3FB9DB22D0E56042 0xBFB999999999999A"
    by (simp add: fsub_eq t_101ms_def)
  also have "\<dots> = 0x3F50624DD2F1AA00"
    by (subst fadd_eval, (simp add: fp_eval)+)
  finally show ?thesis .
qed

lemma gap_queue_state:
  "queue gap_queue = [(LazyEvent t_101ms, True)]" "queueLog gap_queue = []" "queue_ok (queue gap_queue)"
  "queue_safe (queue gap_queue)" "flt (fadd 0 eps) t_101ms"
proof -
  show q: "queue gap_queue = [(LazyEvent t_101ms, True)]" "queueLog gap_queue = []"
    by (simp_all add: gap_queue_def TimedEventQueue_def)
  have "valid_time t_101ms" by (simp add: valid_time_def fp_eval neg_DBL_MAX_def t_101ms_def)
  then show "queue_ok (queue gap_queue)" "queue_safe (queue gap_queue)"
    by (simp_all add: q queue_ok_def queue_safe_def isQueuePredictionConsistent_def externals_def head_ok_def)
  have "fadd 0 eps = eps" unfolding eps_def by (subst fadd_eval, (simp add: fp_eval)+)
  then show "flt (fadd 0 eps) t_101ms" by (simp add: fp_eval eps_def t_101ms_def)
qed

theorem add_external_correct_witness:
  "\<exists>s'. add gap_queue (StaticEvent 0 []) False = Inr (s', True) \<and> queue s' = [(StaticEvent 0 [], False)] \<and>
     queueLog s' = [(LazyEvent t_101ms, outdated)]"
proof -
  have "valid_time (getTime (StaticEvent 0 []))" using time_zero(1) by simp
  from add_external_correct [OF gap_queue_state(3) this] show ?thesis
    by (auto simp: gap_queue_state(1,2,5) drop_future_def insert_entry_def outdated_by_def)
qed

theorem replace_prediction_witness:
  "\<exists>s'. add gap_queue (LazyEvent 0) True = Inr (s', True) \<and> queue s' = [(LazyEvent 0, True)] \<and>
     queueLog s' = [(LazyEvent t_101ms, outdated)]"
  using replace_prediction [OF gap_queue_state(4,1), of "LazyEvent 0"]
  by (simp add: gap_queue_state(2,5) hasPriorEvents_def)



lemma relative_zero: "getRelativeTime 0 = 0"
proof -
  have z: "dman 0 = 0" "isfin 0" "\<not> isnan 0" "\<not> isinf 0" "\<not> dsign 0" "dmag 0 = 0" "dround False 0 e = 0" for e
    by (simp_all add: fp_eval)
  have n: "dman (fneg 0) = 0" "\<not> isnan (fneg 0)" "\<not> isinf (fneg 0)" by (simp_all add: fp_eval)
  have t: "\<not> isnan thousand" "\<not> isinf thousand" "\<not> dsign thousand"
    by (simp_all add: thousand_def fp_eval)
  have f: "ffloor 0 = 0" by (simp add: ffloor_def z)
  have "fsub 0 0 = 0" by (simp add: fsub_def fadd_def z n Let_def)
  moreover have "fmul 0 thousand = 0" by (simp add: fmul_def z t)
  moreover have "ftrunc 0 = 0" by (simp add: ftrunc_def z)
  ultimately show ?thesis by (simp add: getRelativeTime_def f)
qed


text \<open>
  The start of the clock. \<open>initStartTimeNow\<close> succeeds once, on an empty queue; afterwards the
  system time of an event at the start time is the moment of the call, and a second call fails the
  assertion of the barrier.
\<close>

lemma initStartTimeNow_correct:
  assumes "queue s = []" and "\<not> initialized s"
  shows "\<exists>s'. initStartTimeNow s now start = Inr s' \<and> initialized s' \<and> queue s' = [] \<and>
    getSystemTime s' (LazyEvent start) = now \<and> simulationEpoch s' = localEpoch s' \<and>
    initStartTimeNow s' now2 start2 = Inl AssertionFailed"
  using assms
  by (simp add: initStartTimeNow_def notifyInitialized_def getSystemTime_def Let_def assert_that_def)

end
