(* ===== verification/Queue_Threads.thy ===== *)
theory Queue_Threads
  imports Event_Queue
begin

text \<open>
  The threads around the event queue. The dispatcher thread alternates between adding a prediction
  and retrieving an event; any number of subscriber threads push external events; the clock moves on.
  A retrieval that finds nothing to return waits on the condition variable, with a time limit when an
  event is queued, and is woken by a notification, by the limit, or spuriously. One rule of \<open>qstep\<close>
  is one critical section of the queue's mutex.

  \<open>accepted\<close> and \<open>delivered\<close> record the external events that were pushed and the entries that were
  returned; the program has no such variables.
\<close>

section \<open>The step relation\<close>

datatype phase = Predicting | Running | WaitingNew | WaitingUntil int

record system =
  squeue :: queue_state
  clock :: int
  phase :: phase
  accepted :: "event list"
  delivered :: "entry list"

fun woken :: "bool \<Rightarrow> phase \<Rightarrow> phase" where
  "woken True WaitingNew = Running"
| "woken True (WaitingUntil _) = Running"
| "woken _ p = p"

inductive qstep :: "system \<Rightarrow> system \<Rightarrow> bool" where
  tick: "clock s \<le> t \<Longrightarrow> qstep s (s\<lparr>clock := t\<rparr>)"
| external: "initialized (squeue s) \<Longrightarrow> valid_time (getTime ev) \<Longrightarrow>
    pushExternalEvent (squeue s) ev = Inr (q, n) \<Longrightarrow>
    qstep s (s\<lparr>squeue := q, phase := woken n (phase s), accepted := ev # accepted s\<rparr>)"
| predict: "phase s = Predicting \<Longrightarrow> initialized (squeue s) \<Longrightarrow> valid_time (getTime ev) \<Longrightarrow>
    add (squeue s) ev True = Inr (q, n) \<Longrightarrow> qstep s (s\<lparr>squeue := q, phase := Running\<rparr>)"
| wait_new: "phase s = Running \<Longrightarrow> get_iteration (squeue s) (clock s) = WaitForNew \<Longrightarrow>
    qstep s (s\<lparr>phase := WaitingNew\<rparr>)"
| wait_until: "phase s = Running \<Longrightarrow> get_iteration (squeue s) (clock s) = WaitUntil t \<Longrightarrow>
    qstep s (s\<lparr>phase := WaitingUntil t\<rparr>)"
| return: "phase s = Running \<Longrightarrow> get_iteration (squeue s) (clock s) = Return ev q \<Longrightarrow>
    qstep s (s\<lparr>squeue := q, phase := Predicting, delivered := hd (queue (squeue s)) # delivered s\<rparr>)"
| timeout: "phase s = WaitingUntil t \<Longrightarrow> t \<le> clock s \<Longrightarrow> qstep s (s\<lparr>phase := Running\<rparr>)"
| spurious: "phase s = WaitingNew \<or> phase s = WaitingUntil t \<Longrightarrow> qstep s (s\<lparr>phase := Running\<rparr>)"

inductive_cases qstepE: "qstep s s'"

definition started :: "system \<Rightarrow> bool" where
  "started s \<longleftrightarrow> queue (squeue s) = [] \<and> initialized (squeue s) \<and> phase s = Predicting \<and>
     accepted s = [] \<and> delivered s = []"

inductive reachable :: "system \<Rightarrow> bool" where
  start: "started s \<Longrightarrow> reachable s"
| step: "reachable s \<Longrightarrow> qstep s s' \<Longrightarrow> reachable s'"

section \<open>The invariant\<close>

definition wait_ok :: "system \<Rightarrow> bool" where
  "wait_ok s = (case phase s of
     Predicting \<Rightarrow> unpredicted (queue (squeue s))
   | Running \<Rightarrow> True
   | WaitingNew \<Rightarrow> queue (squeue s) = []
   | WaitingUntil t \<Rightarrow> queue (squeue s) \<noteq> [] \<and> t = getSystemTime (squeue s) (fst (hd (queue (squeue s)))))"

definition account_ok :: "system \<Rightarrow> bool" where
  "account_ok s \<longleftrightarrow> mset (accepted s) =
     mset (map fst (externals (queue (squeue s)))) + mset (map fst (externals (delivered s)))"

definition punctual :: "system \<Rightarrow> bool" where
  "punctual s \<longleftrightarrow> (\<forall>e\<in>set (delivered s). getSystemTime (squeue s) (fst e) \<le> clock s)"

definition system_ok :: "system \<Rightarrow> bool" where
  "system_ok s \<longleftrightarrow> initialized (squeue s) \<and> queue_safe (queue (squeue s)) \<and> wait_ok s \<and> account_ok s \<and> punctual s"

lemma system_okD:
  assumes "system_ok s"
  shows "initialized (squeue s)" "queue_safe (queue (squeue s))" "wait_ok s" "account_ok s" "punctual s"
  using assms by (simp_all add: system_ok_def)

lemma started_ok: "started s \<Longrightarrow> system_ok s"
  by (auto simp: system_ok_def started_def queue_safe_def isQueuePredictionConsistent_def externals_def
      wait_ok_def account_ok_def punctual_def unpredicted_def)

lemma wait_ok_woken:
  assumes "wait_ok s" and "unpredicted (queue (squeue s)) \<Longrightarrow> unpredicted (queue q)"
  shows "wait_ok (s\<lparr>squeue := q, phase := woken True (phase s), accepted := a\<rparr>)"
  using assms by (cases "phase s") (auto simp: wait_ok_def)

lemma after_external_unpredicted: "unpredicted q \<Longrightarrow> unpredicted (after_external ev q)"
  by (cases q) (auto simp: unpredicted_def after_external_def insert_entry_def drop_future_unpredicted)

lemma system_ok_external:
  assumes "system_ok s" and "valid_time (getTime ev)" and "pushExternalEvent (squeue s) ev = Inr (q, n)"
  shows "system_ok (s\<lparr>squeue := q, phase := woken n (phase s), accepted := ev # accepted s\<rparr>)"
proof -
  note ok = system_okD [OF assms(1)]
  let ?l = "logEvent (squeue s) ev realTimeGeneration"
  have l: "queue_safe (queue ?l)" using ok(2) by (simp add: logEvent_def)
  have "(q, n) = (with_external ?l ev, True)"
    by (rule add_external_result [OF l]) (use assms(3) in \<open>simp add: pushExternalEvent_def\<close>)
  then have q: "queue q = after_external ev (queue (squeue s))" "localEpoch q = localEpoch (squeue s)"
      "initialized q" and n: "n"
    using ok(1) by (simp_all add: with_external_def logEvent_def)
  have "account_ok (s\<lparr>squeue := q, phase := woken n (phase s), accepted := ev # accepted s\<rparr>)"
    using ok(4) after_external_safe(2) [OF ok(2) assms(2)]
    by (simp add: account_ok_def q mset_insert_entry)
  moreover have "wait_ok (s\<lparr>squeue := q, phase := woken True (phase s), accepted := ev # accepted s\<rparr>)"
    by (rule wait_ok_woken [OF ok(3)]) (simp add: q after_external_unpredicted)
  moreover have "punctual (s\<lparr>squeue := q, phase := woken n (phase s), accepted := ev # accepted s\<rparr>)"
    using ok(5) by (simp add: punctual_def getSystemTime_def q)
  ultimately show ?thesis
    using after_external_safe(1) [OF ok(2) assms(2)] q n by (simp add: system_ok_def)
qed

lemma system_ok_predict:
  assumes "system_ok s" and "valid_time (getTime ev)" and "add (squeue s) ev True = Inr (q, n)"
  shows "system_ok (s\<lparr>squeue := q, phase := Running\<rparr>)"
  using add_keeps [OF system_okD(2) [OF assms(1)] assms(2,3)] system_okD [OF assms(1)]
  by (simp add: system_ok_def account_ok_def punctual_def wait_ok_def getSystemTime_def)

lemma system_ok_return:
  assumes "system_ok s" and "get_iteration (squeue s) (clock s) = Return ev q"
  shows "system_ok (s\<lparr>squeue := q, phase := Predicting, delivered := hd (queue (squeue s)) # delivered s\<rparr>)"
proof (rule get_iteration_cases [of "squeue s" "clock s"])
  note ok = system_okD [OF assms(1)]
  fix e r
  assume q: "queue (squeue s) = e # r" and due: "getSystemTime (squeue s) (fst e) \<le> clock s"
    and it: "get_iteration (squeue s) (clock s) = Return (fst e) ((squeue s)\<lparr>queue := r\<rparr>)"
  have r: "q = (squeue s)\<lparr>queue := r\<rparr>" using it assms(2) by simp
  have safe: "queue_safe (e # r)" using ok(2) q by simp
  have "account_ok (s\<lparr>squeue := q, phase := Predicting, delivered := e # delivered s\<rparr>)"
    using ok(4) q by (auto simp: account_ok_def r externals_def)
  moreover have "queue_safe r" "unpredicted r"
    using queue_safe_tl(1) [OF safe] unpredicted_tl [OF safe] by (simp_all add: queue_ok_def)
  ultimately show ?thesis
    using ok due q by (simp add: system_ok_def r wait_ok_def punctual_def getSystemTime_def)
qed (use assms(2) in simp_all)

lemma system_ok_phase: "system_ok s \<Longrightarrow> system_ok (s\<lparr>phase := Running\<rparr>)"
  by (simp add: system_ok_def wait_ok_def account_ok_def punctual_def)

lemma system_ok_step: "qstep s s' \<Longrightarrow> system_ok s \<Longrightarrow> system_ok s'"
proof (induction rule: qstep.induct)
  case (tick s t)
  then show ?case by (fastforce simp: system_ok_def wait_ok_def account_ok_def punctual_def split: phase.splits)
next
  case (external s ev q n)
  then show ?case by (simp add: system_ok_external)
next
  case (predict s ev q n)
  then show ?case by (simp add: system_ok_predict)
next
  case (wait_new s)
  then have "queue (squeue s) = []"
    by (auto simp: get_iteration_def split: list.splits if_splits)
  with wait_new show ?case by (simp add: system_ok_def wait_ok_def account_ok_def punctual_def)
next
  case (wait_until s t)
  then have "queue (squeue s) \<noteq> [] \<and> t = getSystemTime (squeue s) (fst (hd (queue (squeue s))))"
    by (auto simp: get_iteration_def split: list.splits if_splits)
  with wait_until show ?case by (simp add: system_ok_def wait_ok_def account_ok_def punctual_def)
next
  case (return s ev q)
  then show ?case by (simp add: system_ok_return)
qed (simp_all add: system_ok_phase)

lemma reachable_ok: "reachable s \<Longrightarrow> system_ok s"
  by (induction rule: reachable.induct) (auto intro: started_ok system_ok_step)

section \<open>Sample states\<close>

text \<open>
  A start, a state in which a prediction for the start time is queued, one in which an external event for the
  same time came in behind it, and one in which the dispatcher waits, 5 microseconds early, for the prediction.
\<close>

definition idle_system :: system where
  "idle_system = \<lparr>squeue = (TimedEventQueue 0)\<lparr>initialized := True\<rparr>, clock = 0, phase = Predicting,
     accepted = [], delivered = []\<rparr>"

lemma idle_reachable: "reachable (idle_system\<lparr>clock := c\<rparr>)"
  by (rule reachable.start) (simp add: started_def idle_system_def TimedEventQueue_def)

definition due_system :: system where
  "due_system = idle_system\<lparr>squeue := (squeue idle_system)\<lparr>queue := [(LazyEvent 0, True)]\<rparr>, phase := Running\<rparr>"

lemma due_reachable_at: "reachable (due_system\<lparr>clock := c\<rparr>)"
proof (rule reachable.step [OF idle_reachable])
  have "add (squeue idle_system) (LazyEvent 0) True =
      Inr ((squeue idle_system)\<lparr>queue := [(LazyEvent 0, True)]\<rparr>, True)"
    using add_predicted [of "squeue idle_system" "LazyEvent 0"]
    by (simp add: idle_system_def TimedEventQueue_def queue_safe_def isQueuePredictionConsistent_def
        externals_def unpredicted_def hasPriorEvents_def)
  then have "qstep (idle_system\<lparr>clock := c\<rparr>) (idle_system\<lparr>clock := c,
      squeue := (squeue idle_system)\<lparr>queue := [(LazyEvent 0, True)]\<rparr>, phase := Running\<rparr>)"
    using qstep.predict [of "idle_system\<lparr>clock := c\<rparr>" "LazyEvent 0"]
    by (simp add: idle_system_def TimedEventQueue_def time_zero)
  then show "qstep (idle_system\<lparr>clock := c\<rparr>) (due_system\<lparr>clock := c\<rparr>)"
    by (simp add: due_system_def idle_system_def)
qed

lemma due_reachable: "reachable due_system"
  using due_reachable_at [of 0] by (simp add: due_system_def idle_system_def)

definition met_system :: system where
  "met_system = due_system\<lparr>squeue := with_external (logEvent (squeue due_system) (StaticEvent 0 []) realTimeGeneration)
     (StaticEvent 0 []), accepted := [StaticEvent 0 []]\<rparr>"

lemma met_reachable: "reachable met_system"
proof (rule reachable.step [OF due_reachable])
  let ?ev = "StaticEvent 0 []" and ?l = "logEvent (squeue due_system) (StaticEvent 0 []) realTimeGeneration"
  have "queue_ok (queue ?l)"
    by (simp add: logEvent_def due_system_def queue_ok_def queue_safe_def isQueuePredictionConsistent_def
        externals_def head_ok_def time_zero)
  then have "pushExternalEvent (squeue due_system) ?ev = Inr (with_external ?l ?ev, True)"
    using add_external by (simp add: pushExternalEvent_def time_zero)
  then have "qstep due_system (due_system\<lparr>squeue := with_external ?l ?ev, phase := woken True (phase due_system),
      accepted := ?ev # accepted due_system\<rparr>)"
    by (intro qstep.external) (simp_all add: due_system_def idle_system_def time_zero)
  then show "qstep due_system met_system"
    by (simp add: met_system_def due_system_def idle_system_def)
qed

lemma waiting_reachable: "reachable (due_system\<lparr>clock := -5, phase := WaitingUntil 0\<rparr>)"
proof (rule reachable.step [OF due_reachable_at])
  have "get_iteration (squeue due_system) (-5) = WaitUntil 0"
    by (simp add: get_iteration_def isFutureEvent_def getSystemTime_def due_system_def idle_system_def
        TimedEventQueue_def relative_zero)
  then show "qstep (due_system\<lparr>clock := -5\<rparr>) (due_system\<lparr>clock := -5, phase := WaitingUntil 0\<rparr>)"
    using qstep.wait_until [of "due_system\<lparr>clock := -5\<rparr>" 0] by (simp add: due_system_def)
qed

section \<open>Properties\<close>

text \<open>
  C13: no external event is lost or duplicated. In every reachable state of the threads the external
  events that were accepted are those still queued together with those returned by \<open>get\<close>; only the
  first entry of the queue may be a prediction; and no event was returned before its time.
\<close>

theorem no_event_lost:
  assumes "reachable s"
  shows "mset (accepted s) =
      mset (map fst (externals (queue (squeue s)))) + mset (map fst (externals (delivered s))) \<and>
    isQueuePredictionConsistent (queue (squeue s)) \<and>
    (\<forall>e\<in>set (delivered s). getSystemTime (squeue s) (fst e) \<le> clock s)"
  using reachable_ok [OF assms] by (simp add: system_ok_def account_ok_def queue_safe_def punctual_def)

theorem no_event_lost_witness:
  "accepted met_system = [StaticEvent 0 []] \<and> delivered met_system = [] \<and>
   map fst (externals (queue (squeue met_system))) = [StaticEvent 0 []]"
proof -
  have m: "accepted met_system = [StaticEvent 0 []]" "delivered met_system = []"
    by (simp_all add: met_system_def due_system_def idle_system_def)
  then have "mset (map fst (externals (queue (squeue met_system)))) = {#StaticEvent 0 []#}"
    using no_event_lost [OF met_reachable] by (simp add: externals_def)
  then show ?thesis using m by (metis mset_single_iff)
qed

text \<open>
  C16: the dispatcher never sleeps past an event. When it waits without a limit the queue is empty,
  and when it waits with a limit, that is the system time of the first entry; when it goes back to
  predicting, no prediction is left in the queue.
\<close>

theorem no_lost_wakeup:
  assumes "reachable s"
  shows "case phase s of
     Predicting \<Rightarrow> unpredicted (queue (squeue s))
   | Running \<Rightarrow> True
   | WaitingNew \<Rightarrow> queue (squeue s) = []
   | WaitingUntil t \<Rightarrow> queue (squeue s) \<noteq> [] \<and> t = getSystemTime (squeue s) (fst (hd (queue (squeue s))))"
  using reachable_ok [OF assms] by (simp add: system_ok_def wait_ok_def)

theorem no_lost_wakeup_witness:
  "queue (squeue due_system) \<noteq> [] \<and> getSystemTime (squeue due_system) (fst (hd (queue (squeue due_system)))) = 0"
  using no_lost_wakeup [OF waiting_reachable] by simp

text \<open>
  C17: \<open>get\<close> returns. In a reachable state in which the dispatcher is inside \<open>get\<close> and the system time
  of the first entry has come, at most one step of the waiting thread (its time limit) and one pass
  of the loop return that entry.
\<close>

theorem get_delivers:
  assumes "reachable s" and "phase s \<noteq> Predicting" and "queue (squeue s) = e # q"
    and "getSystemTime (squeue s) (fst e) \<le> clock s"
  shows "\<exists>s1 s2. (s1 = s \<or> qstep s s1) \<and> squeue s1 = squeue s \<and> qstep s1 s2 \<and>
    delivered s2 = e # delivered s \<and> phase s2 = Predicting \<and> queue (squeue s2) = q"
proof -
  have it: "get_iteration (squeue s) (clock s) = Return (fst e) ((squeue s)\<lparr>queue := q\<rparr>)"
    using assms(3,4) by (simp add: get_iteration_def isFutureEvent_def)
  have w: "wait_ok s" using reachable_ok [OF assms(1)] by (simp add: system_ok_def)
  have "\<exists>s1. (s1 = s \<or> qstep s s1) \<and> s1 = s\<lparr>phase := Running\<rparr>"
  proof (cases "phase s")
    case Running
    then show ?thesis by (intro exI [of _ s]) simp
  next
    case (WaitingUntil t)
    then have "t \<le> clock s" using w assms(3,4) by (simp add: wait_ok_def)
    with WaitingUntil show ?thesis using qstep.timeout by blast
  qed (use assms w in \<open>simp_all add: wait_ok_def\<close>)
  then obtain s1 where s1: "s1 = s \<or> qstep s s1" "s1 = s\<lparr>phase := Running\<rparr>" by blast
  have "qstep s1 (s1\<lparr>squeue := (squeue s)\<lparr>queue := q\<rparr>, phase := Predicting,
      delivered := hd (queue (squeue s1)) # delivered s1\<rparr>)"
    using it s1(2) by (intro qstep.return) simp_all
  then show ?thesis using s1 assms(3) by fastforce
qed

theorem get_delivers_witness:
  "\<exists>s1 s2. (s1 = due_system \<or> qstep due_system s1) \<and> qstep s1 s2 \<and> delivered s2 = [(LazyEvent 0, True)]"
proof -
  have "phase due_system \<noteq> Predicting" "queue (squeue due_system) = [(LazyEvent 0, True)]"
      "getSystemTime (squeue due_system) (LazyEvent 0) \<le> clock due_system" "delivered due_system = []"
    by (simp_all add: due_system_def idle_system_def getSystemTime_def relative_zero TimedEventQueue_def)
  then show ?thesis using get_delivers [OF due_reachable] by fastforce
qed

end
