(* ===== verification/Application_Context.thy ===== *)
theory Application_Context
  imports Channel_Mapping Number_Print
begin

text \<open>
  The configuration of the program: \<open>base/ApplicationContext\<close>. It owns the property tree, the source
  of port identifiers and the two channel mappings, which are built at their first use.

  Log messages are not part of the model. Where a C++ operation fills a member and returns a pointer
  to it, the model returns the value and the updated context.
\<close>

section \<open>State\<close>

record 'p application_context =
  config :: 'p
  portIDSource :: drawer
  outputChannelMap :: "'p channel_mapping option"
  inputChannelMap :: "'p channel_mapping option"

definition PROP_PROGRAM_NAME :: string where "PROP_PROGRAM_NAME = ''app.name''"
definition PROP_START_TIME :: string where "PROP_START_TIME = ''app.startTime''"
definition PROP_LOOK_AHEAD_TIME :: string where "PROP_LOOK_AHEAD_TIME = ''app.lookAheadTime''"
definition PROP_LOOK_AHEAD_STEP_SIZE :: string where "PROP_LOOK_AHEAD_STEP_SIZE = ''app.lookAheadStepSize''"
definition PROP_INTEGRATOR_STEP_SIZE :: string where "PROP_INTEGRATOR_STEP_SIZE = ''app.integratorStepSize''"
definition PROP_OUT :: string where "PROP_OUT = ''out''"
definition PROP_IN :: string where "PROP_IN = ''in''"

definition put_config :: "'p ptree_ops \<Rightarrow> 'p application_context \<Rightarrow> string \<Rightarrow> string \<Rightarrow> 'p application_context" where
  "put_config P c key value = c\<lparr>config := put_value P (config c) key value\<rparr>"

definition ApplicationContext :: "'p ptree_ops \<Rightarrow> 'p application_context" where
  "ApplicationContext P =
     put_config P \<lparr>config = empty_tree P, portIDSource = new_drawer, outputChannelMap = None,
       inputChannelMap = None\<rparr> PROP_PROGRAM_NAME ''not set''"

section \<open>Reading properties\<close>

text \<open>A type of the configuration values: its name and the conversion of a datum.\<close>

type_synonym 'v translator = "string \<times> (string \<Rightarrow> 'v option)"

definition as_string :: "string translator" where "as_string = (''string'', Some)"
definition as_double :: "'p ptree_ops \<Rightarrow> double translator" where "as_double P = (''double'', parse_double P)"
definition as_int :: "'p ptree_ops \<Rightarrow> int32 translator" where "as_int P = (''int'', parse_int P)"
definition as_bool :: "'p ptree_ops \<Rightarrow> bool translator" where "as_bool P = (''bool'', parse_bool P)"

definition hasProperty :: "'p ptree_ops \<Rightarrow> 'p application_context \<Rightarrow> string \<Rightarrow> bool" where
  "hasProperty P c key \<longleftrightarrow> get_child_optional P (config c) key \<noteq> None"

definition getProperty :: "'p ptree_ops \<Rightarrow> 'v translator \<Rightarrow> 'p application_context \<Rightarrow> string \<Rightarrow> 'v res" where
  "getProperty P ty c path =
     (case get_optional P (snd ty) (config c) path of
        Some v \<Rightarrow> Inr v
      | None \<Rightarrow> Inl (InvalidArgument (''The property '' @ quoted path @ '' was not found: '' @
          access_error P (config c) path (fst ty))))"

definition getPropertyOr ::
    "'p ptree_ops \<Rightarrow> 'v translator \<Rightarrow> 'p application_context \<Rightarrow> string \<Rightarrow> 'v \<Rightarrow> 'v res" where
  "getPropertyOr P ty c path d = (if \<not> hasProperty P c path then Inr d else getProperty P ty c path)"

text \<open>The exception that reports a bad value quotes the value as a string.\<close>

definition bad_property :: "'p ptree_ops \<Rightarrow> 'p application_context \<Rightarrow> string \<Rightarrow> string \<Rightarrow> 'v res" where
  "bad_property P c msg path =
     rbind (getProperty P as_string c path) (\<lambda>v. Inl (SystemConfigurationException msg (Some (path, v))))"

definition getPositiveDoublePropertyOr ::
    "'p ptree_ops \<Rightarrow> 'p application_context \<Rightarrow> string \<Rightarrow> double \<Rightarrow> double res" where
  "getPositiveDoublePropertyOr P c path d =
     rbind (assert_that (fle 0 d)) (\<lambda>_.
     rbind (case getPropertyOr P (as_double P) c path d of
              Inr r \<Rightarrow> Inr r
            | Inl e \<Rightarrow> if is_invalid_argument e
                then bad_property P c ''The Property is not a floating point number'' path
                else Inl e) (\<lambda>r.
       if \<not> fle 0 r then bad_property P c ''Non-negative value expected'' path else Inr r))"

definition missing :: "string \<Rightarrow> string \<Rightarrow> exn" where
  "missing msg path = SystemConfigurationException msg (Some (path, []))"

definition getPositiveDoubleProperty :: "'p ptree_ops \<Rightarrow> 'p application_context \<Rightarrow> string \<Rightarrow> double res" where
  "getPositiveDoubleProperty P c path =
     (if \<not> hasProperty P c path then Inl (missing ''Missing property'' path)
      else getPositiveDoublePropertyOr P c path 0)"

definition getRealPositiveDoublePropertyOr ::
    "'p ptree_ops \<Rightarrow> 'p application_context \<Rightarrow> string \<Rightarrow> double \<Rightarrow> double res" where
  "getRealPositiveDoublePropertyOr P c path d =
     rbind (assert_that (flt 0 d)) (\<lambda>_.
     rbind (getPositiveDoublePropertyOr P c path d) (\<lambda>r.
       if \<not> flt 0 r then bad_property P c ''Real positive value expected'' path else Inr r))"

definition double_one :: double where "double_one = 0x3FF0000000000000"

definition getRealPositiveDoubleProperty :: "'p ptree_ops \<Rightarrow> 'p application_context \<Rightarrow> string \<Rightarrow> double res" where
  "getRealPositiveDoubleProperty P c path =
     (if \<not> hasProperty P c path then Inl (missing ''Missing property'' path)
      else getRealPositiveDoublePropertyOr P c path double_one)"

definition getPropertyTree :: "'p ptree_ops \<Rightarrow> 'p application_context \<Rightarrow> string \<Rightarrow> 'p res" where
  "getPropertyTree P c path =
     (case get_child_optional P (config c) path of
        None \<Rightarrow> Inl (missing ''Missing configuration tree'' path)
      | Some t \<Rightarrow> Inr t)"

section \<open>Adding properties\<close>

definition option_error :: "nat \<Rightarrow> string \<Rightarrow> string \<Rightarrow> exn" where
  "option_error i opt msg =
     InvalidArgument (''The program option nr. '' @ show_nat i @ '' ('' @ quoted opt @ '') '' @ msg)"

definition addCommandlineOption ::
    "'p ptree_ops \<Rightarrow> 'p application_context \<Rightarrow> string \<Rightarrow> nat \<Rightarrow> 'p application_context res" where
  "addCommandlineOption P c opt i =
     (case find_index (\<lambda>x. x = CHR ''='') opt of
        None \<Rightarrow> Inl (option_error i opt ''doesn't contain an = sign'')
      | Some pos \<Rightarrow>
          if pos = 0 then Inl (option_error i opt ''doesn't contain a key'')
          else let key = take pos opt in
            if hasProperty P c key then
              rbind (getProperty P as_string c key) (\<lambda>v.
                Inl (option_error i opt (''has already been set with value '' @ quoted v)))
            else Inr (put_config P c key (drop (pos + 1) opt)))"

fun addOptions ::
    "'p ptree_ops \<Rightarrow> 'p application_context \<Rightarrow> string list \<Rightarrow> nat \<Rightarrow> 'p application_context res" where
  "addOptions P c [] i = Inr c"
| "addOptions P c (opt # opts) i =
     rbind (addCommandlineOption P c opt i) (\<lambda>c'. addOptions P c' opts (Suc i))"

definition addCommandlineProperties_args ::
    "'p ptree_ops \<Rightarrow> 'p application_context \<Rightarrow> string list \<Rightarrow> 'p application_context res" where
  "addCommandlineProperties_args P c args = addOptions P c args 0"

definition ApplicationContext_list :: "'p ptree_ops \<Rightarrow> string list \<Rightarrow> 'p application_context res" where
  "ApplicationContext_list P initList = addOptions P (ApplicationContext P) initList 0"

text \<open>
  The argument vector is a list of C strings, \<open>None\<close> standing for a null pointer; \<open>argc\<close> is its
  length. The format string of the error for a null argument lacks the final character of its
  directive, so the text the program prints there may differ from the one below.
\<close>

fun addArguments ::
    "'p ptree_ops \<Rightarrow> 'p application_context \<Rightarrow> string option list \<Rightarrow> nat \<Rightarrow> 'p application_context res" where
  "addArguments P c [] i = Inr c"
| "addArguments P c (None # args) i =
     Inl (InvalidArgument (''Program option nr. '' @ show_nat i @ '' contains an invalid reference''))"
| "addArguments P c (Some opt # args) i =
     rbind (addCommandlineOption P c opt i) (\<lambda>c'. addArguments P c' args (Suc i))"

definition addCommandlineProperties ::
    "'p ptree_ops \<Rightarrow> 'p application_context \<Rightarrow> string option list \<Rightarrow> 'p application_context res" where
  "addCommandlineProperties P c argv =
     (case argv of
        Some name # args \<Rightarrow> addArguments P (put_config P c PROP_PROGRAM_NAME name) args 1
      | _ \<Rightarrow> Inl (InvalidArgument ''The program name is not set''))"

text \<open>The model description is read by FMI++; the start time of its default experiment is an argument.\<close>

definition addSensitiveDefaultProperties ::
    "'p ptree_ops \<Rightarrow> 'p application_context \<Rightarrow> double option \<Rightarrow> 'p application_context" where
  "addSensitiveDefaultProperties P c default_start =
     (case default_start of
        Some startTime \<Rightarrow>
          if \<not> hasProperty P c PROP_START_TIME
          then put_config P c PROP_START_TIME (show_fixed 6 startTime) else c
      | None \<Rightarrow> c)"

section \<open>Channel mappings\<close>

definition newChannelMapping ::
    "'p ptree_ops \<Rightarrow> 'p application_context \<Rightarrow> string \<Rightarrow> ('p channel_mapping \<times> drawer) res option" where
  "newChannelMapping P c propertyPrefix =
     (if hasProperty P c propertyPrefix then
        (case getPropertyTree P c propertyPrefix of
           Inl e \<Rightarrow> Some (Inl e)
         | Inr t \<Rightarrow> ChannelMapping P (portIDSource c) t)
      else Some (Inr (empty_mapping, portIDSource c)))"

definition getOutputChannelMapping ::
    "'p ptree_ops \<Rightarrow> 'p application_context \<Rightarrow> ('p channel_mapping \<times> 'p application_context) res option" where
  "getOutputChannelMapping P c =
     (case outputChannelMap c of
        Some m \<Rightarrow> Some (Inr (m, c))
      | None \<Rightarrow> map_option (\<lambda>r. rbind r (\<lambda>(m, d).
          Inr (m, c\<lparr>outputChannelMap := Some m, portIDSource := d\<rparr>))) (newChannelMapping P c PROP_OUT))"

definition getInputChannelMapping ::
    "'p ptree_ops \<Rightarrow> 'p application_context \<Rightarrow> ('p channel_mapping \<times> 'p application_context) res option" where
  "getInputChannelMapping P c =
     (case inputChannelMap c of
        Some m \<Rightarrow> Some (Inr (m, c))
      | None \<Rightarrow> map_option (\<lambda>r. rbind r (\<lambda>(m, d).
          Inr (m, c\<lparr>inputChannelMap := Some m, portIDSource := d\<rparr>))) (newChannelMapping P c PROP_IN))"

definition mapping_text :: "'p channel_mapping option \<Rightarrow> string res" where
  "mapping_text mo = (case mo of None \<Rightarrow> Inr ''<not-constructed>'' | Some m \<Rightarrow> mapping_toString m)"

definition context_toString :: "'p ptree_ops \<Rightarrow> 'p application_context \<Rightarrow> string res" where
  "context_toString P c =
     rbind (mapping_text (inputChannelMap c)) (\<lambda>inp.
     rbind (mapping_text (outputChannelMap c)) (\<lambda>out.
       Inr (''ApplicationContext:'' @ '' Configuration: '' @ write_info P (config c) @
            '' InputChannelMapping: '' @ inp @ '' OutputChannelMapping: '' @ out)))"

section \<open>Command line options\<close>

definition valid_key :: "string \<Rightarrow> bool" where
  "valid_key k \<longleftrightarrow> k \<noteq> [] \<and> CHR ''='' \<notin> set k"

definition option_text :: "string \<times> string \<Rightarrow> string" where
  "option_text kv = fst kv @ CHR ''='' # snd kv"

lemma find_index_append:
  "\<forall>x\<in>set xs. \<not> p x \<Longrightarrow> p y \<Longrightarrow> find_index p (xs @ y # ys) = Some (length xs)"
  by (induction xs) auto

lemma find_equals: "CHR ''='' \<notin> set k \<Longrightarrow> find_index (\<lambda>x. x = CHR ''='') (k @ CHR ''='' # v) = Some (length k)"
  by (rule find_index_append) auto

lemma addCommandlineOption_new:
  "valid_key k \<Longrightarrow> \<not> hasProperty P c k \<Longrightarrow>
    addCommandlineOption P c (option_text (k, v)) i = Inr (put_config P c k v)"
  by (simp add: addCommandlineOption_def option_text_def valid_key_def find_equals)

lemma addCommandlineOption_duplicate:
  assumes "valid_key k" and "get_child_optional P (config c) k = Some t"
  shows "addCommandlineOption P c (option_text (k, v)) i =
    Inl (option_error i (option_text (k, v)) (''has already been set with value '' @ quoted (data_of P t)))"
  using assms
  by (simp add: addCommandlineOption_def option_text_def valid_key_def find_equals hasProperty_def
      getProperty_def get_optional_def as_string_def)

lemma addOptions_spec:
  assumes "property_tree P" and "list_all (\<lambda>kv. valid_key (fst kv)) kvs"
    and "sorted_wrt (\<lambda>a b. unrelated (fst a) (fst b)) kvs"
    and "list_all (\<lambda>kv. \<not> hasProperty P c (fst kv)) kvs"
  shows "\<exists>c'. addOptions P c (map option_text kvs) i = Inr c' \<and>
    (\<forall>(k, v)\<in>set kvs. getProperty P as_string c' k = Inr v) \<and>
    (\<forall>k'. list_all (\<lambda>kv. unrelated (fst kv) k') kvs \<longrightarrow>
      get_child_optional P (config c') k' = get_child_optional P (config c) k')"
  using assms(2-4)
proof (induction kvs arbitrary: c i)
  case Nil
  then show ?case by auto
next
  case (Cons kv kvs)
  obtain k v where kv: "kv = (k, v)" by (cases kv)
  let ?c = "put_config P c k v"
  have "\<not> hasProperty P ?c (fst kv')" if "kv' \<in> set kvs" for kv'
    using that Cons.prems kv property_tree.put_get_unrelated [OF assms(1), of k "fst kv'" "config c" v]
    by (auto simp: hasProperty_def put_config_def list_all_iff)
  with Cons.prems obtain c' where c': "addOptions P ?c (map option_text kvs) (Suc i) = Inr c'"
      "\<forall>(k, v)\<in>set kvs. getProperty P as_string c' k = Inr v"
      "\<forall>k'. list_all (\<lambda>kv. unrelated (fst kv) k') kvs \<longrightarrow>
        get_child_optional P (config c') k' = get_child_optional P (config ?c) k'"
    using Cons.IH [of ?c "Suc i"] by (auto simp: list_all_iff)
  have "addCommandlineOption P c (option_text kv) i = Inr ?c"
    using Cons.prems kv by (simp add: addCommandlineOption_new)
  moreover have "list_all (\<lambda>kv. unrelated (fst kv) k) kvs"
    using Cons.prems(2) kv by (auto simp: list_all_iff unrelated_def)
  then have "get_child_optional P (config c') k = get_child_optional P (config ?c) k" using c'(3) by blast
  then have "getProperty P as_string c' k = Inr v"
    using property_tree.get_optional_put [OF assms(1), of Some "config c" k v]
    by (simp add: getProperty_def as_string_def get_optional_def put_config_def)
  ultimately show ?case
    using c' kv property_tree.put_get_unrelated [OF assms(1), of k _ "config c" v]
    by (auto simp: put_config_def)
qed

lemma addOptions_addArguments: "addArguments P c (map Some opts) i = addOptions P c opts i"
  by (induction opts arbitrary: c i) auto

section \<open>Shared port identifiers\<close>

text \<open>
  The invariant of the context: the mappings that were built satisfy theirs with respect to the
  drawer they share, and no identifier belongs to both.
\<close>

definition context_ok :: "'p application_context \<Rightarrow> bool" where
  "context_ok c \<longleftrightarrow> drawer_ok (portIDSource c) \<and>
     (\<forall>m. outputChannelMap c = Some m \<longrightarrow> mapping_ok (portIDSource c) m) \<and>
     (\<forall>m. inputChannelMap c = Some m \<longrightarrow> mapping_ok (portIDSource c) m) \<and>
     (\<forall>m m'. outputChannelMap c = Some m \<and> inputChannelMap c = Some m' \<longrightarrow>
        set (getAllVariableIDs m) \<inter> set (getAllVariableIDs m') = {})"

definition tree_ok :: "'p ptree_ops \<Rightarrow> 'p application_context \<Rightarrow> string \<Rightarrow> nat \<Rightarrow> bool" where
  "tree_ok P c path n \<longleftrightarrow> (\<forall>t. get_child_optional P (config c) path = Some t \<longrightarrow>
     (\<exists>cs vss. numbered P t cs \<and> list_all2 (numbered P) cs vss \<and>
        (\<forall>v\<in>set (concat vss). var_valid P v) \<and> length (concat vss) \<le> n))"

lemma newChannelMapping_spec:
  assumes "drawer_ok (portIDSource c)" and "tree_ok P c path k" and "room (2 ^ 31) (portIDSource c) (k + n)"
  shows "\<exists>m d. newChannelMapping P c path = Some (Inr (m, d)) \<and> drawer_ok d \<and> mapping_ok d m \<and>
    drawer_le (portIDSource c) d \<and> room (2 ^ 31) d n \<and>
    (\<forall>i\<in>set (getAllVariableIDs m). \<not> drawn (portIDSource c) i)"
proof (cases "get_child_optional P (config c) path")
  case None
  then show ?thesis using assms(1) room_mono [OF assms(3), of n]
    by (simp add: newChannelMapping_def hasProperty_def)
next
  case (Some t)
  with assms(2) obtain cs vss where t: "numbered P t cs" "list_all2 (numbered P) cs vss"
      "\<forall>v\<in>set (concat vss). var_valid P v" "length (concat vss) \<le> k"
    unfolding tree_ok_def by blast
  have "room (2 ^ 31) (portIDSource c) (length (concat vss) + n)"
    by (rule room_mono [OF assms(3)]) (use t(4) in simp)
  then obtain m d where m: "ChannelMapping P (portIDSource c) t = Some (Inr (m, d))"
      "grows (portIDSource c, empty_mapping) (d, m)" "room (2 ^ 31) d n"
    using ChannelMapping_builds [OF t(1-3) assms(1)] by blast
  have ok: "mapping_ok d m" "drawer_ok d" "drawer_le (portIDSource c) d" using m(2) by (simp_all add: grows_def)
  have "\<forall>i\<in>set (getAllVariableIDs m). \<not> drawn (portIDSource c) i"
    using grows_empty(1) [OF m(2)] port_of_iff [OF ok(1)] by blast
  then show ?thesis using Some m ok
    by (simp add: newChannelMapping_def hasProperty_def getPropertyTree_def)
qed

lemma mapping_ok_ids: "mapping_ok d m \<Longrightarrow> i \<in> set (getAllVariableIDs m) \<Longrightarrow> drawn d i"
  using mapping_ok_drawn port_of_iff by blast

lemma getOutputChannelMapping_spec:
  assumes "context_ok c" and "tree_ok P c PROP_OUT k" and "room (2 ^ 31) (portIDSource c) (k + n)"
  shows "\<exists>m c'. getOutputChannelMapping P c = Some (Inr (m, c')) \<and> context_ok c' \<and>
    outputChannelMap c' = Some m \<and> inputChannelMap c' = inputChannelMap c \<and> config c' = config c \<and>
    room (2 ^ 31) (portIDSource c') n"
proof (cases "outputChannelMap c")
  case (Some m)
  then show ?thesis using assms(1) room_mono [OF assms(3), of n] by (simp add: getOutputChannelMapping_def)
next
  case None
  obtain m d where m: "newChannelMapping P c PROP_OUT = Some (Inr (m, d))" "drawer_ok d" "mapping_ok d m"
      "drawer_le (portIDSource c) d" "room (2 ^ 31) d n"
      "\<forall>i\<in>set (getAllVariableIDs m). \<not> drawn (portIDSource c) i"
    using newChannelMapping_spec [OF _ assms(2,3)] assms(1) unfolding context_ok_def by blast
  have "set (getAllVariableIDs m) \<inter> set (getAllVariableIDs m') = {}" if "inputChannelMap c = Some m'" for m'
    using that m(6) mapping_ok_ids assms(1) unfolding context_ok_def by blast
  then have "context_ok (c\<lparr>outputChannelMap := Some m, portIDSource := d\<rparr>)"
    using assms(1) m mapping_ok_mono by (auto simp: context_ok_def)
  then show ?thesis using None m by (simp add: getOutputChannelMapping_def)
qed

lemma getInputChannelMapping_spec:
  assumes "context_ok c" and "tree_ok P c PROP_IN k" and "room (2 ^ 31) (portIDSource c) (k + n)"
  shows "\<exists>m c'. getInputChannelMapping P c = Some (Inr (m, c')) \<and> context_ok c' \<and>
    inputChannelMap c' = Some m \<and> outputChannelMap c' = outputChannelMap c \<and> config c' = config c \<and>
    room (2 ^ 31) (portIDSource c') n"
proof (cases "inputChannelMap c")
  case (Some m)
  then show ?thesis using assms(1) room_mono [OF assms(3), of n] by (simp add: getInputChannelMapping_def)
next
  case None
  obtain m d where m: "newChannelMapping P c PROP_IN = Some (Inr (m, d))" "drawer_ok d" "mapping_ok d m"
      "drawer_le (portIDSource c) d" "room (2 ^ 31) d n"
      "\<forall>i\<in>set (getAllVariableIDs m). \<not> drawn (portIDSource c) i"
    using newChannelMapping_spec [OF _ assms(2,3)] assms(1) unfolding context_ok_def by blast
  have "set (getAllVariableIDs m') \<inter> set (getAllVariableIDs m) = {}" if "outputChannelMap c = Some m'" for m'
    using that m(6) mapping_ok_ids assms(1) unfolding context_ok_def by blast
  then have "context_ok (c\<lparr>inputChannelMap := Some m, portIDSource := d\<rparr>)"
    using assms(1) m mapping_ok_mono by (auto simp: context_ok_def)
  then show ?thesis using None m by (simp add: getInputChannelMapping_def)
qed

section \<open>Properties\<close>

text \<open>
  C29: identifiers are unique across inputs and outputs. In a consistent context with a valid channel
  configuration both mappings are built, share no identifier, keep the context consistent, and
  later queries return the same mappings without building them again.
\<close>

theorem channel_mappings_disjoint:
  assumes "context_ok c" and "tree_ok P c PROP_OUT k" and "tree_ok P c PROP_IN l"
    and "room (2 ^ 31) (portIDSource c) (k + l)"
  shows "\<exists>out inp c1 c2. getOutputChannelMapping P c = Some (Inr (out, c1)) \<and>
    getInputChannelMapping P c1 = Some (Inr (inp, c2)) \<and>
    set (getAllVariableIDs out) \<inter> set (getAllVariableIDs inp) = {} \<and> context_ok c2 \<and>
    getOutputChannelMapping P c2 = Some (Inr (out, c2)) \<and> getInputChannelMapping P c2 = Some (Inr (inp, c2))"
proof -
  obtain out c1 where 1: "getOutputChannelMapping P c = Some (Inr (out, c1))" "context_ok c1"
      "outputChannelMap c1 = Some out" "config c1 = config c" "room (2 ^ 31) (portIDSource c1) l"
    using getOutputChannelMapping_spec [OF assms(1,2,4)] by blast
  have "tree_ok P c1 PROP_IN l" using assms(3) 1(4) by (simp add: tree_ok_def)
  then obtain inp c2 where 2: "getInputChannelMapping P c1 = Some (Inr (inp, c2))" "context_ok c2"
      "inputChannelMap c2 = Some inp" "outputChannelMap c2 = Some out"
    using getInputChannelMapping_spec [of c1 P l 0] 1 by auto
  then show ?thesis using 1
    by (auto simp: context_ok_def getOutputChannelMapping_def getInputChannelMapping_def)
qed

definition both_channels :: "ptree application_context" where
  "both_channels = \<lparr>config = PNode [] [(''out'', shared_channels), (''in'', shared_channels)],
     portIDSource = new_drawer, outputChannelMap = None, inputChannelMap = None\<rparr>"

theorem channel_mappings_disjoint_witness:
  "\<exists>out inp c1 c2. getOutputChannelMapping (tree_ops (\<lambda>_. 0)) both_channels = Some (Inr (out, c1)) \<and>
     getInputChannelMapping (tree_ops (\<lambda>_. 0)) c1 = Some (Inr (inp, c2)) \<and>
     set (getAllVariableIDs out) \<inter> set (getAllVariableIDs inp) = {}"
proof -
  let ?P = "tree_ops (\<lambda>_. 0)"
  have "get_child_optional ?P (config both_channels) p = Some shared_channels" if "p = PROP_OUT \<or> p = PROP_IN" for p
    using that by (auto simp: both_channels_def tree_ops_def path_of_def PROP_OUT_def PROP_IN_def)
  then have "tree_ok ?P both_channels p 3" if "p = PROP_OUT \<or> p = PROP_IN" for p
    unfolding tree_ok_def using shared_channels_valid that
    by (auto intro!: exI [of _ shared_list] exI [of _ shared_vars])
  then have "tree_ok ?P both_channels PROP_OUT 3" "tree_ok ?P both_channels PROP_IN 3" by simp_all
  moreover have "context_ok both_channels" "room (2 ^ 31) (portIDSource both_channels) (3 + 3)"
    by (simp_all add: context_ok_def both_channels_def room_new)
  ultimately show ?thesis using channel_mappings_disjoint [of both_channels ?P 3 3] by blast
qed



lemma bad_property_present:
  "get_child_optional P (config c) path = Some t \<Longrightarrow>
    bad_property P c msg path = Inl (SystemConfigurationException msg (Some (path, data_of P t)))"
  by (simp add: bad_property_def getProperty_def get_optional_def as_string_def)

lemma flt_fle: "flt a b \<Longrightarrow> fle a b"
  by (auto simp: flt_def fle_def)

text \<open>
  Validated numbers. \<open>getRealPositiveDoubleProperty\<close> with a positive default never fails an
  assertion; what it returns is a number greater than zero (never NaN), namely the configured value
  or, when the property is missing, the default; and every exception names the property.
\<close>

lemma getRealPositiveDoublePropertyOr_spec:
  assumes "flt 0 d"
  shows "case getRealPositiveDoublePropertyOr P c path d of
      Inr r \<Rightarrow> flt 0 r \<and> \<not> isnan r \<and>
        (case get_child_optional P (config c) path of
           None \<Rightarrow> r = d | Some t \<Rightarrow> parse_double P (data_of P t) = Some r)
    | Inl e \<Rightarrow> hasConfig e \<and> getKey e = path \<and>
        (\<exists>t. get_child_optional P (config c) path = Some t \<and> getConfigValue e = data_of P t)"
proof (cases "get_child_optional P (config c) path")
  case None
  then show ?thesis using assms flt_fle [OF assms]
    by (simp add: getRealPositiveDoublePropertyOr_def getPositiveDoublePropertyOr_def getPropertyOr_def
        hasProperty_def) (simp add: flt_def)
next
  case (Some t)
  show ?thesis
  proof (cases "parse_double P (data_of P t)")
    case None
    then have "getPropertyOr P (as_double P) c path d = Inl (InvalidArgument
        (''The property '' @ quoted path @ '' was not found: '' @ access_error P (config c) path ''double''))"
      using Some by (simp add: getPropertyOr_def getProperty_def get_optional_def hasProperty_def as_double_def)
    then show ?thesis using Some assms flt_fle [OF assms]
      by (simp add: getRealPositiveDoublePropertyOr_def getPositiveDoublePropertyOr_def bad_property_present)
  next
    case r: (Some r)
    then have "getPropertyOr P (as_double P) c path d = Inr r"
      using Some by (simp add: getPropertyOr_def getProperty_def get_optional_def hasProperty_def as_double_def)
    then show ?thesis using Some r assms flt_fle [OF assms]
      by (simp add: getRealPositiveDoublePropertyOr_def getPositiveDoublePropertyOr_def bad_property_present)
        (simp add: flt_def)
  qed
qed

end
