(* ===== verification/Event_Dispatcher.thy ===== *)
theory Event_Dispatcher
  imports Queue_Threads Application_Context
begin

text \<open>
  The main loop: \<open>timing/EventDispatcher\<close> and the interface \<open>model/AbstractEventPredictor\<close> it runs on.
  One pass of the loop asks the predictor for the next event, queues it as a prediction, retrieves the
  first event that is due and hands it to the listeners, the predictor being the first of them. While
  the loop runs, the threads of the subscribers push external events: \<open>dstep\<close> interleaves both, and the
  projection \<open>view\<close> maps its steps to those of the queue's threads.

  The predictor and the listeners are called through a record of operations. What the loop relies on
  is the locale \<open>predictor_contract\<close>; the two predictors of the program satisfy it (theories
  Event\_Predictor and OneStep\_Predictor).
\<close>

section \<open>The operations the loop calls\<close>

text \<open>
  \<open>predict_next\<close> is optional, \<open>None\<close> standing for a prediction that does not return. \<open>read_variables\<close> is
  \<open>Event::getVariables\<close>: for a lazy event it settles the state of the predictor. A listener reads the
  variables of the event and may fail; \<open>listener_async\<close> is what other threads may do to its state in
  between, like the exception of a subscriber that the network manager keeps for the dispatcher.
\<close>

record ('s, 'l) dispatch_ops =
  predict_next :: "'s \<Rightarrow> (event \<times> 's) res option"
  read_variables :: "'s \<Rightarrow> event \<Rightarrow> (variable list \<times> 's) res"
  predictor_triggered :: "'s \<Rightarrow> event \<Rightarrow> 's res"
  listener_triggered :: "'l \<Rightarrow> double \<Rightarrow> variable list \<Rightarrow> 'l res"
  listener_async :: "'l \<Rightarrow> 'l \<Rightarrow> bool"

section \<open>State and operations\<close>

record ('s, 'l) dispatcher =
  predictor :: 's
  theEnd :: double
  dqueue :: queue_state
  listeners :: "'l list"
  timingLog :: "log_entry list"

definition PROP_STOP_TIME :: string where
  "PROP_STOP_TIME = ''app.stopTime''"

text \<open>The predictor is the first element of the list \<open>listener_\<close>; \<open>listeners\<close> holds the others.\<close>

definition EventDispatcher ::
    "'p ptree_ops \<Rightarrow> 'p application_context \<Rightarrow> int \<Rightarrow> 's \<Rightarrow> ('s, 'l) dispatcher res" where
  "EventDispatcher P c now s =
     rbind (getPropertyOr P (as_double P) c PROP_STOP_TIME DBL_MAX) (\<lambda>stop.
       Inr \<lparr>predictor = s, theEnd = stop, dqueue = TimedEventQueue now, listeners = [], timingLog = []\<rparr>)"

definition addEventListener :: "('s, 'l) dispatcher \<Rightarrow> 'l \<Rightarrow> ('s, 'l) dispatcher" where
  "addEventListener d l = d\<lparr>listeners := listeners d @ [l]\<rparr>"

definition dispatcher_initStartTimeNow ::
    "'p ptree_ops \<Rightarrow> 'p application_context \<Rightarrow> int \<Rightarrow> ('s, 'l) dispatcher \<Rightarrow> ('s, 'l) dispatcher res" where
  "dispatcher_initStartTimeNow P c now d =
     rbind (getProperty P (as_double P) c PROP_START_TIME) (\<lambda>start.
     rbind (initStartTimeNow (dqueue d) now start) (\<lambda>q. Inr (d\<lparr>dqueue := q\<rparr>)))"

definition log_timing :: "('s, 'l) dispatcher \<Rightarrow> event \<Rightarrow> processing_stage \<Rightarrow> ('s, 'l) dispatcher" where
  "log_timing d ev stage = d\<lparr>timingLog := timingLog d @ [(ev, stage)]\<rparr>"

text \<open>The first half of a pass of the loop in \<open>run\<close>: up to the call of \<open>get\<close>.\<close>

definition predict_and_add ::
    "('s, 'l) dispatch_ops \<Rightarrow> ('s, 'l) dispatcher \<Rightarrow> (event \<times> ('s, 'l) dispatcher) res option" where
  "predict_and_add D d =
     map_option (\<lambda>r. rbind r (\<lambda>(ev, s).
       rbind (add (dqueue d) ev True) (\<lambda>(q, n).
         Inr (ev, (log_timing d ev prediction)\<lparr>predictor := s, dqueue := q\<rparr>))))
       (predict_next D (predictor d))"

fun notify_listeners ::
    "('s, 'l) dispatch_ops \<Rightarrow> event \<Rightarrow> 'l list \<Rightarrow> 's \<Rightarrow> ('l list \<times> 's) res" where
  "notify_listeners D ev [] s = Inr ([], s)"
| "notify_listeners D ev (l # ls) s =
     rbind (read_variables D s ev) (\<lambda>(xs, s1).
     rbind (listener_triggered D l (getTime ev) xs) (\<lambda>l'.
     rbind (notify_listeners D ev ls s1) (\<lambda>(ls', s2). Inr (l' # ls', s2))))"

definition processEvent ::
    "('s, 'l) dispatch_ops \<Rightarrow> ('s, 'l) dispatcher \<Rightarrow> event \<Rightarrow> ('s, 'l) dispatcher res" where
  "processEvent D d ev =
     rbind (predictor_triggered D (predictor d) ev) (\<lambda>s.
     rbind (notify_listeners D ev (listeners d) s) (\<lambda>(ls, s').
       Inr (log_timing ((log_timing d ev beginOfDistribution)\<lparr>predictor := s', listeners := ls\<rparr>)
         ev endOfDistribution)))"

section \<open>The loop and the threads\<close>

text \<open>
  \<open>Looping ph\<close> is the loop of \<open>run\<close>, with \<open>ph\<close> the position of the dispatcher thread in it. \<open>Failed e\<close> is
  an exception that leaves \<open>run\<close>. Processing an event touches the predictor and the listeners only and
  external events touch the queue only, so that retrieving and processing an event is one step.
  \<open>pending\<close>, \<open>pushed\<close> and \<open>processed\<close> are not variables of the program: the last prediction, the
  external events that were pushed and the entries that were retrieved, the latest first.
\<close>

datatype run_phase = Looping phase | Stopped | Failed exn

record ('s, 'l) run_state =
  disp :: "('s, 'l) dispatcher"
  now :: int
  rphase :: run_phase
  pending :: event
  pushed :: "event list"
  processed :: "entry list"

definition continue_phase :: "('s, 'l) dispatcher \<Rightarrow> event \<Rightarrow> run_phase" where
  "continue_phase d ev = (if flt (getTime ev) (theEnd d) then Looping Predicting else Stopped)"

fun woken_run :: "bool \<Rightarrow> run_phase \<Rightarrow> run_phase" where
  "woken_run n (Looping ph) = Looping (woken n ph)"
| "woken_run n r = r"

text \<open>External events carry valid variables at a valid time; they are never lazy.\<close>

fun external_ok :: "event \<Rightarrow> bool" where
  "external_ok (StaticEvent t xs) \<longleftrightarrow> valid_time t \<and> list_all var_isValid xs"
| "external_ok (PartialEvent t tmpl xs n) \<longleftrightarrow> valid_time t \<and> list_all var_isValid xs"
| "external_ok (LazyEvent t) \<longleftrightarrow> False"

inductive dstep :: "('s, 'l) dispatch_ops \<Rightarrow> ('s, 'l) run_state \<Rightarrow> ('s, 'l) run_state \<Rightarrow> bool" for D where
  tick: "now r \<le> t \<Longrightarrow> dstep D r (r\<lparr>now := t\<rparr>)"
| external: "external_ok ev \<Longrightarrow> pushExternalEvent (dqueue (disp r)) ev = Inr (q, n) \<Longrightarrow>
    dstep D r (r\<lparr>disp := (disp r)\<lparr>dqueue := q\<rparr>, rphase := woken_run n (rphase r), pushed := ev # pushed r\<rparr>)"
| async: "list_all2 (listener_async D) (listeners (disp r)) ls \<Longrightarrow>
    dstep D r (r\<lparr>disp := (disp r)\<lparr>listeners := ls\<rparr>\<rparr>)"
| predict: "rphase r = Looping Predicting \<Longrightarrow> predict_and_add D (disp r) = Some (Inr (ev, d)) \<Longrightarrow>
    dstep D r (r\<lparr>disp := d, rphase := Looping Running, pending := ev\<rparr>)"
| predict_fails: "rphase r = Looping Predicting \<Longrightarrow> predict_and_add D (disp r) = Some (Inl e) \<Longrightarrow>
    dstep D r (r\<lparr>rphase := Failed e\<rparr>)"
| wait_new: "rphase r = Looping Running \<Longrightarrow> get_iteration (dqueue (disp r)) (now r) = WaitForNew \<Longrightarrow>
    dstep D r (r\<lparr>rphase := Looping WaitingNew\<rparr>)"
| wait_until: "rphase r = Looping Running \<Longrightarrow> get_iteration (dqueue (disp r)) (now r) = WaitUntil t \<Longrightarrow>
    dstep D r (r\<lparr>rphase := Looping (WaitingUntil t)\<rparr>)"
| timeout: "rphase r = Looping (WaitingUntil t) \<Longrightarrow> t \<le> now r \<Longrightarrow>
    dstep D r (r\<lparr>rphase := Looping Running\<rparr>)"
| spurious: "rphase r = Looping WaitingNew \<or> rphase r = Looping (WaitingUntil t) \<Longrightarrow>
    dstep D r (r\<lparr>rphase := Looping Running\<rparr>)"
| process: "rphase r = Looping Running \<Longrightarrow> get_iteration (dqueue (disp r)) (now r) = Return ev q \<Longrightarrow>
    processEvent D ((disp r)\<lparr>dqueue := q\<rparr>) ev = Inr d \<Longrightarrow>
    dstep D r (r\<lparr>disp := d, rphase := continue_phase d ev,
      processed := hd (queue (dqueue (disp r))) # processed r\<rparr>)"
| process_fails: "rphase r = Looping Running \<Longrightarrow> get_iteration (dqueue (disp r)) (now r) = Return ev q \<Longrightarrow>
    processEvent D ((disp r)\<lparr>dqueue := q\<rparr>) ev = Inl e \<Longrightarrow>
    dstep D r (r\<lparr>disp := (disp r)\<lparr>dqueue := q\<rparr>, rphase := Failed e,
      processed := hd (queue (dqueue (disp r))) # processed r\<rparr>)"

inductive_cases dstepE: "dstep D r r'"

text \<open>The state in which \<open>run\<close> enters the loop: \<open>dispatcher_initStartTimeNow\<close> has started the queue.\<close>

definition run_started :: "('s, 'l) run_state \<Rightarrow> bool" where
  "run_started r \<longleftrightarrow> queue (dqueue (disp r)) = [] \<and> initialized (dqueue (disp r)) \<and>
     rphase r = Looping Predicting \<and> pushed r = [] \<and> processed r = []"

inductive run_reachable ::
    "('s, 'l) dispatch_ops \<Rightarrow> ('s, 'l) run_state \<Rightarrow> ('s, 'l) run_state \<Rightarrow> bool" for D r0 where
  start: "run_reachable D r0 r0"
| step: "run_reachable D r0 r \<Longrightarrow> dstep D r r' \<Longrightarrow> run_reachable D r0 r'"

section \<open>The projection to the queue's threads\<close>

definition view :: "('s, 'l) run_state \<Rightarrow> system" where
  "view r = \<lparr>squeue = dqueue (disp r), clock = now r,
     phase = (case rphase r of Looping ph \<Rightarrow> ph | _ \<Rightarrow> Predicting), accepted = pushed r, delivered = processed r\<rparr>"

lemma view_simps [simp]:
  "squeue (view r) = dqueue (disp r)" "clock (view r) = now r" "accepted (view r) = pushed r"
  "delivered (view r) = processed r" "rphase r = Looping ph \<Longrightarrow> phase (view r) = ph"
  by (simp_all add: view_def)

lemma external_ok_time: "external_ok ev \<Longrightarrow> valid_time (getTime ev)"
  by (cases ev) simp_all

lemma processEvent_keeps:
  assumes "processEvent D d ev = Inr d'"
  shows "theEnd d' = theEnd d" "dqueue d' = dqueue d"
  using assms by (auto simp: processEvent_def log_timing_def res_simps)

lemma predict_and_addE:
  assumes "predict_and_add D d = Some (Inr (ev, d'))"
  obtains s q n where "predict_next D (predictor d) = Some (Inr (ev, s))" "add (dqueue d) ev True = Inr (q, n)"
    "d' = (log_timing d ev prediction)\<lparr>predictor := s, dqueue := q\<rparr>"
  using assms by (auto simp: predict_and_add_def res_simps)

text \<open>Every step of the dispatcher is a step of the queue's threads or leaves their state alone.\<close>

lemma dstep_view:
  assumes "dstep D r r'" and "initialized (dqueue (disp r))"
    and "\<And>ev s. rphase r = Looping Predicting \<Longrightarrow> predict_next D (predictor (disp r)) = Some (Inr (ev, s)) \<Longrightarrow>
      valid_time (getTime ev)"
  shows "view r' = view r \<or> qstep (view r) (view r')"
  using assms(1)
proof cases
  case (tick t)
  then show ?thesis using qstep.tick [of "view r" t] by (simp add: view_def)
next
  case (external ev q n)
  have "qstep (view r) ((view r)\<lparr>squeue := q, phase := woken n (phase (view r)), accepted := ev # accepted (view r)\<rparr>)"
    by (rule qstep.external) (use external assms(2) external_ok_time in simp_all)
  moreover have "(view r)\<lparr>squeue := q, phase := woken n (phase (view r)), accepted := ev # accepted (view r)\<rparr> = view r'"
    using external by (cases "rphase r") (simp_all add: view_def)
  ultimately show ?thesis by simp
next
  case (predict ev d)
  from predict(3) obtain s q n where "predict_next D (predictor (disp r)) = Some (Inr (ev, s))"
      "add (dqueue (disp r)) ev True = Inr (q, n)" "d = (log_timing (disp r) ev prediction)\<lparr>predictor := s, dqueue := q\<rparr>"
    by (rule predict_and_addE)
  note p = this
  have "qstep (view r) ((view r)\<lparr>squeue := q, phase := Running\<rparr>)"
    by (rule qstep.predict [of _ ev _ n]) (use p predict(2) assms(2,3) in simp_all)
  moreover have "view r' = (view r)\<lparr>squeue := q, phase := Running\<rparr>"
    using p(3) predict by (simp add: view_def log_timing_def)
  ultimately show ?thesis by simp
next
  case (process ev q d)
  then have "qstep (view r) ((view r)\<lparr>squeue := q, phase := Predicting,
      delivered := hd (queue (squeue (view r))) # delivered (view r)\<rparr>)"
    by (intro qstep.return) simp_all
  moreover have "dqueue d = q" using process processEvent_keeps(2) by fastforce
  ultimately show ?thesis using process by (simp add: view_def continue_phase_def)
next
  case (process_fails ev q e)
  then have "qstep (view r) ((view r)\<lparr>squeue := q, phase := Predicting,
      delivered := hd (queue (squeue (view r))) # delivered (view r)\<rparr>)"
    by (intro qstep.return) simp_all
  then show ?thesis using process_fails by (simp add: view_def)
next
  case (spurious t)
  then have "qstep (view r) ((view r)\<lparr>phase := Running\<rparr>)" by (intro qstep.spurious) auto
  then show ?thesis using spurious by (auto simp: view_def)
next
  case wait_new
  then have "qstep (view r) ((view r)\<lparr>phase := WaitingNew\<rparr>)" by (intro qstep.wait_new) simp_all
  then show ?thesis using wait_new by (simp add: view_def)
next
  case (wait_until t)
  then have "qstep (view r) ((view r)\<lparr>phase := WaitingUntil t\<rparr>)" by (intro qstep.wait_until) simp_all
  then show ?thesis using wait_until by (simp add: view_def)
next
  case (timeout t)
  then have "qstep (view r) ((view r)\<lparr>phase := Running\<rparr>)" by (intro qstep.timeout) simp_all
  then show ?thesis using timeout by (simp add: view_def)
qed (simp_all add: view_def)

section \<open>The front of the queue\<close>

text \<open>
  While the dispatcher is inside \<open>get\<close> the queue is not empty: its first entry is the last prediction,
  or an external event that is not later than it.
\<close>

definition front_ok :: "event \<Rightarrow> entry list \<Rightarrow> bool" where
  "front_ok p q \<longleftrightarrow> (case q of [] \<Rightarrow> False
     | e # r \<Rightarrow> e = (p, True) \<or> \<not> snd e \<and> fle (entry_time e) (getTime p))"

lemma front_ok_insert:
  assumes "front_ok p q" and "\<not> snd (hd q)" and "\<not> isnan (getTime ev)"
  shows "front_ok p (insert_entry (ev, False) q)"
proof (cases q)
  case (Cons e r)
  have e: "\<not> snd e" "fle (entry_time e) (getTime p)" using assms Cons by (auto simp: front_ok_def)
  show ?thesis
  proof (cases "tol e (ev, False)")
    case True
    with Cons e show ?thesis by (simp add: front_ok_def insert_entry_def)
  next
    case False
    moreover have "\<not> isnan (fadd (getTime ev) eps)" "\<not> isnan (entry_time e)"
      using assms(3) dtime.up_num e(2) dtime.le_num by blast+
    ultimately have "fle (fadd (getTime ev) eps) (entry_time e)" using dtime.le_total by (auto simp: tol_def)
    then have "fle (getTime ev) (getTime p)"
      using dtime.up_infl [OF assms(3)] e(2) dtime.le_trans by blast
    with False Cons show ?thesis by (simp add: front_ok_def insert_entry_def)
  qed
qed (use assms in \<open>simp add: front_ok_def\<close>)

lemma front_ok_external:
  assumes "front_ok p q" and "queue_safe q" and "valid_time (getTime ev)" and "valid_time (getTime p)"
  shows "front_ok p (after_external ev q)"
proof (cases "snd (hd q)")
  case False
  then show ?thesis using front_ok_insert [OF assms(1) False] assms(1,3) valid_time_num
    by (cases q) (auto simp: after_external_def front_ok_def drop_future_def)
next
  case True
  then obtain r where q: "q = (p, True) # r" using assms(1) by (cases q) (auto simp: front_ok_def)
  have n: "\<not> isnan (getTime ev)" "\<not> isnan (getTime p)" using assms(3,4) valid_time_num by blast+
  show ?thesis
  proof (cases "flt (fadd (getTime ev) eps) (getTime p)")
    case True
    then have le: "fle (fadd (getTime ev) eps) (getTime p)" by (simp add: fcmp_defs)
    have "front_ok p (insert_entry (ev, False) r)"
    proof (cases "r \<noteq> [] \<and> tol (hd r) (ev, False)")
      case True
      then obtain f r' where r: "r = f # r'" "fle (entry_time f) (fadd (getTime ev) eps)"
        by (cases r) (auto simp: tol_def)
      have "\<not> snd f" using unpredicted_tl [of "(p, True)" r] assms(2) q r by (simp add: unpredicted_def)
      then show ?thesis using r le dtime.le_trans by (auto simp: front_ok_def insert_entry_def tol_def)
    next
      case False
      have "fle (getTime ev) (getTime p)" using le dtime.up_infl [OF n(1)] dtime.le_trans by blast
      with False show ?thesis by (cases r) (auto simp: front_ok_def insert_entry_def)
    qed
    with True q show ?thesis by (simp add: after_external_def drop_future_def)
  next
    case False
    then have "tol (p, True) (ev, False)"
      using n dtime.not_le dtime.up_num by (auto simp: tol_def)
    with False q show ?thesis by (simp add: after_external_def drop_future_def insert_entry_def front_ok_def)
  qed
qed

lemma front_ok_prediction:
  assumes "add s ev True = Inr (s', n)" and "queue_safe (queue s)" and "unpredicted (queue s)"
    and "valid_time (getTime ev)"
  shows "front_ok ev (queue s')"
proof (cases "hasPriorEvents (queue s) (getTime ev)")
  case True
  then obtain e r where q: "queue s = e # r" "flt (entry_time e) (fsub (getTime ev) eps)"
    by (cases "queue s") (auto simp: hasPriorEvents_def)
  then have "fle (entry_time e) (getTime ev)"
    using dtime.dn_defl [of "getTime ev"] assms(4) valid_time_num dtime.le_trans [of "entry_time e"]
    by (fastforce simp: fcmp_defs)
  then show ?thesis using True assms q
    by (auto simp: add_predicted deleteEvent_def logEvent_def front_ok_def unpredicted_def)
next
  case False
  then show ?thesis using assms by (auto simp: add_predicted front_ok_def)
qed

section \<open>The contract of predictors and listeners\<close>

text \<open>
  \<open>ready s\<close>: the predictor may be asked for the next event. \<open>offers s ev\<close>: \<open>ev\<close> is its last prediction,
  and can be read. An external event is only given to it when it is not later than the last prediction.
  \<open>fails\<close> are the exceptions that may leave the loop.
\<close>

locale listener_contract =
  fixes notify :: "'l \<Rightarrow> double \<Rightarrow> variable list \<Rightarrow> 'l res"
    and change :: "'l \<Rightarrow> 'l \<Rightarrow> bool"
    and linv :: "'l \<Rightarrow> bool"
    and lfail :: "exn \<Rightarrow> bool"
  assumes notify_listener: "linv l \<Longrightarrow> list_all var_isValid xs \<Longrightarrow> outcome lfail linv (notify l t xs)"
    and listener_changes: "linv l \<Longrightarrow> change l l' \<Longrightarrow> linv l'"

locale predictor_contract =
  fixes D :: "('s, 'l) dispatch_ops"
    and ready :: "'s \<Rightarrow> bool"
    and offers :: "'s \<Rightarrow> event \<Rightarrow> bool"
    and linv :: "'l \<Rightarrow> bool"
    and fails :: "exn \<Rightarrow> bool"
  assumes predict: "ready s \<Longrightarrow> predict_next D s = Some r \<Longrightarrow>
      outcome fails (\<lambda>(ev, s'). offers s' ev \<and> valid_time (getTime ev)) r"
    and offers_ready: "offers s ev \<Longrightarrow> ready s"
    and read: "offers s ev \<Longrightarrow>
      outcome fails (\<lambda>(xs, s'). offers s' ev \<and> list_all var_isValid xs) (read_variables D s ev)"
    and read_external: "ready s \<Longrightarrow> external_ok ev \<Longrightarrow>
      outcome fails (\<lambda>(xs, s'). ready s' \<and> list_all var_isValid xs) (read_variables D s ev)"
    and notify_prediction: "offers s ev \<Longrightarrow> outcome fails (\<lambda>s'. offers s' ev) (predictor_triggered D s ev)"
    and notify_external: "offers s p \<Longrightarrow> external_ok ev \<Longrightarrow> fle (getTime ev) (getTime p) \<Longrightarrow>
      outcome fails ready (predictor_triggered D s ev)"
    and listener: "linv l \<Longrightarrow> list_all var_isValid xs \<Longrightarrow> outcome fails linv (listener_triggered D l t xs)"
    and listener_async: "linv l \<Longrightarrow> listener_async D l l' \<Longrightarrow> linv l'"
begin

lemma notify_listeners_outcome:
  assumes "\<And>s. I s \<Longrightarrow> outcome fails (\<lambda>(xs, s'). I s' \<and> list_all var_isValid xs) (read_variables D s ev)"
    and "I s" and "list_all linv ls"
  shows "outcome fails (\<lambda>(ls', s'). list_all linv ls' \<and> I s') (notify_listeners D ev ls s)"
  using assms(2,3)
proof (induction ls arbitrary: s)
  case Nil
  then show ?case by simp
next
  case (Cons l ls)
  have "outcome fails (\<lambda>(ls', s'). list_all linv ls' \<and> I s') (rbind (listener_triggered D l (getTime ev) xs)
      (\<lambda>l'. rbind (notify_listeners D ev ls s1) (\<lambda>(ls', s2). Inr (l' # ls', s2))))"
    if "I s1" "list_all var_isValid xs" for xs s1
    by (rule outcome_bind [OF listener], use Cons.prems that in simp_all, rule outcome_bind [OF Cons.IH])
      (use Cons.prems that in auto)
  then show ?case
    unfolding notify_listeners.simps by (intro outcome_bind [OF assms(1) [OF Cons.prems(1)]]) auto
qed

lemma processEvent_outcome:
  assumes "outcome fails I (predictor_triggered D (predictor d) ev)"
    and "\<And>s. I s \<Longrightarrow> outcome fails (\<lambda>(xs, s'). I s' \<and> list_all var_isValid xs) (read_variables D s ev)"
    and "list_all linv (listeners d)"
  shows "outcome fails (\<lambda>d'. I (predictor d') \<and> list_all linv (listeners d')) (processEvent D d ev)"
  unfolding processEvent_def
  by (rule outcome_bind [OF assms(1)], rule outcome_bind [OF notify_listeners_outcome [OF assms(2) _ assms(3)]])
    (auto simp: log_timing_def)

lemma process_front:
  assumes "offers (predictor d) p" and "front_ok p (e # q)" and "list_all linv (listeners d)"
    and "\<not> snd e \<Longrightarrow> external_ok (fst e)"
  shows "outcome fails (\<lambda>d'. ready (predictor d') \<and> list_all linv (listeners d')) (processEvent D d (fst e))"
proof (cases "snd e")
  case True
  then have e: "fst e = p" using assms(2) by (auto simp: front_ok_def)
  show ?thesis unfolding e
    by (rule outcome_mono [OF processEvent_outcome [where I = "\<lambda>s. offers s p"]])
      (use assms notify_prediction read offers_ready in auto)
next
  case False
  then have "fle (entry_time e) (getTime p)" "external_ok (fst e)" using assms(2,4) by (auto simp: front_ok_def)
  then show ?thesis
    by (intro processEvent_outcome) (use assms notify_external read_external in auto)
qed

definition run_inv :: "('s, 'l) run_state \<Rightarrow> bool" where
  "run_inv r \<longleftrightarrow> system_ok (view r) \<and> list_all (\<lambda>e. external_ok (fst e)) (externals (queue (dqueue (disp r)))) \<and>
     (case rphase r of
        Looping ph \<Rightarrow> list_all linv (listeners (disp r)) \<and>
          (if ph = Predicting then ready (predictor (disp r))
           else offers (predictor (disp r)) (pending r) \<and> valid_time (getTime (pending r)) \<and>
             front_ok (pending r) (queue (dqueue (disp r))))
      | Stopped \<Rightarrow> True
      | Failed e \<Rightarrow> fails e)"

lemma run_inv_view:
  assumes "run_inv r" and "dstep D r r'"
  shows "view r' = view r \<or> qstep (view r) (view r')"
proof (rule dstep_view [OF assms(2)])
  show "initialized (dqueue (disp r))" using assms(1) system_okD(1) [of "view r"] by (simp add: run_inv_def)
  fix ev s
  assume "rphase r = Looping Predicting" and "predict_next D (predictor (disp r)) = Some (Inr (ev, s))"
  then show "valid_time (getTime ev)" using assms(1) predict [of "predictor (disp r)" "Inr (ev, s)"]
    by (simp add: run_inv_def)
qed

lemma run_inv_external:
  assumes "run_inv r" and "external_ok ev" and "pushExternalEvent (dqueue (disp r)) ev = Inr (q, n)"
  shows "list_all (\<lambda>e. external_ok (fst e)) (externals (queue q)) \<and>
    (front_ok p (queue (dqueue (disp r))) \<longrightarrow> valid_time (getTime p) \<longrightarrow> front_ok p (queue q))"
proof -
  let ?l = "logEvent (dqueue (disp r)) ev realTimeGeneration"
  have safe: "queue_safe (queue (dqueue (disp r)))"
    using assms(1) system_okD(2) [of "view r"] by (simp add: run_inv_def)
  then have "(q, n) = (with_external ?l ev, True)"
    using assms(3) by (intro add_external_result) (simp_all add: pushExternalEvent_def logEvent_def)
  then have q: "queue q = after_external ev (queue (dqueue (disp r)))"
    by (simp add: with_external_def logEvent_def)
  have "set (externals (queue q)) = insert (ev, False) (set (externals (queue (dqueue (disp r)))))"
    using after_external_safe(2) [OF safe external_ok_time [OF assms(2)]] by (simp add: q set_insert_entry)
  then have "list_all (\<lambda>e. external_ok (fst e)) (externals (queue q))"
    using assms(1,2) by (simp add: run_inv_def list_all_iff)
  then show ?thesis using front_ok_external [OF _ safe external_ok_time [OF assms(2)]] by (simp add: q)
qed

lemma predict_and_add_outcome:
  assumes "ready (predictor d)" and "queue_safe (queue (dqueue d))" and "unpredicted (queue (dqueue d))"
    and "predict_and_add D d = Some r"
  shows "outcome fails (\<lambda>(ev, d'). offers (predictor d') ev \<and> valid_time (getTime ev) \<and>
    front_ok ev (queue (dqueue d')) \<and> externals (queue (dqueue d')) = externals (queue (dqueue d)) \<and>
    listeners d' = listeners d) r"
proof -
  obtain x where x: "predict_next D (predictor d) = Some x" and r: "r = rbind x (\<lambda>(ev, s).
      rbind (add (dqueue d) ev True) (\<lambda>(q, n). Inr (ev, (log_timing d ev prediction)\<lparr>predictor := s, dqueue := q\<rparr>)))"
    using assms(4) by (auto simp: predict_and_add_def)
  show ?thesis unfolding r
  proof (rule outcome_bind [OF predict [OF assms(1) x]])
    fix y
    assume "case y of (ev, s') \<Rightarrow> offers s' ev \<and> valid_time (getTime ev)"
    then obtain ev s where y: "y = (ev, s)" "offers s ev" "valid_time (getTime ev)" by auto
    obtain q n where a: "add (dqueue d) ev True = Inr (q, n)"
      using add_predicted [OF assms(2,3), of ev] by (metis prod.exhaust)
    show "outcome fails (\<lambda>(ev, d'). offers (predictor d') ev \<and> valid_time (getTime ev) \<and>
        front_ok ev (queue (dqueue d')) \<and> externals (queue (dqueue d')) = externals (queue (dqueue d)) \<and>
        listeners d' = listeners d) (case y of (ev, s) \<Rightarrow>
        rbind (add (dqueue d) ev True) (\<lambda>(q, n). Inr (ev, (log_timing d ev prediction)\<lparr>predictor := s, dqueue := q\<rparr>)))"
      using y a front_ok_prediction [OF a assms(2,3) y(3)] add_keeps [OF assms(2) y(3) a]
      by (simp add: log_timing_def)
  qed
qed

lemma run_inv_predict:
  assumes "run_inv r" and "rphase r = Looping Predicting" and "predict_and_add D (disp r) = Some x"
  shows "outcome fails (\<lambda>(ev, d). offers (predictor d) ev \<and> valid_time (getTime ev) \<and>
    front_ok ev (queue (dqueue d)) \<and> externals (queue (dqueue d)) = externals (queue (dqueue (disp r))) \<and>
    listeners d = listeners (disp r)) x"
proof -
  have "queue_safe (queue (dqueue (disp r)))" "wait_ok (view r)" "ready (predictor (disp r))"
    using assms(1,2) system_okD [of "view r"] by (simp_all add: run_inv_def)
  moreover have "phase (view r) = Predicting" using assms(2) by simp
  ultimately show ?thesis using predict_and_add_outcome [OF _ _ _ assms(3)] by (simp add: wait_ok_def)
qed

lemma run_inv_process:
  assumes "run_inv r" and "rphase r = Looping Running" and "get_iteration (dqueue (disp r)) (now r) = Return ev q"
  shows "outcome fails (\<lambda>d. ready (predictor d) \<and> list_all linv (listeners d)) (processEvent D ((disp r)\<lparr>dqueue := q\<rparr>) ev)"
    and "list_all (\<lambda>e. external_ok (fst e)) (externals (queue q))"
proof -
  obtain e t where q: "queue (dqueue (disp r)) = e # t" "ev = fst e" "queue q = t"
    using assms(3) by (auto simp: get_iteration_def split: list.splits if_splits)
  have i: "offers (predictor (disp r)) (pending r)" "front_ok (pending r) (e # t)" "list_all linv (listeners (disp r))"
      "list_all (\<lambda>e. external_ok (fst e)) (externals (e # t))"
    using assms(1,2) q(1) by (auto simp: run_inv_def)
  show "outcome fails (\<lambda>d. ready (predictor d) \<and> list_all linv (listeners d)) (processEvent D ((disp r)\<lparr>dqueue := q\<rparr>) ev)"
    unfolding q(2) by (rule process_front [OF _ i(2)]) (use i in \<open>auto simp: externals_def\<close>)
  show "list_all (\<lambda>e. external_ok (fst e)) (externals (queue q))"
    using i(4) q(3) by (auto simp: externals_def split: if_splits)
qed

lemma run_inv_step:
  assumes "run_inv r" and "dstep D r r'"
  shows "run_inv r'"
proof -
  have sys: "system_ok (view r')"
    using run_inv_view [OF assms] assms(1) system_ok_step by (auto simp: run_inv_def)
  from assms(2) show ?thesis
  proof cases
    case (tick t)
    with sys assms(1) show ?thesis by (cases "rphase r") (simp_all add: run_inv_def)
  next
    case (external ev q n)
    have ext: "list_all (\<lambda>e. external_ok (fst e)) (externals (queue q))"
      and front: "front_ok p (queue (dqueue (disp r))) \<Longrightarrow> valid_time (getTime p) \<Longrightarrow> front_ok p (queue q)" for p
      using run_inv_external [OF assms(1) external(2,3)] by blast+
    have "woken n ph = Predicting \<longleftrightarrow> ph = Predicting" for ph by (cases n; cases ph) simp_all
    with sys ext front assms(1) external(1) show ?thesis
      by (cases "rphase r") (auto simp: run_inv_def split: if_splits)
  next
    case (async ls)
    have "list_all linv ls" if "list_all linv (listeners (disp r))"
      using async(2) that listener_async by (auto simp: list_all2_conv_all_nth list_all_length)
    with sys assms(1) async(1) show ?thesis by (cases "rphase r") (simp_all add: run_inv_def)
  next
    case (predict ev d)
    with sys assms(1) run_inv_predict [OF assms(1) predict(2,3)] show ?thesis by (simp add: run_inv_def)
  next
    case (predict_fails e)
    with sys assms(1) run_inv_predict [OF assms(1) predict_fails(2,3)] show ?thesis by (simp add: run_inv_def)
  next
    case (process ev q d)
    with sys run_inv_process [OF assms(1) process(2,3)] processEvent_keeps(2) [OF process(4)] show ?thesis
      by (simp add: run_inv_def continue_phase_def)
  next
    case (process_fails ev q e)
    with sys run_inv_process [OF assms(1) process_fails(2,3)] show ?thesis by (simp add: run_inv_def)
  qed (use sys assms(1) in \<open>auto simp: run_inv_def\<close>)
qed

lemma run_inv_started:
  assumes "run_started r" and "ready (predictor (disp r))" and "list_all linv (listeners (disp r))"
  shows "run_inv r"
proof -
  have "started (view r)" using assms(1) by (simp add: run_started_def started_def)
  with assms show ?thesis using started_ok by (simp add: run_inv_def run_started_def externals_def)
qed

lemma run_inv_reachable:
  assumes "run_reachable D r0 r" and "run_started r0" and "ready (predictor (disp r0))"
    and "list_all linv (listeners (disp r0))"
  shows "run_inv r"
  using assms(1) by induction (use run_inv_started [OF assms(2-4)] run_inv_step in auto)

text \<open>The consequences, as the properties of the two predictors use them.\<close>

lemma run_failure:
  assumes "run_reachable D r0 r" and "run_started r0" and "ready (predictor (disp r0))"
    and "list_all linv (listeners (disp r0))" and "rphase r = Failed e"
  shows "fails e"
  using run_inv_reachable [OF assms(1-4)] assms(5) by (simp add: run_inv_def)

lemma run_front:
  assumes "run_reachable D r0 r" and "run_started r0" and "ready (predictor (disp r0))"
    and "list_all linv (listeners (disp r0))" and "rphase r = Looping ph" and "ph \<noteq> Predicting"
  shows "front_ok (pending r) (queue (dqueue (disp r))) \<and> offers (predictor (disp r)) (pending r)"
  using run_inv_reachable [OF assms(1-4)] assms(5,6) by (simp add: run_inv_def)

lemma run_ready:
  assumes "run_reachable D r0 r" and "run_started r0" and "ready (predictor (disp r0))"
    and "list_all linv (listeners (disp r0))" and "rphase r = Looping Predicting"
  shows "ready (predictor (disp r))"
  using run_inv_reachable [OF assms(1-4)] assms(5) by (simp add: run_inv_def)

lemma run_refines:
  assumes "run_reachable D r0 r" and "run_started r0" and "ready (predictor (disp r0))"
    and "list_all linv (listeners (disp r0))"
  shows "reachable (view r)"
  using assms(1)
proof induction
  case start
  show ?case using assms(2) by (intro reachable.start) (simp add: run_started_def started_def)
next
  case (step r r')
  have "view r' = view r \<or> qstep (view r) (view r')"
    using run_inv_view [OF run_inv_reachable [OF step(1) assms(2-4)] step(2)] .
  with step show ?case by (auto intro: reachable.step)
qed

end

section \<open>The end of the simulation\<close>

definition stop_inv :: "('s, 'l) run_state \<Rightarrow> bool" where
  "stop_inv r \<longleftrightarrow> (case rphase r of
     Looping ph \<Rightarrow> list_all (\<lambda>e. flt (entry_time e) (theEnd (disp r))) (processed r)
   | Stopped \<Rightarrow> processed r \<noteq> [] \<and> \<not> flt (entry_time (hd (processed r))) (theEnd (disp r)) \<and>
       list_all (\<lambda>e. flt (entry_time e) (theEnd (disp r))) (tl (processed r))
   | Failed e \<Rightarrow> list_all (\<lambda>e. flt (entry_time e) (theEnd (disp r))) (tl (processed r)))"

lemma get_iteration_Return: "get_iteration s t = Return ev q \<Longrightarrow> ev = fst (hd (queue s))"
  by (auto simp: get_iteration_def split: list.splits if_splits)

lemma predict_and_add_end: "predict_and_add D d = Some (Inr (ev, d')) \<Longrightarrow> theEnd d' = theEnd d"
  by (erule predict_and_addE) (simp add: log_timing_def)

lemma stop_inv_step:
  assumes "dstep D r r'" and "stop_inv r"
  shows "stop_inv r' \<and> theEnd (disp r') = theEnd (disp r)"
  using assms(1)
proof cases
  case (tick t)
  then show ?thesis using assms(2) by (cases "rphase r") (simp_all add: stop_inv_def)
next
  case (external ev q n)
  then show ?thesis using assms(2) by (cases "rphase r") (simp_all add: stop_inv_def)
next
  case (async ls)
  then show ?thesis using assms(2) by (cases "rphase r") (simp_all add: stop_inv_def)
next
  case (predict ev d)
  then show ?thesis using assms(2) predict_and_add_end by (fastforce simp: stop_inv_def)
next
  case (predict_fails e)
  then show ?thesis using assms(2) by (cases "processed r") (simp_all add: stop_inv_def)
next
  case (process ev q d)
  have "theEnd d = theEnd (disp r)" using processEvent_keeps(1) [OF process(4)] by simp
  with process assms(2) show ?thesis
    by (auto simp: stop_inv_def continue_phase_def dest!: get_iteration_Return)
qed (use assms(2) in \<open>auto simp: stop_inv_def\<close>)

lemma stop_inv_reachable:
  assumes "run_reachable D r0 r" and "run_started r0"
  shows "stop_inv r \<and> theEnd (disp r) = theEnd (disp r0)"
  using assms(1)
proof induction
  case start
  then show ?case using assms(2) by (simp add: stop_inv_def run_started_def)
next
  case (step r r')
  then show ?case using stop_inv_step by fastforce
qed

section \<open>Properties\<close>

text \<open>
  C24: the end of a run. The loop goes on as long as every event it processed lies before the stop time;
  the first event at or after the stop time is still handed to the listeners and ends the loop.
\<close>

theorem run_stops:
  assumes "run_reachable D r0 r" and "run_started r0"
  shows "case rphase r of
     Looping ph \<Rightarrow> list_all (\<lambda>e. flt (entry_time e) (theEnd (disp r0))) (processed r)
   | Stopped \<Rightarrow> \<exists>e es. processed r = e # es \<and> \<not> flt (entry_time e) (theEnd (disp r0)) \<and>
       list_all (\<lambda>e. flt (entry_time e) (theEnd (disp r0))) es
   | Failed x \<Rightarrow> list_all (\<lambda>e. flt (entry_time e) (theEnd (disp r0))) (tl (processed r))"
  using stop_inv_reachable [OF assms]
  by (cases "rphase r"; cases "processed r") (auto simp: stop_inv_def)

text \<open>A loop whose predictor has an event at time 0 only, and whose stop time is 0.\<close>

definition single_ops :: "(unit, unit) dispatch_ops" where
  "single_ops = \<lparr>predict_next = (\<lambda>_. Some (Inr (StaticEvent 0 [], ()))), read_variables = (\<lambda>_ ev. Inr ([], ())),
     predictor_triggered = (\<lambda>_ _. Inr ()), listener_triggered = (\<lambda>_ _ _. Inr ()), listener_async = (=)\<rparr>"

definition single_start :: "(unit, unit) run_state" where
  "single_start = \<lparr>disp = \<lparr>predictor = (), theEnd = 0, dqueue = (TimedEventQueue 0)\<lparr>initialized := True\<rparr>,
     listeners = [], timingLog = []\<rparr>, now = 0, rphase = Looping Predicting, pending = LazyEvent 0, pushed = [],
     processed = []\<rparr>"

lemma single_stops:
  "\<exists>r. run_reachable single_ops single_start r \<and> rphase r = Stopped"
proof -
  let ?q = "(TimedEventQueue 0)\<lparr>initialized := True, queue := [(StaticEvent 0 [], True)]\<rparr>"
  let ?d = "(log_timing (disp single_start) (StaticEvent 0 []) prediction)\<lparr>predictor := (), dqueue := ?q\<rparr>"
  let ?r = "single_start\<lparr>disp := ?d, rphase := Looping Running, pending := StaticEvent 0 []\<rparr>"
  have "add (dqueue (disp single_start)) (StaticEvent 0 []) True = Inr (?q, True)"
    using add_predicted [of "dqueue (disp single_start)" "StaticEvent 0 []"]
    by (simp add: single_start_def TimedEventQueue_def queue_safe_def isQueuePredictionConsistent_def externals_def
        unpredicted_def hasPriorEvents_def)
  then have "predict_and_add single_ops (disp single_start) = Some (Inr (StaticEvent 0 [], ?d))"
    by (simp add: predict_and_add_def single_ops_def)
  then have "dstep single_ops single_start ?r" by (intro dstep.predict) (simp_all add: single_start_def)
  then have r: "run_reachable single_ops single_start ?r" using run_reachable.start run_reachable.step by blast
  have it: "get_iteration (dqueue (disp ?r)) (now ?r) = Return (StaticEvent 0 []) (?q\<lparr>queue := []\<rparr>)"
    by (simp add: get_iteration_def isFutureEvent_def getSystemTime_def relative_zero TimedEventQueue_def single_start_def)
  obtain d where d: "processEvent single_ops ((disp ?r)\<lparr>dqueue := ?q\<lparr>queue := []\<rparr>\<rparr>) (StaticEvent 0 []) = Inr d" "theEnd d = 0"
    by (simp add: processEvent_def single_ops_def log_timing_def single_start_def)
  let ?s = "?r\<lparr>disp := d, rphase := continue_phase d (StaticEvent 0 []),
      processed := hd (queue (dqueue (disp ?r))) # processed ?r\<rparr>"
  have "dstep single_ops ?r ?s" by (rule dstep.process [OF _ it d(1)]) simp
  then have "run_reachable single_ops single_start ?s" by (rule run_reachable.step [OF r])
  moreover have "rphase ?s = Stopped" using d(2) by (simp add: continue_phase_def flt_def)
  ultimately show ?thesis by blast
qed

theorem run_stops_witness:
  "\<exists>r e es. run_reachable single_ops single_start r \<and> rphase r = Stopped \<and> processed r = e # es \<and> \<not> flt (entry_time e) 0"
proof -
  obtain r where r: "run_reachable single_ops single_start r" "rphase r = Stopped" using single_stops by blast
  have "run_started single_start" by (simp add: run_started_def single_start_def TimedEventQueue_def)
  from run_stops [OF r(1) this] r(2) have "\<exists>e es. processed r = e # es \<and> \<not> flt (entry_time e) (theEnd (disp single_start))" by auto
  then show ?thesis using r by (auto simp: single_start_def)
qed

end
