(* ===== verification/Solver_Configuration.thy ===== *)
theory Solver_Configuration
  imports Application_Context
begin

text \<open>
  The parameters of the solver and the loading of the model: \<open>model/SolverConfiguration\<close> and
  \<open>model/ManagedLowLevelFMU\<close>. The integrator properties are a structure of FMI++ of which the program
  reads and writes five members. The optional integrators of the SUNDIALS library are compiled in by a
  build flag, the argument \<open>sundials\<close> below. Loading an FMU is done by the model manager of FMI++, of
  which the program sees the status, the type and the deduced name.
\<close>

section \<open>Integrator properties\<close>

datatype integrator_type = it_eu | it_rk | it_abm | it_ck | it_dp | it_fe | it_bs | it_ro | it_bdf | it_abm2

record integrator_properties =
  itype :: integrator_type
  iname :: string
  order :: int32
  abstol :: double
  reltol :: double

record solver_configuration =
  solver_props :: integrator_properties
  fmuDebugging :: bool
  eventSearchPrecision :: double

definition PROP_FMU_DEBUGGING :: string where "PROP_FMU_DEBUGGING = ''fmu.logging''"
definition PROP_EVENT_SEARCH_PRECISION :: string where
  "PROP_EVENT_SEARCH_PRECISION = ''app.eventSearchPrecision''"
definition PROP_INTEGRATOR_TYPE :: string where "PROP_INTEGRATOR_TYPE = ''app.integration.method''"
definition PROP_INTEGRATION_ORDER :: string where "PROP_INTEGRATION_ORDER = ''app.integration.order''"
definition PROP_ABSOLUTE_TOLERANCE :: string where
  "PROP_ABSOLUTE_TOLERANCE = ''app.integration.absoluteTolerance''"
definition PROP_RELATIVE_TOLERANCE :: string where
  "PROP_RELATIVE_TOLERANCE = ''app.integration.relativeTolerance''"

definition ten_to_minus_4 :: double where "ten_to_minus_4 = 0x3F1A36E2EB1C432D"
definition ten_to_minus_6 :: double where "ten_to_minus_6 = 0x3EB0C6F7A0B5ED8D"
definition infinity :: double where "infinity = 0x7FF0000000000000"

definition toIntegratorType :: "bool \<Rightarrow> string \<Rightarrow> integrator_type res" where
  "toIntegratorType sundials i =
     (if i = ''eu'' then Inr it_eu
      else if i = ''rk'' then Inr it_rk
      else if i = ''abm'' then Inr it_abm
      else if i = ''ck'' then Inr it_ck
      else if i = ''dp'' then Inr it_dp
      else if i = ''fe'' then Inr it_fe
      else if i = ''bs'' then Inr it_bs
      else if i = ''ro'' then Inr it_ro
      else if sundials \<and> i = ''bdf'' then Inr it_bdf
      else if sundials \<and> i = ''abm2'' then Inr it_abm2
      else Inl (SystemConfigurationException (''Unknown integrator type '' @ [CHR 0x27] @ i @ [CHR 0x27]) None))"

text \<open>Without the flag the switch statements have no case for the last two types.\<close>

definition only_with :: "bool \<Rightarrow> 'v \<Rightarrow> 'v res" where
  "only_with sundials v = (if sundials then Inr v else Inl AssertionFailed)"

fun getDefaultName :: "bool \<Rightarrow> integrator_type \<Rightarrow> string res" where
  "getDefaultName sundials it_eu = Inr ''Euler''"
| "getDefaultName sundials it_rk = Inr ''Runge Kutta''"
| "getDefaultName sundials it_abm = Inr ''ABM''"
| "getDefaultName sundials it_ck = Inr ''Cash Karp''"
| "getDefaultName sundials it_dp = Inr ''Dormand Prince''"
| "getDefaultName sundials it_fe = Inr ''Fehlberg''"
| "getDefaultName sundials it_bs = Inr ''Bulirsch Stoer''"
| "getDefaultName sundials it_ro = Inr ''Rosenbrock''"
| "getDefaultName sundials it_bdf = only_with sundials ''BDF''"
| "getDefaultName sundials it_abm2 = only_with sundials ''ABM2''"

fun getDefaultOrder :: "bool \<Rightarrow> integrator_type \<Rightarrow> int32 res" where
  "getDefaultOrder sundials it_eu = Inr 1"
| "getDefaultOrder sundials it_rk = Inr 4"
| "getDefaultOrder sundials it_abm = Inr 5"
| "getDefaultOrder sundials it_ck = Inr 5"
| "getDefaultOrder sundials it_dp = Inr 5"
| "getDefaultOrder sundials it_fe = Inr 8"
| "getDefaultOrder sundials it_bs = Inr 0"
| "getDefaultOrder sundials it_ro = Inr 4"
| "getDefaultOrder sundials it_bdf = only_with sundials 0"
| "getDefaultOrder sundials it_abm2 = only_with sundials 0"

fun getDefaultAbsoluteTolerance :: "bool \<Rightarrow> integrator_type \<Rightarrow> double res" where
  "getDefaultAbsoluteTolerance sundials it_eu = Inr infinity"
| "getDefaultAbsoluteTolerance sundials it_rk = Inr infinity"
| "getDefaultAbsoluteTolerance sundials it_abm = Inr infinity"
| "getDefaultAbsoluteTolerance sundials it_bdf = only_with sundials ten_to_minus_6"
| "getDefaultAbsoluteTolerance sundials it_abm2 = only_with sundials ten_to_minus_6"
| "getDefaultAbsoluteTolerance sundials _ = Inr ten_to_minus_6"

fun getDefaultRelativeTolerance :: "bool \<Rightarrow> integrator_type \<Rightarrow> double res" where
  "getDefaultRelativeTolerance sundials it_eu = Inr infinity"
| "getDefaultRelativeTolerance sundials it_rk = Inr infinity"
| "getDefaultRelativeTolerance sundials it_abm = Inr infinity"
| "getDefaultRelativeTolerance sundials it_bdf = only_with sundials ten_to_minus_6"
| "getDefaultRelativeTolerance sundials it_abm2 = only_with sundials ten_to_minus_6"
| "getDefaultRelativeTolerance sundials _ = Inr ten_to_minus_6"

definition makeIntegratorProperties ::
    "bool \<Rightarrow> 'p ptree_ops \<Rightarrow> 'p application_context \<Rightarrow> integrator_properties res" where
  "makeIntegratorProperties sundials P c =
     rbind (getPropertyOr P as_string c PROP_INTEGRATOR_TYPE ''dp'') (\<lambda>i.
     rbind (toIntegratorType sundials i) (\<lambda>ty.
     rbind (getDefaultName sundials ty) (\<lambda>name.
     rbind (if hasProperty P c PROP_ABSOLUTE_TOLERANCE
            then getRealPositiveDoubleProperty P c PROP_ABSOLUTE_TOLERANCE
            else getDefaultAbsoluteTolerance sundials ty) (\<lambda>atol.
     rbind (if hasProperty P c PROP_RELATIVE_TOLERANCE
            then getRealPositiveDoubleProperty P c PROP_RELATIVE_TOLERANCE
            else getDefaultRelativeTolerance sundials ty) (\<lambda>rtol.
     rbind (getDefaultOrder sundials ty) (\<lambda>dflt.
     rbind (getPropertyOr P (as_int P) c PROP_INTEGRATION_ORDER dflt) (\<lambda>ord.
       if sint ord < 0
       then bad_property P c ''The integration order must be positive'' PROP_INTEGRATION_ORDER
       else Inr \<lparr>itype = ty, iname = name, order = ord, abstol = atol, reltol = rtol\<rparr>)))))))"

definition SolverConfiguration ::
    "bool \<Rightarrow> 'p ptree_ops \<Rightarrow> 'p application_context \<Rightarrow> solver_configuration res" where
  "SolverConfiguration sundials P c =
     rbind (getPropertyOr P (as_bool P) c PROP_FMU_DEBUGGING False) (\<lambda>dbg.
     rbind (getRealPositiveDoublePropertyOr P c PROP_EVENT_SEARCH_PRECISION ten_to_minus_4) (\<lambda>prec.
     rbind (makeIntegratorProperties sundials P c) (\<lambda>props.
       Inr \<lparr>solver_props = props, fmuDebugging = dbg, eventSearchPrecision = prec\<rparr>)))"

text \<open>\<open>getDiffString\<close>: the differences of two properties as a text. Doubles are printed with six digits.\<close>

definition in_quotes :: "string \<Rightarrow> string" where
  "in_quotes s = [CHR 0x27] @ s @ [CHR 0x27]"

definition invalid_text :: "string \<Rightarrow> string \<Rightarrow> string \<Rightarrow> string" where
  "invalid_text name set_val ref_val =
     name @ ''='' @ in_quotes set_val @ '' is invalid. (E.g. use '' @ in_quotes ref_val @ '' instead.) ''"

definition getDiffString_double :: "double \<Rightarrow> double \<Rightarrow> string \<Rightarrow> string" where
  "getDiffString_double setVal refVal name =
     (if isnan setVal \<noteq> isnan refVal \<or> \<not> isnan setVal \<and> \<not> feq setVal refVal
      then invalid_text name (show_general 6 setVal) (show_general 6 refVal) else [])"

definition getDiffString :: "integrator_properties \<Rightarrow> integrator_properties \<Rightarrow> string" where
  "getDiffString props refProps =
     getDiffString_double (abstol props) (abstol refProps) PROP_ABSOLUTE_TOLERANCE @
     getDiffString_double (reltol props) (reltol refProps) PROP_RELATIVE_TOLERANCE @
     (if order props \<noteq> order refProps
      then invalid_text PROP_INTEGRATION_ORDER (show_int (sint (order props))) (show_int (sint (order refProps)))
      else []) @
     (if itype props \<noteq> itype refProps
      then PROP_INTEGRATOR_TYPE @ ''='' @ in_quotes (iname props) @ '' is not accepted.'' else []) @
     (if iname props \<noteq> iname refProps
      then ''Name '' @ quoted (iname props) @ '' was changed to '' @ quoted (iname refProps) @ ''.'' else [])"

section \<open>Loading the model\<close>

datatype fmu_type =
    fmi_1_0_cs | fmi_1_0_me | fmi_2_0_cs | fmi_2_0_me | fmi_2_0_me_and_cs | fmu_type_code int

datatype load_status =
    load_success | load_duplicate | shared_lib_invalid_uri | shared_lib_load_failed | description_invalid_uri
  | description_invalid | load_failed | load_status_code int

record managed_fmu =
  modelIdentifier :: string
  fmu_path :: string
  fmu_kind :: fmu_type

definition PROP_FMU_PATH :: string where "PROP_FMU_PATH = ''fmu.path''"
definition PROP_FMU_NAME :: string where "PROP_FMU_NAME = ''fmu.name''"

fun getErrorDescription :: "load_status \<Rightarrow> string" where
  "getErrorDescription load_success = ''Successful operation''"
| "getErrorDescription load_duplicate = ''The FMU was loaded before''"
| "getErrorDescription shared_lib_invalid_uri = ''The FMU shared library URL is invalid''"
| "getErrorDescription shared_lib_load_failed = ''The shared library of the FMU cannot be loaded correctly''"
| "getErrorDescription description_invalid_uri = ''The URL of the description is invalid''"
| "getErrorDescription description_invalid = ''The model description is invalid''"
| "getErrorDescription load_failed = ''Unable to load and instantiate the FMU''"
| "getErrorDescription (load_status_code n) = ''Unknown error (code '' @ show_int n @ '')''"

fun getFMUTypeString :: "fmu_type \<Rightarrow> string" where
  "getFMUTypeString fmi_1_0_cs = ''FMI 1.0 CS''"
| "getFMUTypeString fmi_1_0_me = ''FMI 1.0 ME''"
| "getFMUTypeString fmi_2_0_cs = ''FMI 2.0 CS''"
| "getFMUTypeString fmi_2_0_me = ''FMI 2.0 ME''"
| "getFMUTypeString fmi_2_0_me_and_cs = ''FMI 2.0 CS and ME''"
| "getFMUTypeString (fmu_type_code n) = ''Unknown FMI type (code '' @ show_int n @ '')''"

text \<open>
  The model manager: \<open>load_as name path\<close> loads under a given name, \<open>load path\<close> under the name it finds
  in the model description. Both report the status and the type.
\<close>

record model_manager =
  load_as :: "string \<Rightarrow> string \<Rightarrow> load_status \<times> fmu_type"
  load_deduced :: "string \<Rightarrow> load_status \<times> fmu_type \<times> string"

definition load_error :: "string \<Rightarrow> string \<Rightarrow> string \<Rightarrow> load_status \<Rightarrow> exn" where
  "load_error path how name status =
     InvalidArgument (''Can't load the FMU at URL '' @ quoted path @ '' with the '' @ how @ '' name '' @
       quoted name @ ''. '' @ getErrorDescription status @ ''.'')"

definition initVarsAndLoadFMU ::
    "model_manager \<Rightarrow> 'p ptree_ops \<Rightarrow> 'p application_context \<Rightarrow> managed_fmu res" where
  "initVarsAndLoadFMU mgr P c =
     rbind (getProperty P as_string c PROP_FMU_PATH) (\<lambda>path.
       if hasProperty P c PROP_FMU_NAME then
         rbind (getProperty P as_string c PROP_FMU_NAME) (\<lambda>name.
           let (status, ty) = load_as mgr name path in
           if status = load_success \<or> status = load_duplicate
           then Inr \<lparr>modelIdentifier = name, fmu_path = path, fmu_kind = ty\<rparr>
           else Inl (load_error path ''specified'' name status))
       else
         let (status, ty, name) = load_deduced mgr path in
         if status = load_success \<or> status = load_duplicate
         then Inr \<lparr>modelIdentifier = name, fmu_path = path, fmu_kind = ty\<rparr>
         else Inl (load_error path ''deduced'' name status))"

definition lockFMU :: "managed_fmu \<Rightarrow> managed_fmu res" where
  "lockFMU fmu =
     (case fmu_kind fmu of
        fmu_type_code n \<Rightarrow> Inl (InvalidArgument (''The FMU at '' @ in_quotes (fmu_path fmu) @
          '' has an unsupported FMI type ('' @ getFMUTypeString (fmu_kind fmu) @ '')''))
      | _ \<Rightarrow> Inr fmu)"

definition ManagedLowLevelFMU ::
    "model_manager \<Rightarrow> 'p ptree_ops \<Rightarrow> 'p application_context \<Rightarrow> managed_fmu res" where
  "ManagedLowLevelFMU mgr P c = rbind (initVarsAndLoadFMU mgr P c) lockFMU"

section \<open>Properties\<close>

lemma getProperty_outcome: "outcome is_invalid_argument (\<lambda>_. True) (getProperty P ty c path)"
  by (simp add: getProperty_def split: option.splits)

lemma getPropertyOr_outcome: "outcome is_invalid_argument (\<lambda>_. True) (getPropertyOr P ty c path d)"
  by (simp add: getPropertyOr_def getProperty_outcome)

lemma bad_property_outcome: "outcome is_invalid_argument Q (bad_property P c msg path)"
  unfolding bad_property_def by (rule outcome_bind [OF getProperty_outcome]) simp

lemma getPositiveDoublePropertyOr_outcome:
  assumes "fle 0 d"
  shows "outcome is_invalid_argument (fle 0) (getPositiveDoublePropertyOr P c path d)"
  unfolding getPositiveDoublePropertyOr_def
proof (rule outcome_bind_assert [OF assms], rule outcome_bind [where R = "\<lambda>_. True"])
  show "outcome is_invalid_argument (\<lambda>_. True) (case getPropertyOr P (as_double P) c path d of
      Inl e \<Rightarrow> if is_invalid_argument e
        then bad_property P c ''The Property is not a floating point number'' path else Inl e
    | Inr r \<Rightarrow> Inr r)"
    using getPropertyOr_outcome [of P "as_double P" c path d]
    by (cases "getPropertyOr P (as_double P) c path d") (simp_all add: bad_property_outcome)
qed (simp add: bad_property_outcome)

lemma getRealPositiveDoublePropertyOr_outcome:
  assumes "flt 0 d"
  shows "outcome is_invalid_argument (flt 0) (getRealPositiveDoublePropertyOr P c path d)"
  unfolding getRealPositiveDoublePropertyOr_def
  by (rule outcome_bind_assert [OF assms], rule outcome_bind [OF getPositiveDoublePropertyOr_outcome])
    (simp_all add: assms flt_fle bad_property_outcome)

lemma flt_constants: "flt 0 double_one" "flt 0 ten_to_minus_4" "flt 0 ten_to_minus_6" "flt 0 infinity"
  by (simp_all add: fp_eval double_one_def ten_to_minus_4_def ten_to_minus_6_def infinity_def)

lemma fle_zero: "fle 0 0"
  by (simp add: fp_eval)

lemma getPositiveDoubleProperty_outcome:
  "outcome is_invalid_argument (fle 0) (getPositiveDoubleProperty P c path)"
  by (simp add: getPositiveDoubleProperty_def missing_def getPositiveDoublePropertyOr_outcome fle_zero)

lemma getRealPositiveDoubleProperty_outcome:
  "outcome is_invalid_argument (flt 0) (getRealPositiveDoubleProperty P c path)"
  using getRealPositiveDoublePropertyOr_outcome [OF flt_constants(1), of P c path]
  by (simp add: getRealPositiveDoubleProperty_def missing_def)

lemmas property_outcomes = getProperty_outcome getPropertyOr_outcome getRealPositiveDoubleProperty_outcome
  getRealPositiveDoublePropertyOr_outcome getPositiveDoubleProperty_outcome

text \<open>The types the parser accepts are those the defaults are defined for.\<close>

definition type_known :: "bool \<Rightarrow> integrator_type \<Rightarrow> bool" where
  "type_known sundials ty \<longleftrightarrow> (ty = it_bdf \<or> ty = it_abm2 \<longrightarrow> sundials)"

lemma toIntegratorType_outcome: "outcome is_invalid_argument (type_known sundials) (toIntegratorType sundials i)"
  by (simp add: toIntegratorType_def type_known_def)

lemma defaults_outcome:
  assumes "type_known sundials ty"
  shows "outcome is_invalid_argument (\<lambda>_. True) (getDefaultName sundials ty)"
    and "outcome is_invalid_argument (flt 0) (getDefaultAbsoluteTolerance sundials ty)"
    and "outcome is_invalid_argument (flt 0) (getDefaultRelativeTolerance sundials ty)"
    and "outcome is_invalid_argument (\<lambda>_. True) (getDefaultOrder sundials ty)"
  using assms flt_constants by (cases ty; simp add: type_known_def only_with_def)+

definition integrator_ok :: "bool \<Rightarrow> integrator_properties \<Rightarrow> bool" where
  "integrator_ok sundials p \<longleftrightarrow> type_known sundials (itype p) \<and> getDefaultName sundials (itype p) = Inr (iname p) \<and>
     0 \<le> sint (order p) \<and> flt 0 (abstol p) \<and> flt 0 (reltol p)"

lemma makeIntegratorProperties_outcome:
  "outcome is_invalid_argument (integrator_ok sundials) (makeIntegratorProperties sundials P c)"
  unfolding makeIntegratorProperties_def
proof (rule outcome_bind [OF getPropertyOr_outcome], rule outcome_bind [OF toIntegratorType_outcome],
    intro outcome_bind)
  fix i ty
  assume "type_known sundials ty"
  note known = this defaults_outcome [OF this]
  show "outcome is_invalid_argument (\<lambda>_. True) (getDefaultName sundials ty)" by (rule known)
  show "outcome is_invalid_argument (flt 0) (if hasProperty P c PROP_ABSOLUTE_TOLERANCE
      then getRealPositiveDoubleProperty P c PROP_ABSOLUTE_TOLERANCE else getDefaultAbsoluteTolerance sundials ty)"
    using known by (simp add: property_outcomes)
  show "outcome is_invalid_argument (flt 0) (if hasProperty P c PROP_RELATIVE_TOLERANCE
      then getRealPositiveDoubleProperty P c PROP_RELATIVE_TOLERANCE else getDefaultRelativeTolerance sundials ty)"
    using known by (simp add: property_outcomes)
  show "outcome is_invalid_argument (\<lambda>_. True) (getDefaultOrder sundials ty)" by (rule known)
qed (auto simp: integrator_ok_def getPropertyOr_outcome bad_property_outcome)

lemma SolverConfiguration_outcome:
  "outcome is_invalid_argument (\<lambda>s. flt 0 (eventSearchPrecision s) \<and> integrator_ok sundials (solver_props s))
     (SolverConfiguration sundials P c)"
  unfolding SolverConfiguration_def
  by (intro outcome_bind [OF getPropertyOr_outcome]
      outcome_bind [OF getRealPositiveDoublePropertyOr_outcome [OF flt_constants(2)]]
      outcome_bind [OF makeIntegratorProperties_outcome]) simp

lemma ManagedLowLevelFMU_outcome: "outcome is_invalid_argument (\<lambda>_. True) (ManagedLowLevelFMU mgr P c)"
  unfolding ManagedLowLevelFMU_def initVarsAndLoadFMU_def
  by (intro outcome_bind [where R = "\<lambda>_. True"] outcome_bind [OF getProperty_outcome])
    (auto simp: load_error_def lockFMU_def getProperty_outcome Let_def split: prod.splits fmu_type.splits
      intro!: outcome_bind [OF getProperty_outcome])

text \<open>
  C40: the solver configuration is accepted or refused cleanly. Reading it never fails an assertion: it
  ends with an invalid-argument exception or with a configuration in which the search precision and
  both tolerances are positive, the order is not negative, the integrator is one the build supports
  and the name is the one of its type.
\<close>

theorem solver_configuration_sound:
  "case SolverConfiguration sundials P c of
     Inl e \<Rightarrow> is_invalid_argument e
   | Inr s \<Rightarrow> flt 0 (eventSearchPrecision s) \<and> integrator_ok sundials (solver_props s)"
  using SolverConfiguration_outcome [of sundials P c] by (simp add: outcome_def)

text \<open>Tolerances agree when they compare equal or are both not a number.\<close>

definition same_tolerance :: "double \<Rightarrow> double \<Rightarrow> bool" where
  "same_tolerance a b \<longleftrightarrow> feq a b \<or> isnan a \<and> isnan b"

lemma getDiffString_double_empty: "getDiffString_double a b name = [] \<longleftrightarrow> same_tolerance a b"
  by (auto simp: getDiffString_double_def same_tolerance_def invalid_text_def in_quotes_def feq_def)

text \<open>
  The text of the differences is empty exactly when the properties are the same, which is the test
  for a configuration the integrator accepted without a change.
\<close>

lemma getDiffString_empty_iff:
  "getDiffString p q = [] \<longleftrightarrow> itype p = itype q \<and> iname p = iname q \<and> order p = order q \<and>
     same_tolerance (abstol p) (abstol q) \<and> same_tolerance (reltol p) (reltol q)"
  by (auto simp: getDiffString_def getDiffString_double_empty invalid_text_def in_quotes_def)

end
