(* ===== verification/Event_Predictor.thy ===== *)
theory Event_Predictor
  imports Event_Dispatcher Solver_Configuration
begin

text \<open>
  The multi-step predictor: \<open>model/EventPredictor\<close> and \<open>model/LazyEvent\<close>. It drives an incremental FMU
  of the library FMI++, which is a parameter: the record \<open>incremental_fmu_ops\<close> has the operations the
  program calls, and the locale \<open>incremental_fmu\<close> the documented behaviour the predictor relies on.

  A predicted event is lazy: its variables are read from the predictor when a listener asks for them,
  which moves the model to the predicted time. The calls of \<open>abs\<close> are taken as the floating-point
  overload.
\<close>

section \<open>The library\<close>

text \<open>
  A C array of outputs is a function on the index, \<open>None\<close> standing for the null pointer. The functions
  that define inputs and outputs exist once per type, the type is an argument here. \<open>fmu_start\<close> is the
  start time of the default experiment of the model description, \<open>props_differ\<close> the comparison of
  integrator properties.
\<close>

record 'm incremental_fmu_ops =
  new_solver :: "string \<Rightarrow> bool \<Rightarrow> double \<Rightarrow> int \<times> 'm"
  setIntegratorProperties :: "'m \<Rightarrow> integrator_properties \<Rightarrow> integrator_properties \<times> 'm"
  props_differ :: "integrator_properties \<Rightarrow> integrator_properties \<Rightarrow> bool"
  fmu_start :: "'m \<Rightarrow> double option"
  getTimeDiffResolution :: "'m \<Rightarrow> double"
  INVALID_FMI_TIME :: double
  define_outputs :: "fmi_type \<Rightarrow> 'm \<Rightarrow> string list \<Rightarrow> 'm"
  define_inputs :: "fmi_type \<Rightarrow> 'm \<Rightarrow> string list \<Rightarrow> 'm"
  solver_init :: "'m \<Rightarrow> string \<Rightarrow> string list \<times> double list \<Rightarrow> string list \<times> int32 list \<Rightarrow>
    string list \<times> byte list \<Rightarrow> string list \<times> string list \<Rightarrow> double \<Rightarrow> double \<Rightarrow> double \<Rightarrow> double \<Rightarrow> int \<times> 'm"
  predictState :: "'m \<Rightarrow> double \<Rightarrow> double \<times> 'm"
  updateState :: "'m \<Rightarrow> double \<Rightarrow> double \<times> 'm"
  updateStateFromTheRight :: "'m \<Rightarrow> double \<Rightarrow> double \<times> 'm"
  syncState :: "'m \<Rightarrow> double \<Rightarrow> double list \<Rightarrow> int32 list \<Rightarrow> byte list \<Rightarrow> string list \<Rightarrow> 'm"
  getRealOutputs :: "'m \<Rightarrow> (nat \<Rightarrow> double) option"
  getIntegerOutputs :: "'m \<Rightarrow> (nat \<Rightarrow> int32) option"
  getBooleanOutputs :: "'m \<Rightarrow> (nat \<Rightarrow> byte) option"
  getStringOutputs :: "'m \<Rightarrow> (nat \<Rightarrow> string) option"

definition fmiOK :: int where "fmiOK = 0"

section \<open>State\<close>

record 'm event_predictor =
  lowLevelFMU :: managed_fmu
  solver :: 'm
  outputIDs :: "port_id list list"
  lastPredictedEventTime :: double
  directOutputPending :: bool
  currentTime :: double
  outputEventVariables :: "variable list"
  outputEventVariablesPopulated :: bool
  inputIDs :: "port_id list list"
  realInputImage :: "double list"
  integerInputImage :: "int32 list"
  booleanInputImage :: "byte list"
  stringInputImage :: "string list"
  assumeDirectDependency :: bool

definition PROP_FMU_INSTANCE_NAME :: string where "PROP_FMU_INSTANCE_NAME = ''fmu.instanceName''"
definition PROP_DEFAULT_INPUT :: string where "PROP_DEFAULT_INPUT = PROP_IN @ ''.default.''"
definition PROP_DIRECT_DEPENDENCY :: string where "PROP_DIRECT_DEPENDENCY = ''app.directOutputDependency''"

definition rejected_text :: "integrator_properties \<Rightarrow> integrator_properties \<Rightarrow> string" where
  "rejected_text wanted got = ''The integration configuration was rejected: '' @ getDiffString wanted got"

definition EventPredictor ::
    "'m incremental_fmu_ops \<Rightarrow> model_manager \<Rightarrow> bool \<Rightarrow> 'p ptree_ops \<Rightarrow> 'p application_context \<Rightarrow> 'm event_predictor res" where
  "EventPredictor F mgr sundials P c =
     rbind (ManagedLowLevelFMU mgr P c) (\<lambda>fmu.
     rbind (SolverConfiguration sundials P c) (\<lambda>cfg.
       let (status, m) = new_solver F (modelIdentifier fmu) (fmuDebugging cfg) (eventSearchPrecision cfg) in
       if status \<noteq> fmiOK
       then Inl (InvalidArgument (''Can't load the incremental FMU '' @ quoted (modelIdentifier fmu) @
         '' in URL '' @ quoted (fmu_path fmu) @ '' Got FMI status code '' @ show_int status))
       else let (props, m') = setIntegratorProperties F m (solver_props cfg) in
       if props_differ F props (solver_props cfg)
       then Inl (InvalidArgument (rejected_text (solver_props cfg) props))
       else Inr \<lparr>lowLevelFMU = fmu, solver = m', outputIDs = replicate 5 [], lastPredictedEventTime = 0,
         directOutputPending = False, currentTime = 0, outputEventVariables = [],
         outputEventVariablesPopulated = False, inputIDs = replicate 5 [], realInputImage = [],
         integerInputImage = [], booleanInputImage = [], stringInputImage = [],
         assumeDirectDependency = False\<rparr>))"

definition configureDefaultApplicationContext ::
    "'m incremental_fmu_ops \<Rightarrow> 'p ptree_ops \<Rightarrow> 'm event_predictor \<Rightarrow> 'p application_context \<Rightarrow> 'p application_context" where
  "configureDefaultApplicationContext F P s c = addSensitiveDefaultProperties P c (fmu_start F (solver s))"

section \<open>Initialization\<close>

definition defineOutput ::
    "'m incremental_fmu_ops \<Rightarrow> 'p channel_mapping \<Rightarrow> fmi_type \<Rightarrow> 'm event_predictor \<Rightarrow> 'm event_predictor res" where
  "defineOutput F m ty s =
     rbind (getVariableNames m ty) (\<lambda>names.
     rbind (getVariableIDs m ty) (\<lambda>ids.
       let s1 = s\<lparr>outputIDs := (outputIDs s)[type_code ty := ids]\<rparr> in
       Inr (if names \<noteq> [] then s1\<lparr>solver := define_outputs F ty (solver s) names\<rparr> else s1)))"

definition unknown_type_error :: "string \<Rightarrow> exn" where
  "unknown_type_error msg = SystemConfigurationException msg None"

definition defineOutputs ::
    "'m incremental_fmu_ops \<Rightarrow> 'p channel_mapping \<Rightarrow> 'm event_predictor \<Rightarrow> 'm event_predictor res" where
  "defineOutputs F m s =
     rbind (defineOutput F m fmiTypeReal s) (\<lambda>s1.
     rbind (defineOutput F m fmiTypeInteger s1) (\<lambda>s2.
     rbind (defineOutput F m fmiTypeBoolean s2) (\<lambda>s3.
     rbind (defineOutput F m fmiTypeString s3) (\<lambda>s4.
     rbind (getVariableNames m fmiTypeUnknown) (\<lambda>names.
       if names \<noteq> [] then Inl (unknown_type_error ''Model variable of unknown type registered'') else Inr s4)))))"

text \<open>
  The initial values of the inputs of one type: the property with the name of the variable, or a
  default. A boolean of the library is a \<open>char\<close> and is read as one.
\<close>

definition as_char :: "'p ptree_ops \<Rightarrow> byte translator" where "as_char P = (''char'', parse_char P)"

fun input_image ::
    "'p ptree_ops \<Rightarrow> 'v translator \<Rightarrow> 'p application_context \<Rightarrow> 'v \<Rightarrow> string list \<Rightarrow> 'v list res" where
  "input_image P ty c dflt [] = Inr []"
| "input_image P ty c dflt (name # names) =
     rbind (getPropertyOr P ty c (PROP_DEFAULT_INPUT @ name) dflt) (\<lambda>v.
     rbind (input_image P ty c dflt names) (\<lambda>vs. Inr (v # vs)))"

definition defineInputs_typed ::
    "'m incremental_fmu_ops \<Rightarrow> 'p ptree_ops \<Rightarrow> 'v translator \<Rightarrow> 'p application_context \<Rightarrow> 'p channel_mapping \<Rightarrow> fmi_type \<Rightarrow>
     'v \<Rightarrow> ('v list \<Rightarrow> 'm event_predictor \<Rightarrow> 'm event_predictor) \<Rightarrow> 'm event_predictor \<Rightarrow> 'm event_predictor res" where
  "defineInputs_typed F P tr c m ty dflt set_image s =
     rbind (getVariableNames m ty) (\<lambda>names.
     rbind (getVariableIDs m ty) (\<lambda>ids.
     rbind (input_image P tr c dflt names) (\<lambda>img.
       Inr ((set_image img s)\<lparr>inputIDs := (inputIDs s)[type_code ty := ids],
         solver := define_inputs F ty (solver s) names\<rparr>))))"

definition defineInputs ::
    "'m incremental_fmu_ops \<Rightarrow> 'p ptree_ops \<Rightarrow> 'p application_context \<Rightarrow> 'p channel_mapping \<Rightarrow> 'm event_predictor \<Rightarrow>
     'm event_predictor res" where
  "defineInputs F P c m s =
     rbind (defineInputs_typed F P (as_double P) c m fmiTypeReal 0 (\<lambda>img. realInputImage_update (\<lambda>_. img)) s) (\<lambda>s1.
     rbind (defineInputs_typed F P (as_int P) c m fmiTypeInteger 0 (\<lambda>img. integerInputImage_update (\<lambda>_. img)) s1) (\<lambda>s2.
     rbind (defineInputs_typed F P (as_char P) c m fmiTypeBoolean 0 (\<lambda>img. booleanInputImage_update (\<lambda>_. img)) s2) (\<lambda>s3.
     rbind (defineInputs_typed F P as_string c m fmiTypeString [] (\<lambda>img. stringInputImage_update (\<lambda>_. img)) s3) (\<lambda>s4.
     rbind (getVariableNames m fmiTypeUnknown) (\<lambda>names.
       if names \<noteq> [] then Inl (unknown_type_error ''Model input variable of unknown type registered'') else Inr s4)))))"

definition initSolver ::
    "'m incremental_fmu_ops \<Rightarrow> 'p channel_mapping \<Rightarrow> string \<Rightarrow> double \<Rightarrow> double \<Rightarrow> double \<Rightarrow> double \<Rightarrow>
     'm event_predictor \<Rightarrow> 'm event_predictor res" where
  "initSolver F m instanceName startTime lookAheadHorizon lookAheadStepSize integratorStepSize s =
     rbind (getVariableNames m fmiTypeReal) (\<lambda>rs.
     rbind (getVariableNames m fmiTypeInteger) (\<lambda>is.
     rbind (getVariableNames m fmiTypeBoolean) (\<lambda>bs.
     rbind (getVariableNames m fmiTypeString) (\<lambda>ss.
     rbind (assert_that (length rs = length (realInputImage s) \<and> length is = length (integerInputImage s) \<and>
       length bs = length (booleanInputImage s) \<and> length ss = length (stringInputImage s) \<and>
       fle lookAheadStepSize lookAheadHorizon \<and> fle integratorStepSize lookAheadStepSize)) (\<lambda>_.
       let (err, m') = solver_init F (solver s) instanceName (rs, realInputImage s) (is, integerInputImage s)
         (bs, booleanInputImage s) (ss, stringInputImage s) startTime lookAheadHorizon lookAheadStepSize
         integratorStepSize in
       if err \<noteq> 1 then Inl (RuntimeError (''Can't initialize the ModelExchange FMU ('' @ show_int err @ '')''))
       else Inr (s\<lparr>solver := m'\<rparr>))))))"

text \<open>The step sizes: each defaults to a tenth of the next larger one, and none may exceed it.\<close>

definition ten :: double where "ten = 0x4024000000000000"

definition step_sizes :: "'p ptree_ops \<Rightarrow> 'p application_context \<Rightarrow> (double \<times> double \<times> double) res" where
  "step_sizes P c =
     rbind (getRealPositiveDoubleProperty P c PROP_LOOK_AHEAD_TIME) (\<lambda>horizon.
     rbind (getRealPositiveDoublePropertyOr P c PROP_LOOK_AHEAD_STEP_SIZE (fdiv horizon ten)) (\<lambda>stepSize.
     rbind (getRealPositiveDoublePropertyOr P c PROP_INTEGRATOR_STEP_SIZE (fdiv stepSize ten)) (\<lambda>integ.
       Inr (horizon, stepSize, integ))))"

definition check_step_sizes ::
    "'p ptree_ops \<Rightarrow> 'p application_context \<Rightarrow> double \<Rightarrow> double \<Rightarrow> double \<Rightarrow> unit res" where
  "check_step_sizes P c horizon stepSize integ =
     (if flt horizon stepSize
      then bad_property P c ''The look ahead step size exceeds the lookahead horizon'' PROP_LOOK_AHEAD_STEP_SIZE
      else if flt stepSize integ
      then bad_property P c ''The integrator step size exceeds the look ahead step size'' PROP_INTEGRATOR_STEP_SIZE
      else Inr ())"

text \<open>The first part of \<open>init\<close>: the properties it reads and the checks on them.\<close>

definition init_settings ::
    "'p ptree_ops \<Rightarrow> 'p application_context \<Rightarrow> string \<Rightarrow> (string \<times> double \<times> double \<times> double \<times> double \<times> bool) res" where
  "init_settings P c dflt =
     rbind (getPropertyOr P as_string c PROP_FMU_INSTANCE_NAME dflt) (\<lambda>name.
     rbind (getPositiveDoubleProperty P c PROP_START_TIME) (\<lambda>start.
     rbind (step_sizes P c) (\<lambda>(horizon, stepSize, integ).
     rbind (getPropertyOr P (as_bool P) c PROP_DIRECT_DEPENDENCY False) (\<lambda>dep.
     rbind (check_step_sizes P c horizon stepSize integ) (\<lambda>_.
       Inr (name, start, horizon, stepSize, integ, dep))))))"

definition predictor_init ::
    "'m incremental_fmu_ops \<Rightarrow> 'p ptree_ops \<Rightarrow> 'p application_context \<Rightarrow> 'm event_predictor \<Rightarrow>
     ('m event_predictor \<times> 'p application_context) res option" where
  "predictor_init F P c s =
     (case init_settings P c (modelIdentifier (lowLevelFMU s)) of
        Inl e \<Rightarrow> Some (Inl e)
      | Inr (name, start, horizon, stepSize, integ, dep) \<Rightarrow>
          let s0 = s\<lparr>assumeDirectDependency := dep, currentTime := start, lastPredictedEventTime := start,
            outputEventVariables := [], outputEventVariablesPopulated := False\<rparr> in
          Option.bind (getOutputChannelMapping P c) (\<lambda>ro. case ro of
            Inl e \<Rightarrow> Some (Inl e)
          | Inr (out, c1) \<Rightarrow>
              (case defineOutputs F out s0 of
                 Inl e \<Rightarrow> Some (Inl e)
               | Inr s1 \<Rightarrow> map_option (\<lambda>ri. rbind ri (\<lambda>(inp, c2).
                   rbind (defineInputs F P c2 inp s1) (\<lambda>s2.
                   rbind (initSolver F inp name start horizon stepSize integ s2) (\<lambda>s3. Inr (s3, c2)))))
                   (getInputChannelMapping P c1))))"

section \<open>Prediction\<close>

definition fetch_row :: "port_id list \<Rightarrow> (nat \<Rightarrow> 'v) option \<Rightarrow> ('v \<Rightarrow> any) \<Rightarrow> variable list res" where
  "fetch_row ids values mk =
     rbind (assert_that (length ids = 0 \<or> values \<noteq> None)) (\<lambda>_.
       Inr (map (\<lambda>i. setValue (setID empty_variable (ids ! i)) (mk (the values i))) [0..<length ids]))"

definition fetchOutputs :: "'m incremental_fmu_ops \<Rightarrow> 'm event_predictor \<Rightarrow> variable list res" where
  "fetchOutputs F s =
     rbind (assert_that (5 \<le> length (outputIDs s))) (\<lambda>_.
     rbind (fetch_row (outputIDs s ! 0) (getRealOutputs F (solver s)) AnyReal) (\<lambda>rs.
     rbind (fetch_row (outputIDs s ! 1) (getIntegerOutputs F (solver s)) AnyInt) (\<lambda>is.
     rbind (fetch_row (outputIDs s ! 2) (getBooleanOutputs F (solver s)) AnyBool) (\<lambda>bs.
     rbind (fetch_row (outputIDs s ! 3) (getStringOutputs F (solver s)) AnyString) (\<lambda>ss.
       Inr (rs @ is @ bs @ ss))))))"

definition predictNextFMIEvent :: "'m incremental_fmu_ops \<Rightarrow> 'm event_predictor \<Rightarrow> (event \<times> 'm event_predictor) res" where
  "predictNextFMIEvent F s =
     (let (nextEventTime, m) = predictState F (solver s) (currentTime s) in
      if feq nextEventTime (INVALID_FMI_TIME F)
      then Inl (SolverException ''Can't predict the next event.'' (currentTime s))
      else Inr (LazyEvent nextEventTime, s\<lparr>solver := m, outputEventVariables := [],
        outputEventVariablesPopulated := False, lastPredictedEventTime := nextEventTime\<rparr>))"

definition predictNextDirectDependency ::
    "'m incremental_fmu_ops \<Rightarrow> 'm event_predictor \<Rightarrow> (event \<times> 'm event_predictor) res" where
  "predictNextDirectDependency F s =
     rbind (fetchOutputs F s) (\<lambda>outVars.
     rbind (newStaticEvent (currentTime s) outVars) (\<lambda>ev. Inr (ev, s)))"

definition predictNext :: "'m incremental_fmu_ops \<Rightarrow> 'm event_predictor \<Rightarrow> (event \<times> 'm event_predictor) res" where
  "predictNext F s =
     rbind (if \<not> (assumeDirectDependency s \<and> directOutputPending s) then predictNextFMIEvent F s
            else predictNextDirectDependency F s) (\<lambda>(ev, s').
       Inr (ev, s'\<lparr>directOutputPending := False\<rparr>))"

definition two :: double where "two = 0x4000000000000000"

definition getOutputVariables ::
    "'m incremental_fmu_ops \<Rightarrow> 'm event_predictor \<Rightarrow> double \<Rightarrow> (variable list \<times> 'm event_predictor) res" where
  "getOutputVariables F s time =
     (let res = getTimeDiffResolution F (solver s) in
      rbind (assert_that (fle 0 time)) (\<lambda>_.
      rbind (assert_that (flt (fabs (fsub (lastPredictedEventTime s) time)) res)) (\<lambda>_.
      rbind (assert_that (fle (currentTime s) (fadd time res))) (\<lambda>_.
      rbind (assert_that (\<not> outputEventVariablesPopulated s \<or> feq (currentTime s) (lastPredictedEventTime s))) (\<lambda>_.
        let t = lastPredictedEventTime s in
        if \<not> outputEventVariablesPopulated s then
          rbind (assert_that (outputEventVariables s = [])) (\<lambda>_.
            let (updTime, m) = updateStateFromTheRight F (solver s) t in
            if flt (fmul two (getTimeDiffResolution F m)) (fabs (fsub updTime t))
            then Inl (SolverException ''Can't update the model's state'' t)
            else let s1 = s\<lparr>solver := m, currentTime := t\<rparr> in
              rbind (fetchOutputs F s1) (\<lambda>xs.
                Inr (xs, s1\<lparr>outputEventVariables := xs, outputEventVariablesPopulated := True\<rparr>)))
        else Inr (outputEventVariables s, s))))))"

text \<open>\<open>LazyEvent\<close>: the variables and the text of a lazy event, and the variables of any event.\<close>

definition lazy_getVariables ::
    "'m incremental_fmu_ops \<Rightarrow> 'm event_predictor \<Rightarrow> double \<Rightarrow> (variable list \<times> 'm event_predictor) res" where
  "lazy_getVariables F s t =
     (if flt (fadd t (getTimeDiffResolution F (solver s))) (currentTime s)
      then Inl (SolverException ''The event is outdated'' t)
      else rbind (getOutputVariables F s t) (\<lambda>(xs, s').
        rbind (vars_isValid xs) (\<lambda>ok. rbind (assert_that ok) (\<lambda>_. Inr (xs, s')))))"

definition lazy_toString :: "'m incremental_fmu_ops \<Rightarrow> 'm event_predictor \<Rightarrow> double \<Rightarrow> string res" where
  "lazy_toString F s t =
     rbind (if flt (fadd t (getTimeDiffResolution F (solver s))) (currentTime s) then Inr ''Event is outdated''
            else if \<not> outputEventVariablesPopulated s then Inr ''Event variables were not queried before''
            else vars_toString (outputEventVariables s)) (\<lambda>txt. Inr (event_head t @ '', '' @ txt))"

fun getVariables ::
    "'m incremental_fmu_ops \<Rightarrow> 'm event_predictor \<Rightarrow> event \<Rightarrow> (variable list \<times> 'm event_predictor) res" where
  "getVariables F s (StaticEvent t xs) = Inr (xs, s)"
| "getVariables F s (PartialEvent t tmpl xs n) = Inr (xs, s)"
| "getVariables F s (LazyEvent t) = lazy_getVariables F s t"

section \<open>Received events\<close>

text \<open>
  The inner loop of \<open>updateInputImage\<close> for one variable, and the loop over the variables. The image has
  as many elements as there are ports; an access beyond its end has no defined result.
\<close>

fun set_inputs :: "(any \<Rightarrow> 'v option) \<Rightarrow> variable \<Rightarrow> port_id list \<Rightarrow> 'v list \<Rightarrow> ('v list \<times> bool) res" where
  "set_inputs cast x [] img = Inr (img, False)"
| "set_inputs cast x (p # ps) [] = Inl AssertionFailed"
| "set_inputs cast x (p # ps) (v # vs) =
     rbind (if var_id x = p then
              rbind (getValue x) (\<lambda>a. case cast a of None \<Rightarrow> Inl BadAnyCast | Some w \<Rightarrow> Inr (w, True))
            else Inr (v, False)) (\<lambda>(w, found).
     rbind (set_inputs cast x ps vs) (\<lambda>(ws, found'). Inr (w # ws, found \<or> found')))"

fun update_image :: "(any \<Rightarrow> 'v option) \<Rightarrow> port_id list \<Rightarrow> variable list \<Rightarrow> 'v list \<Rightarrow> ('v list \<times> bool) res" where
  "update_image cast ports [] img = Inr (img, False)"
| "update_image cast ports (x # xs) img =
     rbind (set_inputs cast x ports img) (\<lambda>(img1, found).
     rbind (update_image cast ports xs img1) (\<lambda>(img2, found'). Inr (img2, found \<or> found')))"

fun any_real :: "any \<Rightarrow> double option" where
  "any_real (AnyReal r) = Some r"
| "any_real _ = None"

fun any_int :: "any \<Rightarrow> int32 option" where
  "any_int (AnyInt i) = Some i"
| "any_int _ = None"

fun any_bool :: "any \<Rightarrow> byte option" where
  "any_bool (AnyBool b) = Some b"
| "any_bool _ = None"

fun any_string :: "any \<Rightarrow> string option" where
  "any_string (AnyString s) = Some s"
| "any_string _ = None"

text \<open>Each of the four calls reads the variables of the event anew.\<close>

definition updateInputImage ::
    "'m incremental_fmu_ops \<Rightarrow> 'm event_predictor \<Rightarrow> event \<Rightarrow> (bool \<times> 'm event_predictor) res" where
  "updateInputImage F s ev =
     rbind (getVariables F s ev) (\<lambda>(xs, s1).
     rbind (update_image any_real (inputIDs s1 ! 0) xs (realInputImage s1)) (\<lambda>(rs, f1).
     rbind (getVariables F (s1\<lparr>realInputImage := rs\<rparr>) ev) (\<lambda>(ys, s2).
     rbind (update_image any_int (inputIDs s2 ! 1) ys (integerInputImage s2)) (\<lambda>(is, f2).
     rbind (getVariables F (s2\<lparr>integerInputImage := is\<rparr>) ev) (\<lambda>(zs, s3).
     rbind (update_image any_bool (inputIDs s3 ! 2) zs (booleanInputImage s3)) (\<lambda>(bs, f3).
     rbind (getVariables F (s3\<lparr>booleanInputImage := bs\<rparr>) ev) (\<lambda>(us, s4).
     rbind (update_image any_string (inputIDs s4 ! 3) us (stringInputImage s4)) (\<lambda>(ss, f4).
       Inr (f1 \<or> f2 \<or> f3 \<or> f4, s4\<lparr>stringInputImage := ss\<rparr>)))))))))"

text \<open>The time at which a received event is applied to the model.\<close>

definition align_time :: "double \<Rightarrow> double \<Rightarrow> double \<Rightarrow> double" where
  "align_time res cur t =
     (let t1 = if flt t (fsub cur res) then cur else t in
      if fle (fsub cur res) t1 \<and> fle t1 (fadd cur res) then cur else t1)"

definition predictor_eventTriggered ::
    "'m incremental_fmu_ops \<Rightarrow> 'm event_predictor \<Rightarrow> event \<Rightarrow> 'm event_predictor res" where
  "predictor_eventTriggered F s ev =
     rbind (updateInputImage F s ev) (\<lambda>(imageUpdated, s1).
       if imageUpdated then
         let eventTime = align_time (getTimeDiffResolution F (solver s1)) (currentTime s1) (getTime ev);
             (updTime, m) = updateState F (solver s1) eventTime in
         rbind (assert_that (feq updTime eventTime)) (\<lambda>_.
           Inr (s1\<lparr>solver := syncState F m eventTime (realInputImage s1) (integerInputImage s1)
               (booleanInputImage s1) (stringInputImage s1),
             currentTime := eventTime, outputEventVariables := [], outputEventVariablesPopulated := False,
             lastPredictedEventTime := eventTime, directOutputPending := True\<rparr>))
       else Inr s1)"

section \<open>The laws of the library\<close>

text \<open>
  \<open>covers m t\<close>: the state of the model is defined at time \<open>t\<close> and can be updated to it. A prediction
  covers the times from its start to the predicted event; an update, a synchronization and the
  initialization cover the time they are made for. \<open>supplies m ty\<close>: outputs of the type are defined,
  which every later operation keeps.
\<close>

definition supply_of :: "'m incremental_fmu_ops \<Rightarrow> 'm \<Rightarrow> fmi_type \<Rightarrow> bool" where
  "supply_of F m ty = (case ty of
     fmiTypeReal \<Rightarrow> getRealOutputs F m \<noteq> None
   | fmiTypeInteger \<Rightarrow> getIntegerOutputs F m \<noteq> None
   | fmiTypeBoolean \<Rightarrow> getBooleanOutputs F m \<noteq> None
   | fmiTypeString \<Rightarrow> getStringOutputs F m \<noteq> None
   | fmiTypeUnknown \<Rightarrow> True)"

locale incremental_fmu =
  fixes F :: "'m incremental_fmu_ops"
    and covers :: "'m \<Rightarrow> double \<Rightarrow> bool"
    and supplies :: "'m \<Rightarrow> fmi_type \<Rightarrow> bool"
  assumes resolution: "isfin (getTimeDiffResolution F m) \<and> flt 0 (getTimeDiffResolution F m)"
    and predict_covers: "covers m t \<Longrightarrow> isfin t \<Longrightarrow> predictState F m t = (t', m') \<Longrightarrow>
      \<not> feq t' (INVALID_FMI_TIME F) \<Longrightarrow>
      isfin t' \<and> fle t t' \<and> (\<forall>u. fle t u \<longrightarrow> fle u t' \<longrightarrow> covers m' u)"
    and update_exact: "covers m t \<Longrightarrow> feq (fst (updateState F m t)) t"
    and update_covers: "covers m t \<Longrightarrow> covers (snd (updateState F m t)) t"
    and right_covers: "covers m t \<Longrightarrow> covers (snd (updateStateFromTheRight F m t)) t"
    and sync_covers: "covers m t \<Longrightarrow> covers (syncState F m t rs is bs ss) t"
    and init_covers: "solver_init F m name ri ii bi si start h l i = (1, m') \<Longrightarrow> covers m' start"
    and supplied: "supplies m ty \<Longrightarrow> supply_of F m ty"
    and define_supplies: "supplies (define_outputs F ty m names) ty"
    and supplies_define: "supplies m ty \<Longrightarrow> supplies (define_outputs F ty' m names) ty"
    and supplies_inputs: "supplies m ty \<Longrightarrow> supplies (define_inputs F ty' m names) ty"
    and supplies_init: "supplies m ty \<Longrightarrow> supplies (snd (solver_init F m name ri ii bi si start h l i)) ty"
    and supplies_predict: "supplies m ty \<Longrightarrow> supplies (snd (predictState F m t)) ty"
    and supplies_update: "supplies m ty \<Longrightarrow> supplies (snd (updateState F m t)) ty"
    and supplies_right: "supplies m ty \<Longrightarrow> supplies (snd (updateStateFromTheRight F m t)) ty"
    and supplies_sync: "supplies m ty \<Longrightarrow> supplies (syncState F m t rs is bs ss) ty"

section \<open>Input images\<close>

lemma set_inputs_other:
  "var_id x \<notin> set ps \<Longrightarrow> length ps = length vs \<Longrightarrow> set_inputs cast x ps vs = Inr (vs, False)"
  by (induction cast x ps vs rule: set_inputs.induct) auto

lemma update_image_other:
  "var_id ` set xs \<inter> set ps = {} \<Longrightarrow> length ps = length img \<Longrightarrow> update_image cast ps xs img = Inr (img, False)"
  by (induction xs) (auto simp: set_inputs_other)

definition casts :: "(any \<Rightarrow> 'v option) \<Rightarrow> fmi_type \<Rightarrow> bool" where
  "casts cast ty \<longleftrightarrow> (\<forall>v. any_has_type ty v \<longrightarrow> cast v \<noteq> None)"

lemma casts_simps: "casts any_real fmiTypeReal" "casts any_int fmiTypeInteger" "casts any_bool fmiTypeBoolean"
  "casts any_string fmiTypeString"
  by (simp_all add: casts_def split: any.splits)

text \<open>The images after an event with valid variables: the last value of each port, if there is one.\<close>

definition new_input :: "(any \<Rightarrow> 'v option) \<Rightarrow> variable list \<Rightarrow> port_id \<Rightarrow> 'v \<Rightarrow> 'v" where
  "new_input cast xs p v = (case last_value xs p of None \<Rightarrow> v | Some a \<Rightarrow> the (cast a))"

lemma set_inputs_spec:
  assumes "casts cast ty" and "var_isValid x" and "\<forall>p\<in>set ps. fst p = ty" and "length ps = length vs"
  shows "set_inputs cast x ps vs =
    Inr (map2 (\<lambda>p v. if var_id x = p then the (cast (var_data x)) else v) ps vs, var_id x \<in> set ps)"
  using assms
proof (induction cast x ps vs rule: set_inputs.induct)
  case (3 cast x p ps v vs)
  have "\<exists>w. cast (var_data x) = Some w" if "var_id x = p"
    using 3 that by (auto simp: casts_def var_isValid_def)
  with 3 show ?case by (auto simp: getValue_def)
qed simp_all

lemma update_image_spec:
  assumes "casts cast ty" and "list_all var_isValid xs" and "\<forall>p\<in>set ps. fst p = ty" and "length ps = length img"
  shows "update_image cast ps xs img = Inr (map2 (new_input cast xs) ps img, \<exists>x\<in>set xs. var_id x \<in> set ps)"
  using assms
proof (induction xs arbitrary: img)
  case Nil
  have "map2 (new_input cast []) ps img = img"
    using Nil.prems(4) by (induction ps img rule: list_induct2) (simp_all add: new_input_def last_value_def)
  then show ?case by simp
next
  case (Cons x xs)
  let ?g = "\<lambda>p v. if var_id x = p then the (cast (var_data x)) else v"
  have "map2 (new_input cast xs) ps (map2 ?g ps img) = map2 (new_input cast (x # xs)) ps img"
    using Cons.prems(4)
    by (induction ps img rule: list_induct2) (auto simp: new_input_def last_value_Cons split: option.splits)
  moreover have "update_image cast ps xs (map2 ?g ps img) =
      Inr (map2 (new_input cast xs) ps (map2 ?g ps img), \<exists>x\<in>set xs. var_id x \<in> set ps)"
    using Cons by simp
  ultimately show ?case using set_inputs_spec [OF Cons.prems(1) _ Cons.prems(3,4), of x] Cons.prems(2) by simp
qed

section \<open>Times\<close>

lemma isfin_between: "isfin a \<Longrightarrow> isfin c \<Longrightarrow> fle a b \<Longrightarrow> fle b c \<Longrightarrow> isfin b"
  by (auto simp: isfin_iff fle_def isinf_def isnan_def dkey_def split: if_splits)

lemma flt_dkey: "flt 0 r \<Longrightarrow> 0 \<le> dkey r"
  by (simp add: flt_def dkey_def fp_eval split: if_splits)

lemma align_time_cases:
  assumes "isfin res" and "flt 0 res" and "\<not> isnan cur" and "\<not> isnan t"
  shows "align_time res cur t = cur \<or> align_time res cur t = t \<and> fle cur t"
    and "fle t cur \<Longrightarrow> align_time res cur t = cur"
proof -
  note o = tolerance_order_finite [OF assms(1) flt_dkey [OF assms(2)]]
  note n = tolerance_order.up_num [OF o assms(3)] tolerance_order.dn_num [OF o assms(3)]
  note le = tolerance_order.up_infl [OF o assms(3)] tolerance_order.dn_defl [OF o assms(3)]
  have below: "fle (fsub cur res) t" if "\<not> flt t (fsub cur res)"
    using that dtime.not_le [OF n(2) assms(4)] by blast
  have "fle t (fadd cur res)" if "fle t cur" using dtime.le_trans [OF that le(1)] .
  moreover have "fle cur (fadd cur res)" "fle (fsub cur res) cur" using le by simp_all
  ultimately show "fle t cur \<Longrightarrow> align_time res cur t = cur"
    using below by (simp add: align_time_def Let_def)
  moreover have "fle t cur \<or> fle cur t" using assms(3,4) by (rule dtime.le_total [rotated])
  moreover have "\<not> flt t (fsub cur res)" if "fle cur t"
    using dtime.le_trans [OF le(2) that] dtime.not_le [OF n(2) assms(4)] by blast
  ultimately show "align_time res cur t = cur \<or> align_time res cur t = t \<and> fle cur t"
    by (auto simp: align_time_def Let_def)
qed

section \<open>The invariant of the predictor\<close>

definition typed_rows :: "port_id list list \<Rightarrow> bool" where
  "typed_rows rows \<longleftrightarrow> length rows = 5 \<and> (\<forall>ty. \<forall>i\<in>set (rows ! type_code ty). fst i = ty)"

definition images_ok :: "'m event_predictor \<Rightarrow> bool" where
  "images_ok s \<longleftrightarrow> length (inputIDs s ! 0) = length (realInputImage s) \<and>
     length (inputIDs s ! 1) = length (integerInputImage s) \<and>
     length (inputIDs s ! 2) = length (booleanInputImage s) \<and>
     length (inputIDs s ! 3) = length (stringInputImage s)"

text \<open>The well-formed states: typed and disjoint ports, images of the right size, outputs defined.\<close>

definition predictor_wf :: "('m \<Rightarrow> fmi_type \<Rightarrow> bool) \<Rightarrow> 'm event_predictor \<Rightarrow> bool" where
  "predictor_wf supplies s \<longleftrightarrow> typed_rows (outputIDs s) \<and> typed_rows (inputIDs s) \<and> images_ok s \<and>
     set (concat (outputIDs s)) \<inter> set (concat (inputIDs s)) = {} \<and>
     (\<forall>ty. ty \<noteq> fmiTypeUnknown \<longrightarrow> outputIDs s ! type_code ty \<noteq> [] \<longrightarrow> supplies (solver s) ty)"

definition predictor_ready ::
    "('m \<Rightarrow> double \<Rightarrow> bool) \<Rightarrow> ('m \<Rightarrow> fmi_type \<Rightarrow> bool) \<Rightarrow> 'm event_predictor \<Rightarrow> bool" where
  "predictor_ready covers supplies s \<longleftrightarrow> predictor_wf supplies s \<and> isfin (currentTime s) \<and> fle 0 (currentTime s) \<and>
     covers (solver s) (currentTime s)"

definition output_vars :: "'m event_predictor \<Rightarrow> variable list \<Rightarrow> bool" where
  "output_vars s xs \<longleftrightarrow> list_all var_isValid xs \<and> var_id ` set xs \<subseteq> set (concat (outputIDs s))"

text \<open>
  The state that offers a prediction: a lazy event at the last predicted time, of which the variables
  are read already or can be, or the outputs at the current time.
\<close>

definition predictor_offers ::
    "('m \<Rightarrow> double \<Rightarrow> bool) \<Rightarrow> ('m \<Rightarrow> fmi_type \<Rightarrow> bool) \<Rightarrow> 'm event_predictor \<Rightarrow> event \<Rightarrow> bool" where
  "predictor_offers covers supplies s ev \<longleftrightarrow> predictor_ready covers supplies s \<and>
     (case ev of
        LazyEvent t \<Rightarrow> lastPredictedEventTime s = t \<and> isfin t \<and> fle (currentTime s) t \<and>
          (if outputEventVariablesPopulated s then currentTime s = t \<and> output_vars s (outputEventVariables s)
           else outputEventVariables s = [] \<and> (\<forall>u. fle (currentTime s) u \<longrightarrow> fle u t \<longrightarrow> covers (solver s) u))
      | StaticEvent t xs \<Rightarrow> t = currentTime s \<and> output_vars s xs
      | PartialEvent _ _ _ _ \<Rightarrow> False)"

lemma typed_rowsD: "typed_rows rows \<Longrightarrow> i \<in> set (rows ! type_code ty) \<Longrightarrow> fst i = ty"
  by (simp add: typed_rows_def)

lemma typed_rows_nth:
  assumes "typed_rows rows"
  shows "\<forall>i\<in>set (rows ! 0). fst i = fmiTypeReal" "\<forall>i\<in>set (rows ! 1). fst i = fmiTypeInteger"
    "\<forall>i\<in>set (rows ! 2). fst i = fmiTypeBoolean" "\<forall>i\<in>set (rows ! 3). fst i = fmiTypeString"
  using typed_rowsD [OF assms, of _ fmiTypeReal] typed_rowsD [OF assms, of _ fmiTypeInteger]
    typed_rowsD [OF assms, of _ fmiTypeBoolean] typed_rowsD [OF assms, of _ fmiTypeString] by auto

lemma set_nth_concat: "k < length rows \<Longrightarrow> set (rows ! k) \<subseteq> set (concat rows)"
  using nth_mem [of k rows] by (simp add: UN_upper)

lemma typed_rows_concat:
  assumes "typed_rows rows" and "k < 5"
  shows "set (rows ! k) \<subseteq> set (concat rows)"
  using assms by (intro set_nth_concat) (simp add: typed_rows_def)

lemma fetch_row_outcome:
  assumes "ids \<noteq> [] \<Longrightarrow> values \<noteq> None" and "\<forall>i\<in>set ids. fst i = ty" and "\<And>v. any_has_type ty (mk v)"
  shows "outcome E (\<lambda>xs. list_all var_isValid xs \<and> var_id ` set xs \<subseteq> set ids) (fetch_row ids values mk)"
  using assms
  by (auto simp: fetch_row_def assert_that_def list_all_iff var_isValid_def setValue_def setID_def)

text \<open>What an external event does to the inputs.\<close>

fun event_vars :: "event \<Rightarrow> variable list" where
  "event_vars (StaticEvent t xs) = xs"
| "event_vars (PartialEvent t tmpl xs n) = xs"
| "event_vars (LazyEvent t) = []"

definition apply_inputs :: "variable list \<Rightarrow> 'm event_predictor \<Rightarrow> 'm event_predictor" where
  "apply_inputs xs s = s\<lparr>realInputImage := map2 (new_input any_real xs) (inputIDs s ! 0) (realInputImage s),
     integerInputImage := map2 (new_input any_int xs) (inputIDs s ! 1) (integerInputImage s),
     booleanInputImage := map2 (new_input any_bool xs) (inputIDs s ! 2) (booleanInputImage s),
     stringInputImage := map2 (new_input any_string xs) (inputIDs s ! 3) (stringInputImage s)\<rparr>"

definition is_input :: "'m event_predictor \<Rightarrow> variable list \<Rightarrow> bool" where
  "is_input s xs \<longleftrightarrow> (\<exists>x\<in>set xs. var_id x \<in> set (inputIDs s ! 0) \<or> var_id x \<in> set (inputIDs s ! 1) \<or>
     var_id x \<in> set (inputIDs s ! 2) \<or> var_id x \<in> set (inputIDs s ! 3))"

definition synced ::
    "'m incremental_fmu_ops \<Rightarrow> 'm event_predictor \<Rightarrow> double \<Rightarrow> 'm event_predictor" where
  "synced F s t = s\<lparr>solver := syncState F (snd (updateState F (solver s) t)) t (realInputImage s) (integerInputImage s)
       (booleanInputImage s) (stringInputImage s),
     currentTime := t, outputEventVariables := [], outputEventVariablesPopulated := False,
     lastPredictedEventTime := t, directOutputPending := True\<rparr>"

text \<open>The exceptions of the solver that leave the predictor.\<close>

fun predictor_fails :: "exn \<Rightarrow> bool" where
  "predictor_fails (SolverException msg t) \<longleftrightarrow>
     msg = ''Can't predict the next event.'' \<or> msg = ''Can't update the model's state''"
| "predictor_fails _ \<longleftrightarrow> False"

lemma valid_time_nonneg: "fle 0 t \<Longrightarrow> valid_time t"
proof -
  have "fle neg_DBL_MAX 0" by (simp add: fp_eval neg_DBL_MAX_def)
  then show "fle 0 t \<Longrightarrow> valid_time t" unfolding valid_time_def using dtime.le_trans by blast
qed

lemma isfin_num: "isfin t \<Longrightarrow> \<not> isnan t"
  by (simp add: isfin_iff)

context incremental_fmu
begin

abbreviation "ready \<equiv> predictor_ready covers supplies"
abbreviation "offers \<equiv> predictor_offers covers supplies"

lemma fetchOutputs_outcome:
  assumes "predictor_wf supplies s"
  shows "outcome E (output_vars s) (fetchOutputs F s)"
proof -
  have t: "typed_rows (outputIDs s)" using assms by (simp add: predictor_wf_def)
  have "outputIDs s ! type_code ty \<noteq> [] \<Longrightarrow> ty \<noteq> fmiTypeUnknown \<Longrightarrow> supply_of F (solver s) ty" for ty
    using assms supplied by (simp add: predictor_wf_def)
  from this [of fmiTypeReal] this [of fmiTypeInteger] this [of fmiTypeBoolean] this [of fmiTypeString]
  have sup: "outputIDs s ! 0 \<noteq> [] \<Longrightarrow> getRealOutputs F (solver s) \<noteq> None"
    "outputIDs s ! 1 \<noteq> [] \<Longrightarrow> getIntegerOutputs F (solver s) \<noteq> None"
    "outputIDs s ! 2 \<noteq> [] \<Longrightarrow> getBooleanOutputs F (solver s) \<noteq> None"
    "outputIDs s ! 3 \<noteq> [] \<Longrightarrow> getStringOutputs F (solver s) \<noteq> None"
    by (simp_all add: supply_of_def)
  note n = typed_rows_nth [OF t] and c = typed_rows_concat [OF t]
  have rows: "outcome E (\<lambda>xs. list_all var_isValid xs \<and> var_id ` set xs \<subseteq> set (outputIDs s ! 0))
      (fetch_row (outputIDs s ! 0) (getRealOutputs F (solver s)) AnyReal)"
    "outcome E (\<lambda>xs. list_all var_isValid xs \<and> var_id ` set xs \<subseteq> set (outputIDs s ! 1))
      (fetch_row (outputIDs s ! 1) (getIntegerOutputs F (solver s)) AnyInt)"
    "outcome E (\<lambda>xs. list_all var_isValid xs \<and> var_id ` set xs \<subseteq> set (outputIDs s ! 2))
      (fetch_row (outputIDs s ! 2) (getBooleanOutputs F (solver s)) AnyBool)"
    "outcome E (\<lambda>xs. list_all var_isValid xs \<and> var_id ` set xs \<subseteq> set (outputIDs s ! 3))
      (fetch_row (outputIDs s ! 3) (getStringOutputs F (solver s)) AnyString)"
    by (rule fetch_row_outcome [OF sup(1) n(1)] fetch_row_outcome [OF sup(2) n(2)]
        fetch_row_outcome [OF sup(3) n(3)] fetch_row_outcome [OF sup(4) n(4)]; simp)+
  have "5 \<le> length (outputIDs s)" using t by (simp add: typed_rows_def)
  then show ?thesis unfolding fetchOutputs_def
    by (intro outcome_bind_assert outcome_bind [OF rows(1)] outcome_bind [OF rows(2)]
        outcome_bind [OF rows(3)] outcome_bind [OF rows(4)])
      (use c [of 0] c [of 1] c [of 2] c [of 3] in \<open>auto simp: output_vars_def image_Un\<close>)
qed

lemma offers_ready: "offers s ev \<Longrightarrow> ready s"
  by (simp add: predictor_offers_def)

lemma predictNext_outcome:
  assumes "ready s"
  shows "outcome predictor_fails (\<lambda>(ev, s'). offers s' ev \<and> valid_time (getTime ev)) (predictNext F s)"
proof (cases "assumeDirectDependency s \<and> directOutputPending s")
  case True
  have "outcome predictor_fails (output_vars s) (fetchOutputs F s)"
    using assms by (intro fetchOutputs_outcome) (simp add: predictor_ready_def)
  then show ?thesis using True assms valid_time_nonneg
    by (cases "fetchOutputs F s")
      (auto simp: predictNext_def predictNextDirectDependency_def newStaticEvent_def vars_isValid_iff [THEN iffD2]
        output_vars_def predictor_offers_def predictor_ready_def predictor_wf_def images_ok_def)
next
  case False
  obtain t m where p: "predictState F (solver s) (currentTime s) = (t, m)" by fastforce
  show ?thesis
  proof (cases "feq t (INVALID_FMI_TIME F)")
    case True
    with False p show ?thesis by (auto simp: predictNext_def predictNextFMIEvent_def)
  next
    case valid: False
    have r: "covers (solver s) (currentTime s)" "isfin (currentTime s)" "fle 0 (currentTime s)" "predictor_wf supplies s"
      using assms by (simp_all add: predictor_ready_def)
    note c = predict_covers [OF r(1,2) p valid]
    have "fle 0 t" using r(3) c dtime.le_trans by blast
    moreover have "fle (currentTime s) (currentTime s)" using r(2) isfin_num dtime.le_refl by blast
    moreover have "supplies m ty" if "supplies (solver s) ty" for ty
      using supplies_predict [OF that, of "currentTime s"] p by simp
    ultimately show ?thesis using False p valid c r valid_time_nonneg
      by (auto simp: predictNext_def predictNextFMIEvent_def predictor_offers_def predictor_ready_def
          predictor_wf_def images_ok_def)
  qed
qed

text \<open>Reading a lazy event settles the model, and keeps the inputs and the ports.\<close>

definition same_inputs :: "'m event_predictor \<Rightarrow> 'm event_predictor \<Rightarrow> bool" where
  "same_inputs s s' \<longleftrightarrow> outputIDs s' = outputIDs s \<and> inputIDs s' = inputIDs s \<and> realInputImage s' = realInputImage s \<and>
     integerInputImage s' = integerInputImage s \<and> booleanInputImage s' = booleanInputImage s \<and>
     stringInputImage s' = stringInputImage s"

lemma settle_outcome:
  assumes "offers s (LazyEvent t)" and "\<not> outputEventVariablesPopulated s"
    and "updateStateFromTheRight F (solver s) t = (u, m)"
  shows "outcome E (\<lambda>xs. offers (s\<lparr>solver := m, currentTime := t, outputEventVariables := xs,
      outputEventVariablesPopulated := True\<rparr>) (LazyEvent t) \<and> output_vars s xs)
    (fetchOutputs F (s\<lparr>solver := m, currentTime := t\<rparr>))"
proof -
  let ?s = "s\<lparr>solver := m, currentTime := t\<rparr>"
  have o: "predictor_wf supplies s" "isfin (currentTime s)" "fle 0 (currentTime s)" "lastPredictedEventTime s = t"
      "isfin t" "fle (currentTime s) t" "covers (solver s) t"
    using assms(1,2) dtime.le_refl isfin_num by (auto simp: predictor_offers_def predictor_ready_def)
  have "supplies m ty" if "supplies (solver s) ty" for ty using supplies_right [OF that, of t] assms(3) by simp
  then have wf: "predictor_wf supplies ?s" using o(1) by (auto simp: predictor_wf_def images_ok_def)
  moreover have "covers m t" using right_covers [OF o(7)] assms(3) by simp
  moreover have "fle 0 t" "fle t t" using o dtime.le_trans dtime.le_refl isfin_num by blast+
  ultimately show ?thesis using o
    by (intro outcome_mono [OF fetchOutputs_outcome [OF wf]])
      (auto simp: predictor_offers_def predictor_ready_def predictor_wf_def images_ok_def output_vars_def)
qed

lemma getOutputVariables_outcome:
  assumes "offers s (LazyEvent t)"
  shows "outcome predictor_fails (\<lambda>(xs, s'). offers s' (LazyEvent t) \<and> output_vars s' xs \<and> same_inputs s s')
    (getOutputVariables F s t)"
proof -
  let ?r = "getTimeDiffResolution F (solver s)"
  have o: "predictor_wf supplies s" "isfin (currentTime s)" "fle 0 (currentTime s)" "lastPredictedEventTime s = t"
      "isfin t" "fle (currentTime s) t"
    using assms by (auto simp: predictor_offers_def predictor_ready_def)
  note tol = tolerance_order.up_infl [OF tolerance_order_finite]
  have a: "fle 0 t" "flt (fabs (fsub t t)) ?r" "fle (currentTime s) (fadd t ?r)" "feq t t"
    using o dtime.le_trans flt_fabs_fsub_self resolution [of "solver s"] tol [of ?r t] flt_dkey isfin_num
    by (blast, blast, blast, simp add: feq_def)
  show ?thesis
  proof (cases "outputEventVariablesPopulated s")
    case True
    then have "currentTime s = t" "output_vars s (outputEventVariables s)"
      using assms by (simp_all add: predictor_offers_def)
    with True a o assms show ?thesis
      by (simp add: getOutputVariables_def Let_def same_inputs_def)
  next
    case False
    then have e: "outputEventVariables s = []" using assms by (simp add: predictor_offers_def)
    obtain u m where u: "updateStateFromTheRight F (solver s) t = (u, m)" by fastforce
    note f = settle_outcome [OF assms False u, of predictor_fails]
    show ?thesis
      using a o(4) e u False f
      by (cases "fetchOutputs F (s\<lparr>solver := m, currentTime := t\<rparr>)")
        (auto simp: getOutputVariables_def Let_def same_inputs_def output_vars_def)
  qed
qed

lemma lazy_outcome:
  assumes "offers s (LazyEvent t)"
  shows "outcome predictor_fails (\<lambda>(xs, s'). offers s' (LazyEvent t) \<and> output_vars s' xs \<and> same_inputs s s')
    (lazy_getVariables F s t)"
proof -
  let ?r = "getTimeDiffResolution F (solver s)"
  have "isfin t" "fle (currentTime s) t" using assms by (auto simp: predictor_offers_def)
  then have "fle (currentTime s) (fadd t ?r)"
    using tolerance_order.up_infl [OF tolerance_order_finite, of ?r t] resolution [of "solver s"] flt_dkey isfin_num
      dtime.le_trans by blast
  then have "\<not> flt (fadd t ?r) (currentTime s)" by (simp add: fcmp_defs)
  then show ?thesis using getOutputVariables_outcome [OF assms]
    by (cases "getOutputVariables F s t")
      (auto simp: lazy_getVariables_def vars_isValid_iff [THEN iffD2] output_vars_def)
qed

lemma getOutputVariables_fails:
  assumes "offers s (LazyEvent t)" and "getOutputVariables F s t = Inl e"
  shows "e = SolverException ''Can't update the model's state'' t"
proof -
  have l: "lastPredictedEventTime s = t" using assms(1) by (simp add: predictor_offers_def)
  have "predictor_fails e" using getOutputVariables_outcome [OF assms(1)] assms(2) by simp
  moreover have "fetchOutputs F (s\<lparr>solver := m, currentTime := t\<rparr>) \<noteq> Inl e"
    if "\<not> outputEventVariablesPopulated s" "updateStateFromTheRight F (solver s) t = (u, m)" for u m
    using settle_outcome [OF assms(1) that, of "\<lambda>_. False"] by auto
  ultimately show ?thesis using assms(2) l
    by (auto simp: getOutputVariables_def Let_def assert_that_def rbind_Inl_iff split: if_splits prod.splits)
qed

text \<open>A settled event reads the same again.\<close>

lemma getOutputVariables_settled:
  assumes "getOutputVariables F s t = Inr (xs, s')" and "offers s (LazyEvent t)"
  shows "outputEventVariablesPopulated s' \<and> outputEventVariables s' = xs"
  using assms(1)
  by (auto simp: getOutputVariables_def Let_def res_simps split: if_splits prod.splits)

lemma getOutputVariables_populated:
  assumes "offers s (LazyEvent t)" and "outputEventVariablesPopulated s"
  shows "getOutputVariables F s t = Inr (outputEventVariables s, s)"
  using getOutputVariables_outcome [OF assms(1)] getOutputVariables_fails [OF assms(1)] assms(2)
  by (auto simp: getOutputVariables_def Let_def assert_that_def split: if_splits)

lemma lazy_settles:
  assumes "offers s (LazyEvent t)"
  shows "case lazy_getVariables F s t of
     Inl e \<Rightarrow> e = SolverException ''Can't update the model's state'' t
   | Inr (xs, s') \<Rightarrow> output_vars s xs \<and> currentTime s' = t \<and> offers s' (LazyEvent t) \<and>
       lazy_getVariables F s' t = Inr (xs, s')"
proof (cases "lazy_getVariables F s t")
  case (Inl e)
  then show ?thesis
    using lazy_outcome [OF assms] getOutputVariables_fails [OF assms] getOutputVariables_outcome [OF assms]
    by (auto simp: lazy_getVariables_def rbind_Inl_iff vars_isValid_iff [THEN iffD2] output_vars_def split: if_splits)
next
  case (Inr r)
  obtain xs s' where r: "r = (xs, s')" by fastforce
  have o: "offers s' (LazyEvent t)" "output_vars s' xs" "same_inputs s s'" using lazy_outcome [OF assms] Inr r by auto
  have g: "getOutputVariables F s t = Inr (xs, s')"
    using Inr r by (auto simp: lazy_getVariables_def res_simps split: if_splits)
  note p = getOutputVariables_settled [OF g assms]
  have "lazy_getVariables F s' t = Inr (xs, s')"
    using lazy_outcome [OF o(1)] getOutputVariables_populated [OF o(1)] p o(2)
    by (auto simp: lazy_getVariables_def vars_isValid_iff [THEN iffD2] output_vars_def split: if_splits)
  moreover have "currentTime s' = t" using o(1) p by (simp add: predictor_offers_def)
  ultimately show ?thesis using Inr r o by (simp add: output_vars_def same_inputs_def)
qed

lemma read_outcome:
  assumes "offers s ev"
  shows "outcome predictor_fails (\<lambda>(xs, s'). offers s' ev \<and> output_vars s' xs \<and> same_inputs s s') (getVariables F s ev)"
  using assms lazy_outcome [of s]
  by (cases ev) (auto simp: predictor_offers_def same_inputs_def)

lemma read_external_outcome:
  "external_ok ev \<Longrightarrow> \<exists>xs. getVariables F s ev = Inr (xs, s) \<and> list_all var_isValid xs"
  by (cases ev) simp_all

text \<open>Predictions carry outputs, which are no inputs: they leave the images alone.\<close>

lemma output_not_input:
  assumes "ready s" and "output_vars s xs"
  shows "update_image any_real (inputIDs s ! 0) xs (realInputImage s) = Inr (realInputImage s, False)"
    and "update_image any_int (inputIDs s ! 1) xs (integerInputImage s) = Inr (integerInputImage s, False)"
    and "update_image any_bool (inputIDs s ! 2) xs (booleanInputImage s) = Inr (booleanInputImage s, False)"
    and "update_image any_string (inputIDs s ! 3) xs (stringInputImage s) = Inr (stringInputImage s, False)"
proof -
  have wf: "predictor_wf supplies s" using assms(1) by (simp add: predictor_ready_def)
  have d: "var_id ` set xs \<inter> set (inputIDs s ! k) = {}" if "k < 5" for k
    using typed_rows_concat [of "inputIDs s" k] that assms(2) wf by (auto simp: predictor_wf_def output_vars_def)
  have l: "images_ok s" using wf by (simp add: predictor_wf_def)
  show "update_image any_real (inputIDs s ! 0) xs (realInputImage s) = Inr (realInputImage s, False)"
    "update_image any_int (inputIDs s ! 1) xs (integerInputImage s) = Inr (integerInputImage s, False)"
    "update_image any_bool (inputIDs s ! 2) xs (booleanInputImage s) = Inr (booleanInputImage s, False)"
    "update_image any_string (inputIDs s ! 3) xs (stringInputImage s) = Inr (stringInputImage s, False)"
    using l d [of 0] d [of 1] d [of 2] d [of 3] by (simp_all add: update_image_other images_ok_def)
qed

lemma updateInputImage_prediction:
  assumes "offers s ev"
  shows "outcome predictor_fails (\<lambda>(found, s'). \<not> found \<and> offers s' ev \<and> same_inputs s s') (updateInputImage F s ev)"
proof -
  have *: "outcome predictor_fails Q (rbind (getVariables F s1 ev) f)"
    if "offers s1 ev" "\<And>xs s2. offers s2 ev \<Longrightarrow> output_vars s2 xs \<Longrightarrow> same_inputs s1 s2 \<Longrightarrow>
      outcome predictor_fails Q (f (xs, s2))" for Q s1 and f :: "variable list \<times> 'm event_predictor \<Rightarrow> 'x res"
    by (rule outcome_bind [OF read_outcome [OF that(1)]]) (use that(2) in auto)
  have id: "s1\<lparr>realInputImage := realInputImage s1\<rparr> = s1" "s1\<lparr>integerInputImage := integerInputImage s1\<rparr> = s1"
    "s1\<lparr>booleanInputImage := booleanInputImage s1\<rparr> = s1" "s1\<lparr>stringInputImage := stringInputImage s1\<rparr> = s1"
    for s1 :: "'m event_predictor" by simp_all
  show ?thesis unfolding updateInputImage_def
    by (rule * [OF assms], simp only: prod.case output_not_input(1) [OF offers_ready] rbind.simps id,
        rule *, assumption, simp only: prod.case output_not_input(2) [OF offers_ready] rbind.simps id,
        rule *, assumption, simp only: prod.case output_not_input(3) [OF offers_ready] rbind.simps id,
        rule *, assumption, simp only: prod.case output_not_input(4) [OF offers_ready] rbind.simps id)
      (simp add: same_inputs_def)
qed

lemma notify_prediction_outcome:
  assumes "offers s ev"
  shows "outcome predictor_fails (\<lambda>s'. offers s' ev) (predictor_eventTriggered F s ev)"
  unfolding predictor_eventTriggered_def
  by (rule outcome_bind [OF updateInputImage_prediction [OF assms]]) auto

text \<open>Received variables are valid, so that every value has the type of its port.\<close>

lemma updateInputImage_external:
  assumes "predictor_wf supplies s" and "external_ok ev"
  shows "updateInputImage F s ev = Inr (is_input s (event_vars ev), apply_inputs (event_vars ev) s)"
    and "predictor_wf supplies (apply_inputs (event_vars ev) s)"
proof -
  let ?xs = "event_vars ev"
  have xs: "list_all var_isValid ?xs" and g: "getVariables F s1 ev = Inr (?xs, s1)" for s1
    using assms(2) by (cases ev; simp)+
  have t: "typed_rows (inputIDs s)" and l: "images_ok s" using assms(1) by (simp_all add: predictor_wf_def)
  note n = typed_rows_nth [OF t]
  have "update_image any_real (inputIDs s ! 0) ?xs (realInputImage s) =
      Inr (map2 (new_input any_real ?xs) (inputIDs s ! 0) (realInputImage s), \<exists>x\<in>set ?xs. var_id x \<in> set (inputIDs s ! 0))"
    "update_image any_int (inputIDs s ! 1) ?xs (integerInputImage s) =
      Inr (map2 (new_input any_int ?xs) (inputIDs s ! 1) (integerInputImage s), \<exists>x\<in>set ?xs. var_id x \<in> set (inputIDs s ! 1))"
    "update_image any_bool (inputIDs s ! 2) ?xs (booleanInputImage s) =
      Inr (map2 (new_input any_bool ?xs) (inputIDs s ! 2) (booleanInputImage s), \<exists>x\<in>set ?xs. var_id x \<in> set (inputIDs s ! 2))"
    "update_image any_string (inputIDs s ! 3) ?xs (stringInputImage s) =
      Inr (map2 (new_input any_string ?xs) (inputIDs s ! 3) (stringInputImage s), \<exists>x\<in>set ?xs. var_id x \<in> set (inputIDs s ! 3))"
    using l by (intro update_image_spec [OF casts_simps(1) xs n(1)] update_image_spec [OF casts_simps(2) xs n(2)]
      update_image_spec [OF casts_simps(3) xs n(3)] update_image_spec [OF casts_simps(4) xs n(4)]; simp add: images_ok_def)+
  then show "updateInputImage F s ev = Inr (is_input s ?xs, apply_inputs ?xs s)"
    unfolding updateInputImage_def g rbind.simps prod.case by (simp add: apply_inputs_def is_input_def bex_Un disj_ac bex_disj_distrib)
  show "predictor_wf supplies (apply_inputs ?xs s)"
    using assms(1) by (simp add: predictor_wf_def images_ok_def apply_inputs_def)
qed

lemma event_time_covered:
  assumes "offers s p" and "external_ok ev" and "fle (getTime ev) (getTime p)"
    and "t = align_time (getTimeDiffResolution F (solver s)) (currentTime s) (getTime ev)"
  shows "isfin t \<and> fle 0 t \<and> covers (solver s) t"
proof -
  have r: "isfin (currentTime s)" "fle 0 (currentTime s)" "covers (solver s) (currentTime s)"
    using assms(1) by (simp_all add: predictor_offers_def predictor_ready_def)
  have n: "\<not> isnan (currentTime s)" "\<not> isnan (getTime ev)"
    using r(1) isfin_num external_ok_time [OF assms(2)] valid_time_num by blast+
  note al = align_time_cases [OF resolution [THEN conjunct1] resolution [THEN conjunct2] n, of "solver s", folded assms(4)]
  show ?thesis
  proof (cases "t = currentTime s")
    case False
    then have e: "t = getTime ev" "fle (currentTime s) t" "\<not> fle (getTime ev) (currentTime s)" using al by auto
    from assms(1,3) e obtain u where u: "p = LazyEvent u" "isfin u" "fle t u"
      "\<forall>v. fle (currentTime s) v \<longrightarrow> fle v u \<longrightarrow> covers (solver s) v"
      by (auto simp: predictor_offers_def split: event.splits if_splits)
    then show ?thesis using r e(2) isfin_between [of "currentTime s" u t] dtime.le_trans by blast
  qed (use r in simp)
qed

lemma notify_external_result:
  assumes "offers s p" and "external_ok ev" and "fle (getTime ev) (getTime p)"
  defines "t \<equiv> align_time (getTimeDiffResolution F (solver s)) (currentTime s) (getTime ev)"
  shows "predictor_eventTriggered F s ev = Inr (if is_input s (event_vars ev)
      then synced F (apply_inputs (event_vars ev) s) t else apply_inputs (event_vars ev) s)"
    and "ready (synced F (apply_inputs (event_vars ev) s) t)" and "ready (apply_inputs (event_vars ev) s)"
proof -
  have r: "predictor_wf supplies s" "ready s"
    using assms(1) by (simp_all add: predictor_offers_def predictor_ready_def)
  note i = updateInputImage_external [OF r(1) assms(2)]
  have t: "isfin t" "fle 0 t" "covers (solver s) t" using event_time_covered [OF assms(1-3)] by (simp_all add: t_def)
  have s: "solver (apply_inputs xs s) = solver s" "currentTime (apply_inputs xs s) = currentTime s" for xs
    by (simp_all add: apply_inputs_def)
  show "predictor_eventTriggered F s ev = Inr (if is_input s (event_vars ev)
      then synced F (apply_inputs (event_vars ev) s) t else apply_inputs (event_vars ev) s)"
    using update_exact [OF t(3)]
    by (simp add: predictor_eventTriggered_def i(1) s synced_def assert_that_def Let_def case_prod_beta t_def)
  show "ready (apply_inputs (event_vars ev) s)" using i(2) r(2) s by (simp add: predictor_ready_def)
  have "supplies (solver (synced F (apply_inputs (event_vars ev) s) t)) ty" if "supplies (solver s) ty" for ty
    using that supplies_update supplies_sync by (simp add: synced_def s)
  then have "predictor_wf supplies (synced F (apply_inputs (event_vars ev) s) t)"
    using i(2) by (auto simp: predictor_wf_def images_ok_def synced_def s)
  then show "ready (synced F (apply_inputs (event_vars ev) s) t)"
    using t sync_covers [OF update_covers [OF t(3)]] by (simp add: predictor_ready_def synced_def s)
qed

end

section \<open>Initialization\<close>

lemma mapping_rows:
  assumes "mapping_ok d m"
  shows "getVariableNames m ty = Inr (variableNames m ! type_code ty)"
    and "getVariableIDs m ty = Inr (variableIDs m ! type_code ty)"
    and "length (variableNames m ! type_code ty) = length (variableIDs m ! type_code ty)"
  using assms
  by (simp_all add: mapping_ok_def row_ok_def getVariableNames_def getVariableIDs_def row_assert_def assert_that_def)

lemma mapping_typed: "mapping_ok d m \<Longrightarrow> typed_rows (variableIDs m)"
  by (simp add: mapping_ok_def typed_rows_def row_ok_def)

lemma five_rows: "length rows = 5 \<Longrightarrow> rows = [rows ! 0, rows ! 1, rows ! 2, rows ! 3, rows ! 4]"
  by (auto simp: length_Suc_conv numeral_eq_Suc)

lemma mapping_five:
  assumes "mapping_ok d m" and "variableNames m ! 4 = []"
  shows "variableIDs m = [variableIDs m ! 0, variableIDs m ! 1, variableIDs m ! 2, variableIDs m ! 3, []]"
proof -
  have "length (variableIDs m ! 4) = 0" using mapping_rows(3) [OF assms(1), of fmiTypeUnknown] assms(2) by simp
  moreover have "length (variableIDs m) = 5" using assms(1) by (simp add: mapping_ok_def)
  ultimately show ?thesis using five_rows [of "variableIDs m"] by simp
qed

lemma input_image_outcome:
  "outcome is_invalid_argument (\<lambda>img. length img = length names) (input_image P ty c dflt names)"
proof (induction names)
  case (Cons name names)
  show ?case unfolding input_image.simps
    by (rule outcome_bind [OF getPropertyOr_outcome], rule outcome_bind [OF Cons.IH]) simp
qed simp

lemma step_sizes_outcome:
  "outcome (\<lambda>e. is_invalid_argument e \<or> e = AssertionFailed) (\<lambda>(h, l, i). flt 0 h \<and> flt 0 l \<and> flt 0 i) (step_sizes P c)"
proof -
  have *: "outcome (\<lambda>e. is_invalid_argument e \<or> e = AssertionFailed) (flt 0) (getRealPositiveDoublePropertyOr P c path d)" for path d
  proof (cases "flt 0 d")
    case True
    then show ?thesis by (rule outcome_mono [OF getRealPositiveDoublePropertyOr_outcome]) simp_all
  qed (simp add: getRealPositiveDoublePropertyOr_def assert_that_def)
  show ?thesis unfolding step_sizes_def
    by (rule outcome_bind [where R = "flt 0"], rule outcome_mono [OF getRealPositiveDoubleProperty_outcome], simp_all,
        rule outcome_bind [OF *], rule outcome_bind [OF *]) simp
qed

lemma check_step_sizes_outcome:
  assumes "flt 0 h" and "flt 0 l" and "flt 0 i"
  shows "outcome is_invalid_argument (\<lambda>_. fle l h \<and> fle i l) (check_step_sizes P c h l i)"
  using assms by (auto simp: check_step_sizes_def bad_property_outcome fcmp_defs)

context incremental_fmu
begin

lemma defineOutput_ok:
  assumes "mapping_ok d m"
  shows "defineOutput F m ty s = Inr (s\<lparr>outputIDs := (outputIDs s)[type_code ty := variableIDs m ! type_code ty],
    solver := (if variableNames m ! type_code ty \<noteq> []
      then define_outputs F ty (solver s) (variableNames m ! type_code ty) else solver s)\<rparr>)"
  by (simp add: defineOutput_def mapping_rows [OF assms] Let_def)

lemma defineOutputs_outcome:
  assumes "mapping_ok d m" and "outputIDs s = replicate 5 []"
  shows "outcome is_invalid_argument (\<lambda>s'. variableIDs m ! 4 = [] \<and> (\<exists>sv. s' = s\<lparr>outputIDs := variableIDs m, solver := sv\<rparr> \<and>
    (\<forall>ty. ty \<noteq> fmiTypeUnknown \<longrightarrow> variableIDs m ! type_code ty \<noteq> [] \<longrightarrow> supplies sv ty))) (defineOutputs F m s)"
proof (cases "variableNames m ! 4 = []")
  case True
  define stepf where "stepf ty sv = (if variableNames m ! type_code ty \<noteq> []
    then define_outputs F ty sv (variableNames m ! type_code ty) else sv)" for ty sv
  have keep: "supplies (stepf ty sv) ty'" if "supplies sv ty'" for ty ty' sv
    using that supplies_define by (simp add: stepf_def)
  have new: "supplies (stepf ty sv) ty" if "variableIDs m ! type_code ty \<noteq> []" for ty sv
    using that mapping_rows(3) [OF assms(1), of ty] define_supplies by (auto simp: stepf_def)
  let ?sv = "stepf fmiTypeString (stepf fmiTypeBoolean (stepf fmiTypeInteger (stepf fmiTypeReal (solver s))))"
  have "defineOutputs F m s = Inr (s\<lparr>outputIDs := variableIDs m, solver := ?sv\<rparr>)"
    using True mapping_five [OF assms(1) True] assms(2)
    by (simp add: defineOutputs_def defineOutput_ok [OF assms(1)] mapping_rows [OF assms(1)] stepf_def numeral_eq_Suc)
  moreover have "supplies ?sv ty" if "ty \<noteq> fmiTypeUnknown" "variableIDs m ! type_code ty \<noteq> []" for ty
    using that new [OF that(2)] keep by (cases ty) blast+
  moreover have "variableIDs m ! 4 = []" using mapping_rows(3) [OF assms(1), of fmiTypeUnknown] True by simp
  ultimately show ?thesis by auto
next
  case False
  then show ?thesis
    by (simp add: defineOutputs_def defineOutput_ok [OF assms(1)] mapping_rows [OF assms(1)] unknown_type_error_def)
qed

lemma defineInputs_outcome:
  assumes "mapping_ok d m" and "inputIDs s = replicate 5 []"
    and "\<forall>ty. ty \<noteq> fmiTypeUnknown \<longrightarrow> outputIDs s ! type_code ty \<noteq> [] \<longrightarrow> supplies (solver s) ty"
  shows "outcome is_invalid_argument (\<lambda>s'. inputIDs s' = variableIDs m \<and> images_ok s' \<and> outputIDs s' = outputIDs s \<and>
    currentTime s' = currentTime s \<and>
    (\<forall>ty. ty \<noteq> fmiTypeUnknown \<longrightarrow> outputIDs s' ! type_code ty \<noteq> [] \<longrightarrow> supplies (solver s') ty)) (defineInputs F P c m s)"
proof -
  have one: "outcome is_invalid_argument (\<lambda>s'. \<exists>img. length img = length (variableIDs m ! type_code ty) \<and>
      s' = (set_image img s)\<lparr>inputIDs := (inputIDs s)[type_code ty := variableIDs m ! type_code ty],
        solver := define_inputs F ty (solver s) (variableNames m ! type_code ty)\<rparr>)
      (defineInputs_typed F P tr c m ty dflt set_image s)" for tr ty dflt set_image and s :: "'m event_predictor"
    unfolding defineInputs_typed_def mapping_rows [OF assms(1)] rbind.simps
    by (rule outcome_bind [OF input_image_outcome]) (use mapping_rows(3) [OF assms(1), of ty] in auto)
  show ?thesis
    unfolding defineInputs_def mapping_rows(1) [OF assms(1)] rbind.simps
    by ((rule outcome_bind [OF one])+, cases "variableNames m ! 4 = []")
      (use mapping_five [OF assms(1)] assms(2,3) supplies_inputs in
        \<open>auto simp: unknown_type_error_def images_ok_def numeral_eq_Suc\<close>)
qed

lemma initSolver_outcome:
  assumes "mapping_ok d m" and "inputIDs s = variableIDs m" and "images_ok s" and "fle l h" and "fle i l"
    and "predictor_wf supplies s" and "isfin (currentTime s)" and "fle 0 (currentTime s)"
  shows "outcome (\<lambda>e. \<exists>msg. e = RuntimeError msg) ready (initSolver F m name (currentTime s) h l i s)"
proof -
  note len = mapping_rows(3) [OF assms(1), of fmiTypeReal] mapping_rows(3) [OF assms(1), of fmiTypeInteger]
    mapping_rows(3) [OF assms(1), of fmiTypeBoolean] mapping_rows(3) [OF assms(1), of fmiTypeString]
  obtain err sv where r: "solver_init F (solver s) name (variableNames m ! 0, realInputImage s)
      (variableNames m ! 1, integerInputImage s) (variableNames m ! 2, booleanInputImage s)
      (variableNames m ! 3, stringInputImage s) (currentTime s) h l i = (err, sv)" by fastforce
  have a: "length (variableNames m ! 0) = length (realInputImage s)" "length (variableNames m ! 1) = length (integerInputImage s)"
    "length (variableNames m ! 2) = length (booleanInputImage s)" "length (variableNames m ! 3) = length (stringInputImage s)"
    using len assms(2,3) by (simp_all add: images_ok_def)
  have c: "covers sv (currentTime s)" if "err = 1" using init_covers r that by blast
  have sup: "supplies sv ty" if "supplies (solver s) ty" for ty using supplies_init [OF that] r by (metis snd_conv)
  have "ready (s\<lparr>solver := sv\<rparr>)" if "err = 1"
    using assms(6-8) c [OF that] sup by (auto simp: predictor_ready_def predictor_wf_def images_ok_def)
  then show ?thesis
    using a assms(4,5) r by (simp add: initSolver_def mapping_rows(1) [OF assms(1)] assert_that_def)
qed

end

lemma initSolver_keeps: "initSolver F m name start h l i s = Inr s' \<Longrightarrow> \<exists>sv. s' = s\<lparr>solver := sv\<rparr>"
  by (auto simp: initSolver_def res_simps Let_def case_prod_beta split: if_splits)

text \<open>The drawer and the trees of a context in which both channel mappings can be built.\<close>

definition channels_ok :: "'p ptree_ops \<Rightarrow> 'p application_context \<Rightarrow> bool" where
  "channels_ok P c \<longleftrightarrow> context_ok c \<and> (\<exists>k l. tree_ok P c PROP_OUT k \<and> tree_ok P c PROP_IN l \<and>
     room (2 ^ 31) (portIDSource c) (k + l))"

lemma channels_okE:
  assumes "channels_ok P c"
  obtains out c1 inp c2 d where "getOutputChannelMapping P c = Some (Inr (out, c1))" "config c1 = config c"
    "getInputChannelMapping P c1 = Some (Inr (inp, c2))" "context_ok c2" "mapping_ok (portIDSource c2) out"
    "mapping_ok (portIDSource c2) inp" "outputChannelMap c2 = Some out" "inputChannelMap c2 = Some inp"
    "set (getAllVariableIDs out) \<inter> set (getAllVariableIDs inp) = {}" "config c2 = config c"
proof -
  obtain k l where kl: "context_ok c" "tree_ok P c PROP_OUT k" "tree_ok P c PROP_IN l" "room (2 ^ 31) (portIDSource c) (k + l)"
    using assms by (auto simp: channels_ok_def)
  obtain out c1 where 1: "getOutputChannelMapping P c = Some (Inr (out, c1))" "context_ok c1"
      "outputChannelMap c1 = Some out" "config c1 = config c" "room (2 ^ 31) (portIDSource c1) l"
    using getOutputChannelMapping_spec [OF kl(1,2,4)] by blast
  have "tree_ok P c1 PROP_IN l" using kl(3) 1(4) by (simp add: tree_ok_def)
  then obtain inp c2 where 2: "getInputChannelMapping P c1 = Some (Inr (inp, c2))" "context_ok c2"
      "inputChannelMap c2 = Some inp" "outputChannelMap c2 = Some out" "config c2 = config c1"
    using getInputChannelMapping_spec [of c1 P l 0] 1 by auto
  show thesis by (rule that [OF 1(1,4) 2(1,2)]) (use 1(4) 2 in \<open>auto simp: context_ok_def\<close>)
qed

text \<open>A failed initialization: a configuration error, or the refusal of the library.\<close>

fun init_fails :: "exn \<Rightarrow> bool" where
  "init_fails (RuntimeError _) = True"
| "init_fails e = is_invalid_argument e"

lemma init_failsI: "is_invalid_argument e \<Longrightarrow> init_fails e"
  by (cases e) simp_all

lemma init_settings_outcome:
  assumes "step_sizes P c \<noteq> Inl AssertionFailed"
  shows "outcome is_invalid_argument (\<lambda>(name, start, h, l, i, dep). fle 0 start \<and> fle l h \<and> fle i l) (init_settings P c dflt)"
proof -
  have s: "outcome is_invalid_argument (\<lambda>(h, l, i). flt 0 h \<and> flt 0 l \<and> flt 0 i) (step_sizes P c)"
    using step_sizes_outcome [of P c] assms by (cases "step_sizes P c") auto
  show ?thesis unfolding init_settings_def
    by (rule outcome_bind [OF getPropertyOr_outcome], rule outcome_bind [OF getPositiveDoubleProperty_outcome],
        rule outcome_bind [OF s], clarify, rule outcome_bind [OF getPropertyOr_outcome],
        rule outcome_bind [OF check_step_sizes_outcome]) simp_all
qed

text \<open>The numbers of a configuration are finite: the conversion does not accept infinities.\<close>

definition finite_numbers :: "'p ptree_ops \<Rightarrow> bool" where
  "finite_numbers P \<longleftrightarrow> (\<forall>s d. parse_double P s = Some d \<longrightarrow> \<not> isinf d)"

lemma start_finite:
  assumes "finite_numbers P" and "getPositiveDoubleProperty P c path = Inr r"
  shows "isfin r"
proof -
  have p: "hasProperty P c path" and g: "getPositiveDoublePropertyOr P c path 0 = Inr r"
    using assms(2) by (simp_all add: getPositiveDoubleProperty_def split: if_splits)
  have "getProperty P (as_double P) c path = Inr r" "fle 0 r"
    using p g by (auto simp: getPositiveDoublePropertyOr_def getPropertyOr_def res_simps bad_property_def
        split: sum.splits if_splits)
  then show ?thesis using assms(1)
    by (auto simp: getProperty_def as_double_def get_optional_def finite_numbers_def isfin_iff fle_def
        split: option.splits)
qed

lemma init_settings_start:
  "init_settings P c dflt = Inr (name, start, h, l, i, dep) \<Longrightarrow> getPositiveDoubleProperty P c PROP_START_TIME = Inr start"
  by (auto simp: init_settings_def res_simps)

definition init_result ::
    "('m \<Rightarrow> double \<Rightarrow> bool) \<Rightarrow> ('m \<Rightarrow> fmi_type \<Rightarrow> bool) \<Rightarrow> 'm event_predictor \<times> 'p application_context \<Rightarrow> bool" where
  "init_result covers supplies = (\<lambda>(s, c). predictor_ready covers supplies s \<and> context_ok c \<and>
     (\<exists>out inp. outputChannelMap c = Some out \<and> inputChannelMap c = Some inp \<and>
       outputIDs s = variableIDs out \<and> inputIDs s = variableIDs inp \<and> variableIDs out ! 4 = []))"

context incremental_fmu
begin

text \<open>The part of \<open>init\<close> after the outputs are defined.\<close>

lemma init_after_outputs:
  assumes "mapping_ok (portIDSource c) out" and "mapping_ok (portIDSource c) inp" and "context_ok c"
    and "outputChannelMap c = Some out" and "inputChannelMap c = Some inp"
    and "set (getAllVariableIDs out) \<inter> set (getAllVariableIDs inp) = {}" and "variableIDs out ! 4 = []"
    and "fle 0 (currentTime s)" and "isfin (currentTime s)" and "fle l h" and "fle i l"
    and "outputIDs s = variableIDs out" and "inputIDs s = replicate 5 []"
    and "\<forall>ty. ty \<noteq> fmiTypeUnknown \<longrightarrow> outputIDs s ! type_code ty \<noteq> [] \<longrightarrow> supplies (solver s) ty"
  shows "outcome init_fails (init_result covers supplies) (rbind (defineInputs F P c inp s) (\<lambda>s2.
    rbind (initSolver F inp name (currentTime s) h l i s2) (\<lambda>s3. Inr (s3, c))))"
proof (rule outcome_bind [OF outcome_mono [OF defineInputs_outcome [OF assms(2,13,14)] _ init_failsI]])
  fix s2
  assume s2: "inputIDs s2 = variableIDs inp \<and> images_ok s2 \<and> outputIDs s2 = outputIDs s \<and>
    currentTime s2 = currentTime s \<and> (\<forall>ty. ty \<noteq> fmiTypeUnknown \<longrightarrow> outputIDs s2 ! type_code ty \<noteq> [] \<longrightarrow>
      supplies (solver s2) ty)"
  then have wf: "predictor_wf supplies s2"
    using assms(6,12) mapping_typed [OF assms(1)] mapping_typed [OF assms(2)]
    by (simp add: predictor_wf_def getAllVariableIDs_def)
  have t: "currentTime s2 = currentTime s" using s2 by simp
  have ids: "outputIDs s3 = variableIDs out \<and> inputIDs s3 = variableIDs inp"
    if "initSolver F inp name (currentTime s) h l i s2 = Inr s3" for s3
    using initSolver_keeps [OF that] s2 assms(12) by auto
  have "outcome init_fails ready (initSolver F inp name (currentTime s) h l i s2)"
    unfolding t [symmetric] by (rule outcome_mono [OF initSolver_outcome [OF assms(2)]])
      (use s2 wf assms(8-11) in auto)
  then show "outcome init_fails (init_result covers supplies) (rbind (initSolver F inp name (currentTime s) h l i s2) (\<lambda>s3. Inr (s3, c)))"
    using ids assms(3-5,7) by (auto intro!: outcome_bind simp: init_result_def)
qed simp

lemma predictor_init_outcome:
  assumes "channels_ok P c" and "finite_numbers P" and "step_sizes P c \<noteq> Inl AssertionFailed"
    and "outputIDs s = replicate 5 []" and "inputIDs s = replicate 5 []"
  shows "\<exists>r. predictor_init F P c s = Some r \<and> outcome init_fails (init_result covers supplies) r"
proof (cases "init_settings P c (modelIdentifier (lowLevelFMU s))")
  case (Inl e)
  then show ?thesis using init_settings_outcome [OF assms(3), of "modelIdentifier (lowLevelFMU s)"] init_failsI
    by (auto simp: predictor_init_def)
next
  case (Inr x)
  obtain name start h l i dep where x: "x = (name, start, h, l, i, dep)" by (metis prod_cases6)
  have st: "fle 0 start" "fle l h" "fle i l" "isfin start"
    using init_settings_outcome [OF assms(3), of "modelIdentifier (lowLevelFMU s)"] Inr x
      start_finite [OF assms(2) init_settings_start] by auto
  obtain out c1 inp c2 where m: "getOutputChannelMapping P c = Some (Inr (out, c1))"
      "getInputChannelMapping P c1 = Some (Inr (inp, c2))" "context_ok c2" "mapping_ok (portIDSource c2) out"
      "mapping_ok (portIDSource c2) inp" "outputChannelMap c2 = Some out" "inputChannelMap c2 = Some inp"
      "set (getAllVariableIDs out) \<inter> set (getAllVariableIDs inp) = {}"
    using channels_okE [OF assms(1)] by metis
  let ?s0 = "s\<lparr>assumeDirectDependency := dep, currentTime := start, lastPredictedEventTime := start,
    outputEventVariables := [], outputEventVariablesPopulated := False\<rparr>"
  have o: "outcome is_invalid_argument (\<lambda>s'. variableIDs out ! 4 = [] \<and> (\<exists>sv. s' = ?s0\<lparr>outputIDs := variableIDs out, solver := sv\<rparr> \<and>
      (\<forall>ty. ty \<noteq> fmiTypeUnknown \<longrightarrow> variableIDs out ! type_code ty \<noteq> [] \<longrightarrow> supplies sv ty))) (defineOutputs F out ?s0)"
    by (rule defineOutputs_outcome [OF m(4)]) (simp add: assms(4))
  show ?thesis
  proof (cases "defineOutputs F out ?s0")
    case (Inl e)
    with o Inr x m(1) show ?thesis using init_failsI by (simp add: predictor_init_def Let_def)
  next
    case s1: (Inr s1)
    then obtain sv where sv: "s1 = ?s0\<lparr>outputIDs := variableIDs out, solver := sv\<rparr>"
        "\<forall>ty. ty \<noteq> fmiTypeUnknown \<longrightarrow> variableIDs out ! type_code ty \<noteq> [] \<longrightarrow> supplies sv ty"
        "variableIDs out ! 4 = []"
      using o by auto
    have "outcome init_fails (init_result covers supplies) (rbind (defineInputs F P c2 inp s1) (\<lambda>s2.
        rbind (initSolver F inp name (currentTime s1) h l i s2) (\<lambda>s3. Inr (s3, c2))))"
      by (rule init_after_outputs [OF m(4,5,3,6-8) sv(3)]) (use st assms(5) sv in simp_all)
    moreover have "currentTime s1 = start" using sv(1) by simp
    ultimately show ?thesis using Inr x m(1,2) s1 by (simp add: predictor_init_def Let_def)
  qed
qed

end

end
