(* ===== verification/OneStep_Predictor.thy ===== *)
theory OneStep_Predictor
  imports Event_Predictor
begin

text \<open>
  The single-step predictor: \<open>model/OneStepEventPredictor\<close>. It drives a model-exchange FMU of the
  library FMI++, which is a parameter: the record \<open>me_fmu_ops\<close> has the operations the program calls,
  the locale \<open>me_fmu\<close> the documented behaviour it relies on, and \<open>me_fmu_steps\<close> what makes the loop of
  \<open>predictOneStep\<close> end. The model always stands at the next synchronization point: received values are
  given to it at once, and the prediction that was made stays until it was processed.
\<close>

section \<open>The library\<close>

text \<open>
  The overloads of \<open>setValue\<close> for the types of the library are one operation on \<open>any\<close>. A C array of
  outputs is a function on the index.
\<close>

type_synonym value_ref = int32

record 'm me_fmu_ops =
  new_model :: "fmu_type \<Rightarrow> string \<Rightarrow> bool \<Rightarrow> bool \<Rightarrow> double \<Rightarrow> 'm"
  getLastStatus :: "'m \<Rightarrow> int"
  me_setIntegratorProperties :: "'m \<Rightarrow> integrator_properties \<Rightarrow> integrator_properties \<times> 'm"
  me_props_differ :: "integrator_properties \<Rightarrow> integrator_properties \<Rightarrow> bool"
  me_start :: "'m \<Rightarrow> double option"
  instantiate_fmu :: "'m \<Rightarrow> string \<Rightarrow> int \<times> 'm"
  getValueRef :: "'m \<Rightarrow> string \<Rightarrow> value_ref"
  fmiUndefinedValueReference :: value_ref
  getType :: "'m \<Rightarrow> string \<Rightarrow> fmi_type"
  setTime :: "'m \<Rightarrow> double \<Rightarrow> 'm"
  fmuTime :: "'m \<Rightarrow> double"
  set_named :: "'m \<Rightarrow> string \<Rightarrow> any \<Rightarrow> int \<times> 'm"
  set_value :: "'m \<Rightarrow> value_ref \<Rightarrow> any \<Rightarrow> int \<times> 'm"
  initialize_fmu :: "'m \<Rightarrow> bool \<Rightarrow> double \<Rightarrow> int \<times> 'm"
  checkTimeEvent :: "'m \<Rightarrow> bool \<times> 'm"
  getTimeEvent :: "'m \<Rightarrow> double"
  handleEvents :: "'m \<Rightarrow> 'm"
  integrate :: "'m \<Rightarrow> double \<Rightarrow> double \<Rightarrow> double \<times> 'm"
  getRealValues :: "'m \<Rightarrow> value_ref list \<Rightarrow> int \<times> (nat \<Rightarrow> double) \<times> 'm"
  getIntegerValues :: "'m \<Rightarrow> value_ref list \<Rightarrow> int \<times> (nat \<Rightarrow> int32) \<times> 'm"
  getBooleanValues :: "'m \<Rightarrow> value_ref list \<Rightarrow> int \<times> (nat \<Rightarrow> byte) \<times> 'm"
  getStringValues :: "'m \<Rightarrow> value_ref list \<Rightarrow> int \<times> (nat \<Rightarrow> string) \<times> 'm"

section \<open>State\<close>

record simulation_properties =
  lookAheadStepSize :: double
  integratorStepSize :: double
  variableStepSizeOnModelEvent :: bool
  timingPrecision :: double

record ('m, 'p) onestep_predictor =
  outputRealImage :: "double list"
  outputIntegerImage :: "int32 list"
  outputBooleanImage :: "byte list"
  outputStringImage :: "string list"
  outputValueReference :: "value_ref list list"
  outputMapping :: "'p channel_mapping option"
  inputValueReference :: "port_id \<rightharpoonup> value_ref"
  currentPrediction :: "event option"
  managedFMU :: managed_fmu
  fmu :: 'm
  simulationProperties :: simulation_properties

definition PROP_DEFAULT_INPUTS :: string where "PROP_DEFAULT_INPUTS = PROP_IN @ ''.default''"
definition PROP_VARIABLE_STEP_SIZE :: string where "PROP_VARIABLE_STEP_SIZE = ''app.variableStepSize''"

section \<open>Construction\<close>

text \<open>The condition on the type names \<open>fmi_2_0_me\<close> twice.\<close>

definition loadModel ::
    "'m me_fmu_ops \<Rightarrow> bool \<Rightarrow> 'p ptree_ops \<Rightarrow> 'p application_context \<Rightarrow> managed_fmu \<Rightarrow> 'm res" where
  "loadModel M sundials P c low =
     rbind (SolverConfiguration sundials P c) (\<lambda>cfg.
     rbind (if fmu_kind low = fmi_1_0_me
            then Inr (new_model M fmi_1_0_me (modelIdentifier low) (fmuDebugging cfg) False (eventSearchPrecision cfg))
            else if fmu_kind low = fmi_2_0_me \<or> fmu_kind low = fmi_2_0_me
            then Inr (new_model M fmi_2_0_me (modelIdentifier low) (fmuDebugging cfg) False (eventSearchPrecision cfg))
            else Inl (SystemConfigurationException (''Unsupported FMU type: '' @ getFMUTypeString (fmu_kind low)) None)) (\<lambda>m.
       if getLastStatus M m \<noteq> fmiOK then Inl (SystemConfigurationException ''Could not create the model'' None)
       else let (props, m') = me_setIntegratorProperties M m (solver_props cfg) in
       if me_props_differ M props (solver_props cfg)
       then Inl (SystemConfigurationException (rejected_text (solver_props cfg) props) None)
       else Inr m'))"

definition status_error :: "string \<Rightarrow> int \<Rightarrow> string \<Rightarrow> exn" where
  "status_error before err after = SystemConfigurationException (before @ show_int err @ after) None"

definition instantiateModel ::
    "'m me_fmu_ops \<Rightarrow> 'p ptree_ops \<Rightarrow> 'p application_context \<Rightarrow> ('m, 'p) onestep_predictor \<Rightarrow>
     ('m, 'p) onestep_predictor res" where
  "instantiateModel M P c s =
     rbind (getPropertyOr P as_string c PROP_FMU_INSTANCE_NAME (modelIdentifier (managedFMU s))) (\<lambda>name.
       let (err, m) = instantiate_fmu M (fmu s) name in
       if err \<noteq> fmiOK then Inl (status_error ''Unable to instantiate the FMU ('' err '')'')
       else Inr (s\<lparr>fmu := m\<rparr>))"

definition OneStepEventPredictor ::
    "'m me_fmu_ops \<Rightarrow> model_manager \<Rightarrow> bool \<Rightarrow> simulation_properties \<Rightarrow> 'p ptree_ops \<Rightarrow> 'p application_context \<Rightarrow>
     ('m, 'p) onestep_predictor res" where
  "OneStepEventPredictor M mgr sundials props0 P c =
     rbind (ManagedLowLevelFMU mgr P c) (\<lambda>low.
     rbind (loadModel M sundials P c low) (\<lambda>m.
       instantiateModel M P c \<lparr>outputRealImage = [], outputIntegerImage = [], outputBooleanImage = [],
         outputStringImage = [], outputValueReference = replicate 4 [], outputMapping = None,
         inputValueReference = Map.empty, currentPrediction = None, managedFMU = low, fmu = m,
         simulationProperties = props0\<rparr>))"

definition onestep_configureDefaultApplicationContext ::
    "'m me_fmu_ops \<Rightarrow> 'p ptree_ops \<Rightarrow> ('m, 'p) onestep_predictor \<Rightarrow> 'p application_context \<Rightarrow> 'p application_context" where
  "onestep_configureDefaultApplicationContext M P s c = addSensitiveDefaultProperties P c (me_start M (fmu s))"

section \<open>Initialization\<close>

fun output_refs :: "'m me_fmu_ops \<Rightarrow> 'm \<Rightarrow> string list \<Rightarrow> value_ref list res" where
  "output_refs M m [] = Inr []"
| "output_refs M m (n # ns) =
     (if getValueRef M m n = fmiUndefinedValueReference M
      then Inl (SystemConfigurationException (''The output variable '' @ n @ '' is undefined.'') None)
      else rbind (output_refs M m ns) (\<lambda>rs. Inr (getValueRef M m n # rs)))"

definition initOutputValueReferences ::
    "'m me_fmu_ops \<Rightarrow> fmi_type \<Rightarrow> ('m, 'p) onestep_predictor \<Rightarrow> ('m, 'p) onestep_predictor res" where
  "initOutputValueReferences M ty s =
     (case outputMapping s of
        None \<Rightarrow> Inl AssertionFailed
      | Some om \<Rightarrow>
          rbind (assert_that (type_code ty < length (outputValueReference s))) (\<lambda>_.
          rbind (getVariableNames om ty) (\<lambda>names.
          rbind (output_refs M (fmu s) names) (\<lambda>refs.
            Inr (s\<lparr>outputValueReference :=
              (outputValueReference s)[type_code ty := outputValueReference s ! type_code ty @ refs]\<rparr>)))))"

definition resize :: "nat \<Rightarrow> 'v \<Rightarrow> 'v list \<Rightarrow> 'v list" where
  "resize n v xs = take n xs @ replicate (n - length xs) v"

text \<open>The images get the size of the mapping's rows, then the references are looked up.\<close>

definition sizeImages :: "'p channel_mapping \<Rightarrow> ('m, 'p) onestep_predictor \<Rightarrow> ('m, 'p) onestep_predictor res" where
  "sizeImages om s =
     rbind (getVariableIDs om fmiTypeReal) (\<lambda>rs.
     rbind (getVariableIDs om fmiTypeInteger) (\<lambda>is.
     rbind (getVariableIDs om fmiTypeBoolean) (\<lambda>bs.
     rbind (getVariableIDs om fmiTypeString) (\<lambda>ss.
       Inr (s\<lparr>outputRealImage := resize (length rs) 0 (outputRealImage s),
         outputIntegerImage := resize (length is) 0 (outputIntegerImage s),
         outputBooleanImage := resize (length bs) 0 (outputBooleanImage s),
         outputStringImage := resize (length ss) [] (outputStringImage s)\<rparr>)))))"

definition unknown_output :: "string \<Rightarrow> exn" where
  "unknown_output name =
     SystemConfigurationException (''An output variable ('' @ name @ '') of unknown type was defined'') None"

definition initOutputStructures ::
    "'m me_fmu_ops \<Rightarrow> 'p channel_mapping \<Rightarrow> ('m, 'p) onestep_predictor \<Rightarrow> ('m, 'p) onestep_predictor res" where
  "initOutputStructures M om s =
     rbind (sizeImages om (s\<lparr>outputMapping := Some om\<rparr>)) (\<lambda>s1.
     rbind (initOutputValueReferences M fmiTypeReal s1) (\<lambda>s2.
     rbind (initOutputValueReferences M fmiTypeInteger s2) (\<lambda>s3.
     rbind (initOutputValueReferences M fmiTypeBoolean s3) (\<lambda>s4.
     rbind (initOutputValueReferences M fmiTypeString s4) (\<lambda>s5.
     rbind (getVariableNames om fmiTypeUnknown) (\<lambda>names.
       case names of [] \<Rightarrow> Inr s5 | n # ns \<Rightarrow> Inl (unknown_output n)))))))"

fun input_refs ::
    "'m me_fmu_ops \<Rightarrow> 'm \<Rightarrow> (string \<times> port_id) list \<Rightarrow> (port_id \<rightharpoonup> value_ref) \<Rightarrow> (port_id \<rightharpoonup> value_ref) res" where
  "input_refs M m [] refs = Inr refs"
| "input_refs M m ((n, i) # ps) refs =
     (if getValueRef M m n = fmiUndefinedValueReference M
      then Inl (SystemConfigurationException (''Undefined input variable: '' @ n) None)
      else input_refs M m ps (refs(i \<mapsto> getValueRef M m n)))"

definition initInputValueReference ::
    "'m me_fmu_ops \<Rightarrow> 'p channel_mapping \<Rightarrow> ('m, 'p) onestep_predictor \<Rightarrow> ('m, 'p) onestep_predictor res" where
  "initInputValueReference M im s =
     rbind (assert_that (length (getAllVariableNames im) = length (getAllVariableIDs im))) (\<lambda>_.
     rbind (input_refs M (fmu s) (zip (getAllVariableNames im) (getAllVariableIDs im)) (inputValueReference s)) (\<lambda>refs.
       Inr (s\<lparr>inputValueReference := refs\<rparr>)))"

definition initSimulationProperties ::
    "'p ptree_ops \<Rightarrow> 'p application_context \<Rightarrow> ('m, 'p) onestep_predictor \<Rightarrow> ('m, 'p) onestep_predictor res" where
  "initSimulationProperties P c s =
     rbind (getRealPositiveDoubleProperty P c PROP_LOOK_AHEAD_TIME) (\<lambda>look.
     rbind (getRealPositiveDoublePropertyOr P c PROP_INTEGRATOR_STEP_SIZE (fdiv look ten)) (\<lambda>integ.
     rbind (if flt look integ
            then bad_property P c ''The integrator step size exceeds the look ahead step size'' PROP_INTEGRATOR_STEP_SIZE
            else Inr ()) (\<lambda>_.
     rbind (getPropertyOr P (as_bool P) c PROP_VARIABLE_STEP_SIZE False) (\<lambda>var.
       Inr (s\<lparr>simulationProperties := \<lparr>lookAheadStepSize = look, integratorStepSize = integ,
         variableStepSizeOnModelEvent = var, timingPrecision = ten_to_minus_4\<rparr>\<rparr>)))))"

text \<open>The value of a default input, read with the type of the model's variable.\<close>

definition default_value :: "'p ptree_ops \<Rightarrow> 'p application_context \<Rightarrow> string \<Rightarrow> fmi_type \<Rightarrow> any res" where
  "default_value P c path ty =
     (case ty of
        fmiTypeReal \<Rightarrow> rbind (getProperty P (as_double P) c path) (\<lambda>v. Inr (AnyReal v))
      | fmiTypeInteger \<Rightarrow> rbind (getProperty P (as_int P) c path) (\<lambda>v. Inr (AnyInt v))
      | fmiTypeBoolean \<Rightarrow> rbind (getProperty P (as_char P) c path) (\<lambda>v. Inr (AnyBool v))
      | fmiTypeString \<Rightarrow> rbind (getProperty P as_string c path) (\<lambda>v. Inr (AnyString v))
      | fmiTypeUnknown \<Rightarrow> Inl AssertionFailed)"

definition setDefaultValue ::
    "'m me_fmu_ops \<Rightarrow> 'p ptree_ops \<Rightarrow> 'p application_context \<Rightarrow> string \<Rightarrow> 'm \<Rightarrow> 'm res" where
  "setDefaultValue M P c varName m =
     (let varPath = PROP_DEFAULT_INPUTS @ ''.'' @ varName; ty = getType M m varName in
      if ty = fmiTypeUnknown then Inl (SystemConfigurationException (''Unknown default variable in '' @ varPath) None)
      else rbind (default_value P c varPath ty) (\<lambda>v.
        let (err, m') = set_named M m varName v in
        if err \<noteq> fmiOK
        then bad_property P c (''Cannot set the default variable ('' @ show_int err @ '')'') varPath
        else Inr m'))"

fun set_defaults ::
    "'m me_fmu_ops \<Rightarrow> 'p ptree_ops \<Rightarrow> 'p application_context \<Rightarrow> string list \<Rightarrow> 'm \<Rightarrow> 'm res" where
  "set_defaults M P c [] m = Inr m"
| "set_defaults M P c (n # ns) m = rbind (setDefaultValue M P c n m) (set_defaults M P c ns)"

definition setDefaultValues :: "'m me_fmu_ops \<Rightarrow> 'p ptree_ops \<Rightarrow> 'p application_context \<Rightarrow> 'm \<Rightarrow> 'm res" where
  "setDefaultValues M P c m =
     (if \<not> hasProperty P c PROP_DEFAULT_INPUTS then Inr m
      else rbind (getPropertyTree P c PROP_DEFAULT_INPUTS) (\<lambda>t. set_defaults M P c (map fst (children_of P t)) m))"

definition initModel ::
    "'m me_fmu_ops \<Rightarrow> 'p ptree_ops \<Rightarrow> 'p application_context \<Rightarrow> double \<Rightarrow> ('m, 'p) onestep_predictor \<Rightarrow>
     ('m, 'p) onestep_predictor res" where
  "initModel M P c startTime s =
     rbind (setDefaultValues M P c (setTime M (fmu s) startTime)) (\<lambda>m1.
       let (err, m2) = initialize_fmu M m1 False 0 in
       if err \<noteq> fmiOK then Inl (status_error ''Error while initializing the model: '' err [])
       else let (timeEvent, m3) = checkTimeEvent M m2 in
         if timeEvent \<and> fle (getTimeEvent M m3) startTime
         then let m4 = handleEvents M m3 in
           if getLastStatus M m4 \<noteq> fmiOK
           then Inl (status_error ''Error while handling an initial time event: '' (getLastStatus M m4) [])
           else Inr (s\<lparr>fmu := m4\<rparr>)
         else Inr (s\<lparr>fmu := m3\<rparr>))"

section \<open>Outputs\<close>

text \<open>The loop that compares and overwrites the image, and the two functions \<open>updateOutputImage\<close>.\<close>

fun compare_update :: "('v \<Rightarrow> 'v \<Rightarrow> bool) \<Rightarrow> (nat \<Rightarrow> 'v) \<Rightarrow> nat \<Rightarrow> 'v list \<Rightarrow> bool \<times> 'v list" where
  "compare_update differ vals i [] = (False, [])"
| "compare_update differ vals i (v # vs) =
     (let (change, vs') = compare_update differ vals (Suc i) vs in
      (differ v (vals i) \<or> change, vals i # vs'))"

definition updateOutputImage_typed ::
    "'m me_fmu_ops \<Rightarrow> ('m \<Rightarrow> value_ref list \<Rightarrow> int \<times> (nat \<Rightarrow> 'v) \<times> 'm) \<Rightarrow> ('v \<Rightarrow> 'v \<Rightarrow> bool) \<Rightarrow> 'm \<Rightarrow>
     value_ref list \<Rightarrow> 'v list \<Rightarrow> (bool \<times> 'v list \<times> 'm) res" where
  "updateOutputImage_typed M fetch differ m refs img =
     rbind (assert_that (length refs = length img)) (\<lambda>_.
       if img = [] then Inr (False, img, m)
       else let (err, vals, m') = fetch m refs in
         if err \<noteq> fmiOK
         then Inl (SolverException (''Could not fetch the outputs of the model ('' @ show_int err @ '')'') (fmuTime M m'))
         else let (change, img') = compare_update differ vals 0 img in Inr (change, img', m'))"

definition updateOutputImage ::
    "'m me_fmu_ops \<Rightarrow> ('m, 'p) onestep_predictor \<Rightarrow> (bool \<times> ('m, 'p) onestep_predictor) res" where
  "updateOutputImage M s =
     rbind (updateOutputImage_typed M (getRealValues M) (\<lambda>a b. \<not> feq a b) (fmu s)
       (outputValueReference s ! 0) (outputRealImage s)) (\<lambda>(f1, rs, m1).
     rbind (updateOutputImage_typed M (getIntegerValues M) (\<noteq>) m1
       (outputValueReference s ! 1) (outputIntegerImage s)) (\<lambda>(f2, is, m2).
     rbind (updateOutputImage_typed M (getBooleanValues M) (\<noteq>) m2
       (outputValueReference s ! 2) (outputBooleanImage s)) (\<lambda>(f3, bs, m3).
     rbind (updateOutputImage_typed M (getStringValues M) (\<noteq>) m3
       (outputValueReference s ! 3) (outputStringImage s)) (\<lambda>(f4, ss, m4).
       Inr (f1 \<or> f2 \<or> f3 \<or> f4, s\<lparr>outputRealImage := rs, outputIntegerImage := is, outputBooleanImage := bs,
         outputStringImage := ss, fmu := m4\<rparr>)))))"

definition appendOutputVariables ::
    "variable list \<Rightarrow> port_id list \<Rightarrow> 'v list \<Rightarrow> ('v \<Rightarrow> any) \<Rightarrow> variable list res" where
  "appendOutputVariables dest ids values mk =
     rbind (assert_that (length ids = length values)) (\<lambda>_.
       Inr (dest @ map2 (\<lambda>i v. Variable i (mk v)) ids values))"

definition getOutputEvent :: "'m me_fmu_ops \<Rightarrow> ('m, 'p) onestep_predictor \<Rightarrow> event res" where
  "getOutputEvent M s =
     (case outputMapping s of
        None \<Rightarrow> Inl AssertionFailed
      | Some om \<Rightarrow>
          rbind (getVariableIDs om fmiTypeReal) (\<lambda>i0.
          rbind (appendOutputVariables [] i0 (outputRealImage s) AnyReal) (\<lambda>v0.
          rbind (getVariableIDs om fmiTypeInteger) (\<lambda>i1.
          rbind (appendOutputVariables v0 i1 (outputIntegerImage s) AnyInt) (\<lambda>v1.
          rbind (getVariableIDs om fmiTypeBoolean) (\<lambda>i2.
          rbind (appendOutputVariables v1 i2 (outputBooleanImage s) AnyBool) (\<lambda>v2.
          rbind (getVariableIDs om fmiTypeString) (\<lambda>i3.
          rbind (appendOutputVariables v2 i3 (outputStringImage s) AnyString) (\<lambda>v3.
            newStaticEvent (fmuTime M (fmu s)) v3)))))))))"

text \<open>\<open>init\<close>: \<open>None\<close> stands for a channel mapping whose construction does not return.\<close>

definition onestep_init ::
    "'m me_fmu_ops \<Rightarrow> 'p ptree_ops \<Rightarrow> 'p application_context \<Rightarrow> ('m, 'p) onestep_predictor \<Rightarrow>
     (('m, 'p) onestep_predictor \<times> 'p application_context) res option" where
  "onestep_init M P c s =
     (case rbind (assert_that (outputMapping s = None)) (\<lambda>_. getPositiveDoubleProperty P c PROP_START_TIME) of
        Inl e \<Rightarrow> Some (Inl e)
      | Inr start \<Rightarrow>
          Option.bind (getOutputChannelMapping P c) (\<lambda>ro.
          case rbind ro (\<lambda>(om, c1). rbind (initOutputStructures M om s) (\<lambda>s1. Inr (c1, s1))) of
            Inl e \<Rightarrow> Some (Inl e)
          | Inr (c1, s1) \<Rightarrow>
              map_option (\<lambda>ri. rbind ri (\<lambda>(im, c2).
                rbind (initInputValueReference M im s1) (\<lambda>s2.
                rbind (initSimulationProperties P c2 s2) (\<lambda>s3.
                rbind (initModel M P c2 start s3) (\<lambda>s4.
                rbind (updateOutputImage M s4) (\<lambda>(ch, s5). Inr (s5, c2)))))))
                (getInputChannelMapping P c1)))"

section \<open>Prediction\<close>

text \<open>The loop of \<open>predictOneStep\<close>: \<open>None\<close> when it does not end.\<close>

definition integration_error :: "'m me_fmu_ops \<Rightarrow> 'm \<Rightarrow> double \<Rightarrow> double \<Rightarrow> exn" where
  "integration_error M m target nextTime =
     SolverException (''Could not integrate FMU to '' @ show_general 6 target @ '' ('' @ show_general 6 nextTime @
       '', '' @ show_int (getLastStatus M m) @ '')'') (fmuTime M m)"

partial_function (option) step_loop ::
    "'m me_fmu_ops \<Rightarrow> simulation_properties \<Rightarrow> double \<Rightarrow> 'm \<Rightarrow> 'm res option" where
  "step_loop M sp target m =
     (case integrate M m target (integratorStepSize sp) of (nextTime, m') \<Rightarrow>
        if isnan nextTime \<or> getLastStatus M m' \<noteq> fmiOK
        then Some (Inl (integration_error M m' target nextTime))
        else if \<not> variableStepSizeOnModelEvent sp \<and> flt (fmuTime M m') (fsub target (timingPrecision sp))
        then step_loop M sp target m'
        else Some (Inr m'))"

definition predictOneStep ::
    "'m me_fmu_ops \<Rightarrow> ('m, 'p) onestep_predictor \<Rightarrow> ('m, 'p) onestep_predictor res option" where
  "predictOneStep M s =
     map_option (\<lambda>r. rbind r (\<lambda>m. Inr (s\<lparr>fmu := m\<rparr>)))
       (step_loop M (simulationProperties s)
         (fadd (fmuTime M (fmu s)) (lookAheadStepSize (simulationProperties s))) (fmu s))"

definition onestep_predictNext ::
    "'m me_fmu_ops \<Rightarrow> ('m, 'p) onestep_predictor \<Rightarrow> (event \<times> ('m, 'p) onestep_predictor) res option" where
  "onestep_predictNext M s =
     (case currentPrediction s of
        Some ev \<Rightarrow> Some (Inr (ev, s))
      | None \<Rightarrow>
          map_option (\<lambda>r. rbind r (\<lambda>s1.
            rbind (updateOutputImage M s1) (\<lambda>(valuesChanged, s2).
            rbind (if valuesChanged then getOutputEvent M s2 else newStaticEvent (fmuTime M (fmu s2)) []) (\<lambda>ev.
              Inr (ev, s2\<lparr>currentPrediction := Some ev\<rparr>)))))
            (predictOneStep M s))"

section \<open>Received events\<close>

text \<open>The value an input is given: the switch over the type of the port.\<close>

definition input_value :: "variable \<Rightarrow> any res" where
  "input_value x =
     (case fst (var_id x) of
        fmiTypeReal \<Rightarrow> rbind (getRealValue x) (\<lambda>v. Inr (AnyReal v))
      | fmiTypeInteger \<Rightarrow> rbind (getIntegerValue x) (\<lambda>v. Inr (AnyInt v))
      | fmiTypeBoolean \<Rightarrow> rbind (getBooleanValue x) (\<lambda>v. Inr (AnyBool v))
      | fmiTypeString \<Rightarrow> rbind (getStringValue x) (\<lambda>v. Inr (AnyString v))
      | fmiTypeUnknown \<Rightarrow> Inl AssertionFailed)"

definition updateInputVariable ::
    "'m me_fmu_ops \<Rightarrow> (port_id \<rightharpoonup> value_ref) \<Rightarrow> 'm \<Rightarrow> variable \<Rightarrow> (bool \<times> 'm) res" where
  "updateInputVariable M refs m x =
     rbind (assert_that (var_isValid x)) (\<lambda>_.
       case refs (var_id x) of
         None \<Rightarrow> Inr (False, m)
       | Some ref \<Rightarrow>
           rbind (input_value x) (\<lambda>v.
             let (err, m') = set_value M m ref v in
             if err \<noteq> fmiOK
             then rbind (var_toString x) (\<lambda>txt. Inl (SolverException
               (''Unable to set input value '' @ txt @ '' ('' @ show_int err @ '')'') (fmuTime M m')))
             else Inr (True, m')))"

fun updateInputVariables ::
    "'m me_fmu_ops \<Rightarrow> (port_id \<rightharpoonup> value_ref) \<Rightarrow> 'm \<Rightarrow> variable list \<Rightarrow> (bool \<times> 'm) res" where
  "updateInputVariables M refs m [] = Inr (False, m)"
| "updateInputVariables M refs m (x # xs) =
     rbind (updateInputVariable M refs m x) (\<lambda>(f, m1).
     rbind (updateInputVariables M refs m1 xs) (\<lambda>(f', m2). Inr (f \<or> f', m2)))"

text \<open>Lazy events belong to the other predictor; none exists in a run with this one.\<close>

fun onestep_getVariables ::
    "('m, 'p) onestep_predictor \<Rightarrow> event \<Rightarrow> (variable list \<times> ('m, 'p) onestep_predictor) res" where
  "onestep_getVariables s (StaticEvent t xs) = Inr (xs, s)"
| "onestep_getVariables s (PartialEvent t tmpl xs n) = Inr (xs, s)"
| "onestep_getVariables s (LazyEvent t) = Inl AssertionFailed"

definition onestep_eventTriggered ::
    "'m me_fmu_ops \<Rightarrow> ('m, 'p) onestep_predictor \<Rightarrow> event \<Rightarrow> ('m, 'p) onestep_predictor res" where
  "onestep_eventTriggered M s ev =
     rbind (onestep_getVariables s ev) (\<lambda>(xs, s1).
     rbind (updateInputVariables M (inputValueReference s1) (fmu s1) xs) (\<lambda>(updated, m).
       if updated then Inr (s1\<lparr>fmu := handleEvents M m\<rparr>)
       else Inr (s1\<lparr>fmu := m, currentPrediction := None\<rparr>)))"

section \<open>The laws of the library\<close>

text \<open>
  Only \<open>setTime\<close> and \<open>integrate\<close> change the time of the model. An integration that reports no error
  ends between the start and the target, and makes progress when there is a way to go.
\<close>

locale me_fmu =
  fixes M :: "'m me_fmu_ops"
  assumes time_set: "fmuTime M (setTime M m t) = t"
    and named_time: "fmuTime M (snd (set_named M m n v)) = fmuTime M m"
    and value_time: "fmuTime M (snd (set_value M m ref v)) = fmuTime M m"
    and initialize_time: "fmuTime M (snd (initialize_fmu M m b t)) = fmuTime M m"
    and check_time: "fmuTime M (snd (checkTimeEvent M m)) = fmuTime M m"
    and handle_time: "fmuTime M (handleEvents M m) = fmuTime M m"
    and real_time: "fmuTime M (snd (snd (getRealValues M m refs))) = fmuTime M m"
    and integer_time: "fmuTime M (snd (snd (getIntegerValues M m refs))) = fmuTime M m"
    and boolean_time: "fmuTime M (snd (snd (getBooleanValues M m refs))) = fmuTime M m"
    and string_time: "fmuTime M (snd (snd (getStringValues M m refs))) = fmuTime M m"
    and integrate_within: "fle (fmuTime M m) target \<Longrightarrow> integrate M m target dt = (t, m') \<Longrightarrow> \<not> isnan t \<Longrightarrow>
      getLastStatus M m' = fmiOK \<Longrightarrow> fle (fmuTime M m) (fmuTime M m') \<and> fle (fmuTime M m') target"
    and integrate_progress: "flt (fmuTime M m) target \<Longrightarrow> integrate M m target dt = (t, m') \<Longrightarrow> \<not> isnan t \<Longrightarrow>
      getLastStatus M m' = fmiOK \<Longrightarrow> flt (fmuTime M m) (fmuTime M m')"

section \<open>One step\<close>

fun onestep_fails :: "exn \<Rightarrow> bool" where
  "onestep_fails (SolverException msg t) \<longleftrightarrow> True"
| "onestep_fails _ \<longleftrightarrow> False"

definition step_result :: "'m me_fmu_ops \<Rightarrow> simulation_properties \<Rightarrow> double \<Rightarrow> 'm \<Rightarrow> 'm \<Rightarrow> bool" where
  "step_result M sp target m m' \<longleftrightarrow> fle (fmuTime M m) (fmuTime M m') \<and> fle (fmuTime M m') target \<and>
     (variableStepSizeOnModelEvent sp \<or> fle (fsub target (timingPrecision sp)) (fmuTime M m'))"

context me_fmu
begin

text \<open>
  The loop ends: there are finitely many numbers between the time of the model and the target, and
  every pass but the last makes progress.
\<close>

lemma step_loop_returns:
  assumes "isfin (timingPrecision sp)" and "flt 0 (timingPrecision sp)" and "fle (fmuTime M m) target"
  shows "\<exists>r. step_loop M sp target m = Some r \<and> outcome onestep_fails (step_result M sp target m) r"
  using assms(3)
proof (induction "nat (dkey target - dkey (fmuTime M m))" arbitrary: m rule: less_induct)
  case less
  note o = tolerance_order_finite [OF assms(1) flt_dkey [OF assms(2)]]
  obtain t m' where i: "integrate M m target (integratorStepSize sp) = (t, m')" by fastforce
  have n: "\<not> isnan target" "\<not> isnan (fmuTime M m)" using less.prems by (simp_all add: fle_def)
  show ?case
  proof (cases "isnan t \<or> getLastStatus M m' \<noteq> fmiOK")
    case True
    then show ?thesis by (simp add: step_loop.simps [of M sp target m] i integration_error_def)
  next
    case ok: False
    then have w: "fle (fmuTime M m) (fmuTime M m')" "fle (fmuTime M m') target"
      using integrate_within [OF less.prems i] by simp_all
    have n': "\<not> isnan (fmuTime M m')" using w by (simp add: fle_def)
    have d: "\<not> isnan (fsub target (timingPrecision sp))" "fle (fsub target (timingPrecision sp)) target"
      using tolerance_order.dn_num [OF o n(1)] tolerance_order.dn_defl [OF o n(1)] by simp_all
    show ?thesis
    proof (cases "\<not> variableStepSizeOnModelEvent sp \<and> flt (fmuTime M m') (fsub target (timingPrecision sp))")
      case False
      then have "step_result M sp target m m'"
        using w n' d(1) dtime.not_le [OF d(1) n'] by (auto simp: step_result_def)
      then show ?thesis using ok False by (auto simp: step_loop.simps [of M sp target m] i)
    next
      case True
      then have "dkey (fmuTime M m') < dkey target" using d by (auto simp: fcmp_defs)
      moreover have "dkey (fmuTime M m) < dkey (fmuTime M m')"
      proof -
        have "flt (fmuTime M m) target" using calculation w n by (simp add: fcmp_defs)
        then show ?thesis using integrate_progress [OF _ i] ok by (simp add: flt_def)
      qed
      ultimately have "\<exists>r. step_loop M sp target m' = Some r \<and> outcome onestep_fails (step_result M sp target m') r"
        by (intro less.hyps w(2)) simp
      moreover have "step_result M sp target m m''" if "step_result M sp target m' m''" for m''
        using that w(1) dtime.le_trans by (auto simp: step_result_def)
      moreover have "step_loop M sp target m = step_loop M sp target m'"
        using ok True by (simp add: step_loop.simps [of M sp target m] i)
      ultimately show ?thesis using outcome_mono [where E = onestep_fails] by metis
    qed
  qed
qed

end

section \<open>Output images\<close>

lemma compare_update_spec:
  "compare_update differ vals i vs = (\<exists>k<length vs. differ (vs ! k) (vals (i + k)), map vals [i..<i + length vs])"
proof (induction vs arbitrary: i)
  case (Cons v vs)
  have "(\<exists>k<length (v # vs). differ ((v # vs) ! k) (vals (i + k))) \<longleftrightarrow>
      differ v (vals i) \<or> (\<exists>k<length vs. differ (vs ! k) (vals (Suc i + k)))"
    by (auto simp: Ex_less_Suc2)
  moreover have "map vals [i..<i + length (v # vs)] = vals i # map vals [Suc i..<Suc i + length vs]"
    by (simp add: upt_conv_Cons del: upt_Suc)
  ultimately show ?case by (simp add: Cons.IH)
qed simp

lemma updateOutputImage_typed_outcome:
  assumes "length refs = length img" and "\<And>m. fmuTime M (snd (snd (fetch m refs))) = fmuTime M m"
  shows "outcome onestep_fails (\<lambda>(ch, img', m'). length img' = length img \<and> fmuTime M m' = fmuTime M m \<and>
    ch = (\<not> list_all2 (\<lambda>a b. \<not> differ a b) img img') \<and>
    (if img = [] then m' = m else \<exists>vals. fetch m refs = (fmiOK, vals, m') \<and> img' = map vals [0..<length refs]))
    (updateOutputImage_typed M fetch differ m refs img)"
proof (cases "img = []")
  case False
  obtain err vals m' where f: "fetch m refs = (err, vals, m')" by (metis prod_cases3)
  have "fmuTime M m' = fmuTime M m" using assms(2) [of m] f by simp
  then show ?thesis using False assms(1) f
    by (auto simp: updateOutputImage_typed_def compare_update_spec list_all2_conv_all_nth)
qed (use assms in \<open>simp add: updateOutputImage_typed_def\<close>)

text \<open>The fields of the predictor that an update of the images leaves alone.\<close>

definition same_ports :: "('m, 'p) onestep_predictor \<Rightarrow> ('m, 'p) onestep_predictor \<Rightarrow> bool" where
  "same_ports s s' \<longleftrightarrow> outputValueReference s' = outputValueReference s \<and> outputMapping s' = outputMapping s \<and>
     inputValueReference s' = inputValueReference s \<and> simulationProperties s' = simulationProperties s"

definition image_sizes :: "('m, 'p) onestep_predictor \<Rightarrow> nat list" where
  "image_sizes s = [length (outputRealImage s), length (outputIntegerImage s), length (outputBooleanImage s),
     length (outputStringImage s)]"

definition refs_ok :: "('m, 'p) onestep_predictor \<Rightarrow> bool" where
  "refs_ok s \<longleftrightarrow> map length (outputValueReference s) = image_sizes s"

definition images_agree :: "('m, 'p) onestep_predictor \<Rightarrow> ('m, 'p) onestep_predictor \<Rightarrow> bool" where
  "images_agree s s' \<longleftrightarrow> list_all2 feq (outputRealImage s) (outputRealImage s') \<and>
     outputIntegerImage s' = outputIntegerImage s \<and> outputBooleanImage s' = outputBooleanImage s \<and>
     outputStringImage s' = outputStringImage s"

lemma refs_ok_nth:
  assumes "refs_ok s"
  shows "length (outputValueReference s) = 4" "length (outputValueReference s ! 0) = length (outputRealImage s)"
    "length (outputValueReference s ! 1) = length (outputIntegerImage s)"
    "length (outputValueReference s ! 2) = length (outputBooleanImage s)"
    "length (outputValueReference s ! 3) = length (outputStringImage s)"
proof -
  have l: "map length (outputValueReference s) = image_sizes s" using assms by (simp add: refs_ok_def)
  then have "length (map length (outputValueReference s)) = 4" by (simp add: image_sizes_def)
  then show "length (outputValueReference s) = 4" by simp
  then have "length (outputValueReference s ! k) = image_sizes s ! k" if "k < 4" for k
    using l that by (metis nth_map)
  from this [of 0] this [of 1] this [of 2] this [of 3]
  show "length (outputValueReference s ! 0) = length (outputRealImage s)"
    "length (outputValueReference s ! 1) = length (outputIntegerImage s)"
    "length (outputValueReference s ! 2) = length (outputBooleanImage s)"
    "length (outputValueReference s ! 3) = length (outputStringImage s)"
    by (simp_all add: image_sizes_def)
qed

context me_fmu
begin

lemma updateOutputImage_outcome:
  assumes "refs_ok s"
  shows "outcome onestep_fails (\<lambda>(ch, s'). same_ports s s' \<and> image_sizes s' = image_sizes s \<and>
    currentPrediction s' = currentPrediction s \<and> fmuTime M (fmu s') = fmuTime M (fmu s) \<and> ch = (\<not> images_agree s s'))
    (updateOutputImage M s)"
proof -
  note r = refs_ok_nth [OF assms]
  have eq: "list_all2 (=) xs ys \<longleftrightarrow> ys = xs" for xs ys :: "'v list" by (auto simp: list.rel_eq)
  show ?thesis unfolding updateOutputImage_def
    by (rule outcome_bind [OF updateOutputImage_typed_outcome [OF r(2) real_time]], clarify,
        rule outcome_bind [OF updateOutputImage_typed_outcome [OF r(3) integer_time]], clarify,
        rule outcome_bind [OF updateOutputImage_typed_outcome [OF r(4) boolean_time]], clarify,
        rule outcome_bind [OF updateOutputImage_typed_outcome [OF r(5) string_time]], clarify)
      (simp add: same_ports_def image_sizes_def images_agree_def eq)
qed

end

section \<open>The invariant of the predictor\<close>

definition output_ports :: "('m, 'p) onestep_predictor \<Rightarrow> port_id set" where
  "output_ports s = (case outputMapping s of None \<Rightarrow> {} | Some om \<Rightarrow> set (getAllVariableIDs om))"

text \<open>The rows of the output mapping, the images and the references have the same sizes.\<close>

definition outputs_ok :: "('m, 'p) onestep_predictor \<Rightarrow> bool" where
  "outputs_ok s \<longleftrightarrow> refs_ok s \<and> (\<exists>d om. outputMapping s = Some om \<and> mapping_ok d om \<and> variableIDs om ! 4 = [] \<and>
     map length (variableIDs om) = image_sizes s @ [0])"

definition steps_ok :: "simulation_properties \<Rightarrow> bool" where
  "steps_ok sp \<longleftrightarrow> isfin (lookAheadStepSize sp) \<and> flt 0 (lookAheadStepSize sp) \<and> timingPrecision sp = ten_to_minus_4"

definition prediction_ok :: "'m me_fmu_ops \<Rightarrow> ('m, 'p) onestep_predictor \<Rightarrow> event \<Rightarrow> bool" where
  "prediction_ok M s ev \<longleftrightarrow> (\<exists>xs. ev = StaticEvent (fmuTime M (fmu s)) xs \<and> list_all var_isValid xs \<and>
     var_id ` set xs \<subseteq> output_ports s)"

definition onestep_ready :: "'m me_fmu_ops \<Rightarrow> ('m, 'p) onestep_predictor \<Rightarrow> bool" where
  "onestep_ready M s \<longleftrightarrow> outputs_ok s \<and> output_ports s \<inter> dom (inputValueReference s) = {} \<and>
     steps_ok (simulationProperties s) \<and> fle 0 (fmuTime M (fmu s)) \<and>
     (\<forall>ev. currentPrediction s = Some ev \<longrightarrow> prediction_ok M s ev)"

text \<open>The prediction a state offers; it is forgotten when it reaches the predictor as an event.\<close>

definition onestep_offers :: "'m me_fmu_ops \<Rightarrow> ('m, 'p) onestep_predictor \<Rightarrow> event \<Rightarrow> bool" where
  "onestep_offers M s ev \<longleftrightarrow> onestep_ready M s \<and> prediction_ok M s ev \<and>
     (currentPrediction s = None \<or> currentPrediction s = Some ev)"

text \<open>All outputs of an image, in the order of the types.\<close>

definition output_variables :: "('m, 'p) onestep_predictor \<Rightarrow> variable list" where
  "output_variables s =
     (let ids = variableIDs (the (outputMapping s)) in
      map2 (\<lambda>i v. Variable i (AnyReal v)) (ids ! 0) (outputRealImage s) @
      map2 (\<lambda>i v. Variable i (AnyInt v)) (ids ! 1) (outputIntegerImage s) @
      map2 (\<lambda>i v. Variable i (AnyBool v)) (ids ! 2) (outputBooleanImage s) @
      map2 (\<lambda>i v. Variable i (AnyString v)) (ids ! 3) (outputStringImage s))"

lemma outputs_okE:
  assumes "outputs_ok s"
  obtains d om where "outputMapping s = Some om" "mapping_ok d om" "typed_rows (variableIDs om)"
    "length (variableIDs om ! 0) = length (outputRealImage s)"
    "length (variableIDs om ! 1) = length (outputIntegerImage s)"
    "length (variableIDs om ! 2) = length (outputBooleanImage s)"
    "length (variableIDs om ! 3) = length (outputStringImage s)"
    "output_ports s = set (concat (variableIDs om))"
proof -
  obtain d om where o: "outputMapping s = Some om" "mapping_ok d om" "map length (variableIDs om) = image_sizes s @ [0]"
    using assms by (auto simp: outputs_ok_def)
  have "length (variableIDs om) = 5" using o(2) by (simp add: mapping_ok_def)
  then have "length (variableIDs om ! k) = (image_sizes s @ [0]) ! k" if "k < 5" for k
    using o(3) that by (metis nth_map)
  from this [of 0] this [of 1] this [of 2] this [of 3] show thesis
    using o mapping_typed [OF o(2)]
    by (intro that [of om d]) (simp_all add: image_sizes_def output_ports_def getAllVariableIDs_def)
qed

lemma map2_variables:
  assumes "\<forall>i\<in>set ids. fst i = ty" and "\<And>v. any_has_type ty (mk v)"
  shows "list_all var_isValid (map2 (\<lambda>i v. Variable i (mk v)) ids vs)"
    and "var_id ` set (map2 (\<lambda>i v. Variable i (mk v)) ids vs) \<subseteq> set ids"
proof -
  have "any_has_type (fst i) (mk v)" if "(i, v) \<in> set (zip ids vs)" for i v
    using set_zip_leftD [OF that] assms by simp
  then show "list_all var_isValid (map2 (\<lambda>i v. Variable i (mk v)) ids vs)"
    by (fastforce simp: list_all_iff var_isValid_def Variable_def)
  show "var_id ` set (map2 (\<lambda>i v. Variable i (mk v)) ids vs) \<subseteq> set ids"
    by (auto simp: Variable_def dest: set_zip_leftD)
qed

lemma output_variables_ok:
  assumes "outputs_ok s"
  shows "list_all var_isValid (output_variables s)" "var_id ` set (output_variables s) \<subseteq> output_ports s"
proof -
  obtain d om where o: "outputMapping s = Some om" "typed_rows (variableIDs om)" "output_ports s = set (concat (variableIDs om))"
    using outputs_okE [OF assms] by metis
  note t = typed_rows_nth [OF o(2)]
  note c = typed_rows_concat [OF o(2), of 0] typed_rows_concat [OF o(2), of 1] typed_rows_concat [OF o(2), of 2]
    typed_rows_concat [OF o(2), of 3]
  show "list_all var_isValid (output_variables s)"
    using map2_variables(1) [OF t(1), of AnyReal] map2_variables(1) [OF t(2), of AnyInt]
      map2_variables(1) [OF t(3), of AnyBool] map2_variables(1) [OF t(4), of AnyString]
    by (simp add: output_variables_def o(1) Let_def)
  show "var_id ` set (output_variables s) \<subseteq> output_ports s"
    using map2_variables(2) [OF t(1), of AnyReal "outputRealImage s"] map2_variables(2) [OF t(2), of AnyInt "outputIntegerImage s"]
      map2_variables(2) [OF t(3), of AnyBool "outputBooleanImage s"] map2_variables(2) [OF t(4), of AnyString "outputStringImage s"] c
    unfolding output_variables_def o(1) option.sel Let_def set_append image_Un o(3)
    by (intro Un_least) (simp; blast)+
qed

lemma newStaticEvent_ok: "list_all var_isValid xs \<Longrightarrow> newStaticEvent t xs = Inr (StaticEvent t xs)"
  by (simp add: newStaticEvent_def vars_isValid_iff [THEN iffD2])

lemma getOutputEvent_ok:
  assumes "outputs_ok s"
  shows "getOutputEvent M s = Inr (StaticEvent (fmuTime M (fmu s)) (output_variables s))"
proof -
  obtain d om where o: "outputMapping s = Some om" "mapping_ok d om"
    "length (variableIDs om ! 0) = length (outputRealImage s)" "length (variableIDs om ! 1) = length (outputIntegerImage s)"
    "length (variableIDs om ! 2) = length (outputBooleanImage s)" "length (variableIDs om ! 3) = length (outputStringImage s)"
    using outputs_okE [OF assms] by metis
  have "getOutputEvent M s = newStaticEvent (fmuTime M (fmu s)) (output_variables s)"
    using o(3-) by (simp add: getOutputEvent_def o(1) mapping_rows [OF o(2)] appendOutputVariables_def output_variables_def
        Let_def)
  then show ?thesis using newStaticEvent_ok output_variables_ok(1) [OF assms] by simp
qed

lemma outputs_ok_same:
  assumes "outputs_ok s" and "same_ports s s'" and "image_sizes s' = image_sizes s"
  shows "outputs_ok s'" "output_ports s' = output_ports s"
  using assms by (auto simp: outputs_ok_def refs_ok_def same_ports_def output_ports_def)

section \<open>Prediction\<close>

text \<open>
  What a prediction that is made anew returns: an event at the time the model reached, with all
  outputs when one of them changed and without variables otherwise.
\<close>

definition predicted :: "'m me_fmu_ops \<Rightarrow> ('m, 'p) onestep_predictor \<Rightarrow> event \<Rightarrow> ('m, 'p) onestep_predictor \<Rightarrow> bool" where
  "predicted M s ev s' \<longleftrightarrow>
     step_result M (simulationProperties s)
       (fadd (fmuTime M (fmu s)) (lookAheadStepSize (simulationProperties s))) (fmu s) (fmu s') \<and>
     same_ports s s' \<and> image_sizes s' = image_sizes s \<and> currentPrediction s' = Some ev \<and>
     ev = StaticEvent (fmuTime M (fmu s')) (if images_agree s s' then [] else output_variables s')"

context me_fmu
begin

lemma step_target:
  assumes "steps_ok sp" and "\<not> isnan t"
  shows "fle t (fadd t (lookAheadStepSize sp))" "isfin (timingPrecision sp)" "flt 0 (timingPrecision sp)"
proof -
  have l: "isfin (lookAheadStepSize sp)" "flt 0 (lookAheadStepSize sp)" using assms(1) by (simp_all add: steps_ok_def)
  from tolerance_order.up_infl [OF tolerance_order_finite [OF l(1) flt_dkey [OF l(2)]] assms(2)]
  show "fle t (fadd t (lookAheadStepSize sp))" .
  show "isfin (timingPrecision sp)" "flt 0 (timingPrecision sp)"
    using assms(1) flt_constants(2) by (simp_all add: steps_ok_def ten_to_minus_4_def fp_eval)
qed

lemma predictOneStep_returns:
  assumes "steps_ok (simulationProperties s)" and "fle 0 (fmuTime M (fmu s))"
  shows "\<exists>r. predictOneStep M s = Some r \<and> outcome onestep_fails (\<lambda>s'. \<exists>m. s' = s\<lparr>fmu := m\<rparr> \<and>
    step_result M (simulationProperties s) (fadd (fmuTime M (fmu s)) (lookAheadStepSize (simulationProperties s))) (fmu s) m) r"
proof -
  have n: "\<not> isnan (fmuTime M (fmu s))" using assms(2) by (simp add: fle_def)
  note t = step_target [OF assms(1) n]
  obtain r where "step_loop M (simulationProperties s)
      (fadd (fmuTime M (fmu s)) (lookAheadStepSize (simulationProperties s))) (fmu s) = Some r"
    "outcome onestep_fails (step_result M (simulationProperties s)
      (fadd (fmuTime M (fmu s)) (lookAheadStepSize (simulationProperties s))) (fmu s)) r"
    using step_loop_returns [OF t(2,3,1)] by blast
  then show ?thesis by (cases r) (auto simp: predictOneStep_def)
qed

lemma predictNext_new:
  assumes "onestep_ready M s" and "currentPrediction s = None"
  shows "\<exists>r. onestep_predictNext M s = Some r \<and> outcome onestep_fails (\<lambda>(ev, s'). predicted M s ev s') r"
proof -
  have s: "outputs_ok s" "refs_ok s" "steps_ok (simulationProperties s)" "fle 0 (fmuTime M (fmu s))"
    using assms(1) by (simp_all add: onestep_ready_def outputs_ok_def)
  let ?cont = "\<lambda>s1. rbind (updateOutputImage M s1) (\<lambda>(valuesChanged, s2).
      rbind (if valuesChanged then getOutputEvent M s2 else newStaticEvent (fmuTime M (fmu s2)) []) (\<lambda>ev.
        Inr (ev, s2\<lparr>currentPrediction := Some ev\<rparr>)))"
  obtain r where r: "predictOneStep M s = Some r" "outcome onestep_fails (\<lambda>s'. \<exists>m. s' = s\<lparr>fmu := m\<rparr> \<and>
      step_result M (simulationProperties s) (fadd (fmuTime M (fmu s)) (lookAheadStepSize (simulationProperties s))) (fmu s) m) r"
    using predictOneStep_returns [OF s(3,4)] by blast
  have "outcome onestep_fails (\<lambda>(ev, s'). predicted M s ev s') (rbind r ?cont)"
  proof (rule outcome_bind [OF r(2)], elim exE conjE, hypsubst)
    fix m
    assume st: "step_result M (simulationProperties s)
      (fadd (fmuTime M (fmu s)) (lookAheadStepSize (simulationProperties s))) (fmu s) m"
    have rm: "refs_ok (s\<lparr>fmu := m\<rparr>)" using s(2) by (simp add: refs_ok_def image_sizes_def)
    show "outcome onestep_fails (\<lambda>(ev, s'). predicted M s ev s') (?cont (s\<lparr>fmu := m\<rparr>))"
    proof (rule outcome_bind [OF updateOutputImage_outcome [OF rm]], clarify)
      fix s2
      assume u: "same_ports (s\<lparr>fmu := m\<rparr>) s2" "image_sizes s2 = image_sizes (s\<lparr>fmu := m\<rparr>)"
        "fmuTime M (fmu s2) = fmuTime M (fmu (s\<lparr>fmu := m\<rparr>))"
      have p: "same_ports s s2" "image_sizes s2 = image_sizes s"
        using u by (simp_all add: same_ports_def image_sizes_def)
      have ag: "images_agree (s\<lparr>fmu := m\<rparr>) s2 = images_agree s s2" by (simp add: images_agree_def)
      have "output_variables (s2\<lparr>currentPrediction := x\<rparr>) = output_variables s2" for x
        by (simp add: output_variables_def)
      then show "outcome onestep_fails (\<lambda>(ev, s'). predicted M s ev s')
          (rbind (if \<not> images_agree (s\<lparr>fmu := m\<rparr>) s2 then getOutputEvent M s2 else newStaticEvent (fmuTime M (fmu s2)) [])
            (\<lambda>ev. Inr (ev, s2\<lparr>currentPrediction := Some ev\<rparr>)))"
        using st p u(3) getOutputEvent_ok [OF outputs_ok_same(1) [OF s(1) p]] newStaticEvent_ok [of "[]"]
        by (simp add: ag predicted_def step_result_def same_ports_def image_sizes_def images_agree_def)
    qed
  qed
  then show ?thesis using r(1) assms(2) by (auto simp: onestep_predictNext_def)
qed

lemma predicted_offers:
  assumes "onestep_ready M s" and "predicted M s ev s'"
  shows "onestep_offers M s' ev" "valid_time (getTime ev)"
proof -
  have s: "outputs_ok s" "fle 0 (fmuTime M (fmu s))" "same_ports s s'" "image_sizes s' = image_sizes s"
    using assms by (simp_all add: onestep_ready_def predicted_def)
  note o = outputs_ok_same [OF s(1,3,4)]
  have t: "fle 0 (fmuTime M (fmu s'))"
    using s(2) assms(2) dtime.le_trans by (auto simp: predicted_def step_result_def)
  have p: "prediction_ok M s' ev"
    using assms(2) output_variables_ok [OF o(1)] by (auto simp: predicted_def prediction_ok_def)
  show "valid_time (getTime ev)" using valid_time_nonneg [OF t] p by (auto simp: prediction_ok_def)
  show "onestep_offers M s' ev"
    using p t o assms by (auto simp: onestep_offers_def onestep_ready_def same_ports_def predicted_def)
qed

lemma predictNext_outcome:
  assumes "onestep_ready M s"
  shows "\<exists>r. onestep_predictNext M s = Some r \<and>
    outcome onestep_fails (\<lambda>(ev, s'). onestep_offers M s' ev \<and> valid_time (getTime ev)) r"
proof (cases "currentPrediction s")
  case None
  obtain r where r: "onestep_predictNext M s = Some r" "outcome onestep_fails (\<lambda>(ev, s'). predicted M s ev s') r"
    using predictNext_new [OF assms None] by blast
  from outcome_mono [OF r(2)] show ?thesis using r(1) predicted_offers [OF assms] by auto
next
  case (Some ev)
  then have p: "prediction_ok M s ev" "fle 0 (fmuTime M (fmu s))" using assms by (simp_all add: onestep_ready_def)
  then have "valid_time (getTime ev)" using valid_time_nonneg by (auto simp: prediction_ok_def)
  with Some p assms show ?thesis by (simp add: onestep_predictNext_def onestep_offers_def)
qed

end

section \<open>Received events\<close>

lemma input_value_ok: "var_isValid x \<Longrightarrow> input_value x = Inr (var_data x)"
  by (cases "fst (var_id x)"; cases "var_data x")
    (simp_all add: input_value_def var_isValid_def getRealValue_def getIntegerValue_def getBooleanValue_def
      getStringValue_def)

lemma var_toString_valid: "var_isValid x \<Longrightarrow> \<exists>txt. var_toString x = Inr txt"
  by (cases "fst (var_id x)"; cases "var_data x")
    (simp_all add: var_toString_def value_string_def var_isValid_def getRealValue_def getIntegerValue_def
      getBooleanValue_def getStringValue_def)

text \<open>The model after the values of an event were given to it, one after the other.\<close>

definition assign_inputs :: "'m me_fmu_ops \<Rightarrow> (port_id \<rightharpoonup> value_ref) \<Rightarrow> variable list \<Rightarrow> 'm \<Rightarrow> 'm" where
  "assign_inputs M refs = fold (\<lambda>x m. case refs (var_id x) of None \<Rightarrow> m | Some r \<Rightarrow> snd (set_value M m r (var_data x)))"

lemma assign_inputs_none: "\<forall>x\<in>set xs. var_id x \<notin> dom refs \<Longrightarrow> assign_inputs M refs xs m = m"
  by (induction xs arbitrary: m) (auto simp: assign_inputs_def domIff)

lemma updateInputVariable_outcome:
  assumes "var_isValid x"
  shows "outcome onestep_fails (\<lambda>(f, m'). f = (var_id x \<in> dom refs) \<and> m' = assign_inputs M refs [x] m)
    (updateInputVariable M refs m x)"
proof (cases "refs (var_id x)")
  case (Some r)
  obtain err m' where v: "set_value M m r (var_data x) = (err, m')" by fastforce
  obtain msg where "var_toString x = Inr msg" using var_toString_valid [OF assms] by blast
  then show ?thesis using Some v assms
    by (simp add: updateInputVariable_def input_value_ok assign_inputs_def domI)
qed (use assms in \<open>simp add: updateInputVariable_def assign_inputs_def domIff\<close>)

lemma updateInputVariables_outcome:
  assumes "list_all var_isValid xs"
  shows "outcome onestep_fails (\<lambda>(f, m'). f = (\<exists>x\<in>set xs. var_id x \<in> dom refs) \<and> m' = assign_inputs M refs xs m)
    (updateInputVariables M refs m xs)"
  using assms
proof (induction xs arbitrary: m)
  case (Cons x xs)
  have "assign_inputs M refs xs (assign_inputs M refs [x] m) = assign_inputs M refs (x # xs) m"
    by (simp add: assign_inputs_def)
  with Cons show ?case unfolding updateInputVariables.simps
    by (intro outcome_bind [OF updateInputVariable_outcome]) (auto intro!: outcome_bind [OF Cons.IH])
qed (simp add: assign_inputs_def)

text \<open>The state after an event: the values are given to the model, or the prediction is forgotten.\<close>

definition after_event :: "'m me_fmu_ops \<Rightarrow> ('m, 'p) onestep_predictor \<Rightarrow> variable list \<Rightarrow> ('m, 'p) onestep_predictor" where
  "after_event M s xs =
     (if \<exists>x\<in>set xs. var_id x \<in> dom (inputValueReference s)
      then s\<lparr>fmu := handleEvents M (assign_inputs M (inputValueReference s) xs (fmu s))\<rparr>
      else s\<lparr>currentPrediction := None\<rparr>)"

lemma eventTriggered_outcome:
  assumes "onestep_getVariables s ev = Inr (xs, s)" and "list_all var_isValid xs"
  shows "outcome onestep_fails (\<lambda>s'. s' = after_event M s xs) (onestep_eventTriggered M s ev)"
  unfolding onestep_eventTriggered_def assms(1) rbind.simps prod.case
  by (rule outcome_bind [OF updateInputVariables_outcome [OF assms(2)]])
    (simp add: after_event_def assign_inputs_none case_prod_beta)

lemma getVariables_external:
  "external_ok ev \<Longrightarrow> onestep_getVariables s ev = Inr (event_vars ev, s) \<and> list_all var_isValid (event_vars ev)"
  by (cases ev) simp_all

lemma prediction_ok_vars:
  "prediction_ok M s ev \<Longrightarrow> onestep_getVariables s ev = Inr (event_vars ev, s) \<and> list_all var_isValid (event_vars ev) \<and>
     var_id ` set (event_vars ev) \<subseteq> output_ports s"
  by (auto simp: prediction_ok_def)

context me_fmu
begin

lemma assign_inputs_time: "fmuTime M (assign_inputs M refs xs m) = fmuTime M m"
  by (induction xs arbitrary: m) (auto simp: assign_inputs_def value_time split: option.splits)

lemma after_event_ready:
  assumes "onestep_ready M s"
  shows "onestep_ready M (after_event M s xs)"
  using assms by (auto simp: after_event_def onestep_ready_def outputs_ok_def refs_ok_def image_sizes_def output_ports_def
      prediction_ok_def handle_time assign_inputs_time)

lemma notify_external_outcome:
  assumes "onestep_offers M s p" and "external_ok ev"
  shows "outcome onestep_fails (onestep_ready M) (onestep_eventTriggered M s ev)"
  using eventTriggered_outcome [of s ev "event_vars ev" M] getVariables_external [OF assms(2), of s]
    after_event_ready [of s "event_vars ev"] assms(1)
  by (auto simp: onestep_offers_def elim: outcome_mono)

lemma notify_prediction_outcome:
  assumes "onestep_offers M s ev"
  shows "outcome onestep_fails (\<lambda>s'. s' = s\<lparr>currentPrediction := None\<rparr> \<and> onestep_offers M s' ev) (onestep_eventTriggered M s ev)"
proof -
  have s: "onestep_ready M s" "prediction_ok M s ev" using assms by (simp_all add: onestep_offers_def)
  have v: "onestep_getVariables s ev = Inr (event_vars ev, s)" "list_all var_isValid (event_vars ev)"
      "var_id ` set (event_vars ev) \<subseteq> output_ports s" using prediction_ok_vars [OF s(2)] by simp_all
  have "after_event M s (event_vars ev) = s\<lparr>currentPrediction := None\<rparr>"
    using v(3) s(1) by (auto simp: after_event_def onestep_ready_def)
  moreover have "prediction_ok M (s\<lparr>currentPrediction := None\<rparr>) ev"
    using s(2) by (simp add: prediction_ok_def output_ports_def)
  ultimately show ?thesis
    using outcome_mono [OF eventTriggered_outcome [OF v(1,2), of M]] after_event_ready [OF s(1), of "event_vars ev"]
    by (auto simp: onestep_offers_def)
qed

lemma read_outcome:
  "onestep_offers M s ev \<Longrightarrow> onestep_getVariables s ev = Inr (event_vars ev, s) \<and> list_all var_isValid (event_vars ev)"
  using prediction_ok_vars by (fastforce simp: onestep_offers_def)

end

section \<open>Initialization\<close>

definition onestep_fresh :: "('m, 'p) onestep_predictor \<Rightarrow> bool" where
  "onestep_fresh s \<longleftrightarrow> image_sizes s = [0, 0, 0, 0] \<and> outputValueReference s = replicate 4 [] \<and> outputMapping s = None \<and>
     inputValueReference s = Map.empty \<and> currentPrediction s = None"

lemma OneStepEventPredictor_fresh: "OneStepEventPredictor M mgr sundials sp P c = Inr s \<Longrightarrow> onestep_fresh s"
  by (auto simp: OneStepEventPredictor_def instantiateModel_def res_simps onestep_fresh_def image_sizes_def
      case_prod_beta Let_def split: if_splits)

lemma output_refs_outcome: "outcome is_invalid_argument (\<lambda>rs. length rs = length names) (output_refs M m names)"
proof (induction names)
  case (Cons n ns)
  then show ?case by (auto intro!: outcome_bind [OF Cons.IH])
qed simp

lemma initOutputValueReferences_outcome:
  assumes "outputMapping s = Some om" and "mapping_ok d om" and "length (outputValueReference s) = 4"
    and "type_code ty < 4" and "outputValueReference s ! type_code ty = []"
  shows "outcome is_invalid_argument (\<lambda>s'. \<exists>rs. length rs = length (variableIDs om ! type_code ty) \<and>
    s' = s\<lparr>outputValueReference := (outputValueReference s)[type_code ty := rs]\<rparr>) (initOutputValueReferences M ty s)"
  using assms output_refs_outcome [of "variableNames om ! type_code ty" M "fmu s"] mapping_rows [OF assms(2), of ty]
  by (simp add: initOutputValueReferences_def) (erule outcome_bind, auto)

lemma resize_fresh: "length xs = 0 \<Longrightarrow> length (resize n v xs) = n"
  by (simp add: resize_def)

lemma initOutputStructures_outcome:
  assumes "onestep_fresh s" and "mapping_ok d om"
  shows "outcome is_invalid_argument (\<lambda>s'. outputs_ok s' \<and> outputMapping s' = Some om \<and>
    inputValueReference s' = Map.empty \<and> currentPrediction s' = None \<and> fmu s' = fmu s) (initOutputStructures M om s)"
proof -
  note rows = mapping_rows [OF assms(2)]
  define s1 where "s1 = s\<lparr>outputMapping := Some om, outputRealImage := resize (length (variableIDs om ! 0)) 0 (outputRealImage s),
    outputIntegerImage := resize (length (variableIDs om ! 1)) 0 (outputIntegerImage s),
    outputBooleanImage := resize (length (variableIDs om ! 2)) 0 (outputBooleanImage s),
    outputStringImage := resize (length (variableIDs om ! 3)) [] (outputStringImage s)\<rparr>"
  have size: "sizeImages om (s\<lparr>outputMapping := Some om\<rparr>) = Inr s1" by (simp add: sizeImages_def rows s1_def)
  have f: "outputValueReference s1 = [[], [], [], []]" "outputMapping s1 = Some om" "inputValueReference s1 = Map.empty"
    "currentPrediction s1 = None" "fmu s1 = fmu s"
    "image_sizes s1 = [length (variableIDs om ! 0), length (variableIDs om ! 1), length (variableIDs om ! 2), length (variableIDs om ! 3)]"
    using assms(1) by (simp_all add: s1_def onestep_fresh_def image_sizes_def resize_fresh numeral_eq_Suc)
  have four: "outcome is_invalid_argument (\<lambda>s5. \<exists>r0 r1 r2 r3. s5 = s1\<lparr>outputValueReference := [r0, r1, r2, r3]\<rparr> \<and>
      map length [r0, r1, r2, r3] = image_sizes s1)
      (rbind (initOutputValueReferences M fmiTypeReal s1) (\<lambda>s2. rbind (initOutputValueReferences M fmiTypeInteger s2) (\<lambda>s3.
       rbind (initOutputValueReferences M fmiTypeBoolean s3) (initOutputValueReferences M fmiTypeString))))"
    by (rule outcome_bind [OF initOutputValueReferences_outcome [OF _ assms(2)]], (simp add: f)+,
        rule outcome_bind [OF initOutputValueReferences_outcome [OF _ assms(2)]], (auto simp: f)[5],
        rule outcome_bind [OF initOutputValueReferences_outcome [OF _ assms(2)]], (auto simp: f)[5],
        rule outcome_mono [OF initOutputValueReferences_outcome [OF _ assms(2)]]) (auto simp: f numeral_eq_Suc)
  have ok: "outputs_ok (s1\<lparr>outputValueReference := rs\<rparr>)" if "map length rs = image_sizes s1" "variableNames om ! 4 = []" for rs
  proof -
    have "map length (variableIDs om) = image_sizes s1 @ [0]"
      by (subst mapping_five [OF assms(2) that(2)]) (simp add: f(6))
    moreover have "variableIDs om ! 4 = []" using rows(3) [of fmiTypeUnknown] that(2) by simp
    ultimately show ?thesis using that(1) assms(2) f(2) by (auto simp: outputs_ok_def refs_ok_def image_sizes_def)
  qed
  have "initOutputStructures M om s = rbind (rbind (initOutputValueReferences M fmiTypeReal s1) (\<lambda>s2.
      rbind (initOutputValueReferences M fmiTypeInteger s2) (\<lambda>s3.
      rbind (initOutputValueReferences M fmiTypeBoolean s3) (initOutputValueReferences M fmiTypeString))))
      (\<lambda>s5. case variableNames om ! 4 of [] \<Rightarrow> Inr s5 | n # ns \<Rightarrow> Inl (unknown_output n))"
    by (simp add: initOutputStructures_def size rbind_assoc rows)
  also have "outcome is_invalid_argument (\<lambda>s'. outputs_ok s' \<and> outputMapping s' = Some om \<and>
      inputValueReference s' = Map.empty \<and> currentPrediction s' = None \<and> fmu s' = fmu s) \<dots>"
    by (rule outcome_bind [OF four], cases "variableNames om ! 4") (auto simp: ok f unknown_output_def)
  finally show ?thesis .
qed

lemma input_refs_outcome:
  "outcome is_invalid_argument (\<lambda>refs'. dom refs' = dom refs \<union> snd ` set ps) (input_refs M m ps refs)"
proof (induction ps arbitrary: refs)
  case (Cons p ps)
  obtain n i where p: "p = (n, i)" by (cases p)
  have "outcome is_invalid_argument (\<lambda>refs'. dom refs' = insert i (dom refs \<union> snd ` set ps))
      (input_refs M m ps (refs(i \<mapsto> getValueRef M m n)))"
    by (rule outcome_mono [OF Cons.IH]) (simp_all only: dom_fun_upd option.distinct if_False Un_insert_left)
  then show ?case by (simp add: p)
qed simp

lemma mapping_all_lengths:
  assumes "mapping_ok d m"
  shows "length (getAllVariableNames m) = length (getAllVariableIDs m)"
proof -
  have l: "length (variableNames m) = 5" "length (variableIDs m) = 5" using assms by (simp_all add: mapping_ok_def)
  have "length (variableNames m ! k) = length (variableIDs m ! k)" if "k < 5" for k
    using that mapping_rows(3) [OF assms, of "all_types ! k"] by (auto simp: all_types_def less_Suc_eq numeral_eq_Suc)
  then have "map length (variableNames m) = map length (variableIDs m)" using l by (intro nth_equalityI) simp_all
  then show ?thesis by (simp add: getAllVariableNames_def getAllVariableIDs_def length_concat)
qed

lemma initInputValueReference_outcome:
  assumes "mapping_ok d im" and "inputValueReference s = Map.empty"
  shows "outcome is_invalid_argument (\<lambda>s'. \<exists>refs. s' = s\<lparr>inputValueReference := refs\<rparr> \<and>
    dom refs = set (getAllVariableIDs im)) (initInputValueReference M im s)"
proof -
  have l: "length (getAllVariableNames im) = length (getAllVariableIDs im)" by (rule mapping_all_lengths [OF assms(1)])
  then have "snd ` set (zip (getAllVariableNames im) (getAllVariableIDs im)) = set (getAllVariableIDs im)"
    by (metis list.set_map map_snd_zip)
  then show ?thesis unfolding initInputValueReference_def
    using input_refs_outcome [of "inputValueReference s" "zip (getAllVariableNames im) (getAllVariableIDs im)" M "fmu s"] assms(2) l
    by (auto intro!: outcome_bind)
qed

lemma real_finite:
  assumes "finite_numbers P" and "getRealPositiveDoubleProperty P c path = Inr r"
  shows "isfin r" "flt 0 r"
proof -
  have p: "hasProperty P c path" and g: "getRealPositiveDoublePropertyOr P c path double_one = Inr r"
    using assms(2) by (simp_all add: getRealPositiveDoubleProperty_def split: if_splits)
  show "flt 0 r" using g by (auto simp: getRealPositiveDoublePropertyOr_def res_simps bad_property_def split: if_splits)
  have "getPositiveDoublePropertyOr P c path double_one = Inr r"
    using g by (auto simp: getRealPositiveDoublePropertyOr_def res_simps bad_property_def split: if_splits)
  then have "getPositiveDoubleProperty P c path = Inr r"
    using p fle_zero by (auto simp: getPositiveDoubleProperty_def getPositiveDoublePropertyOr_def getPropertyOr_def res_simps
        split: if_splits)
  then show "isfin r" by (rule start_finite [OF assms(1)])
qed

lemma real_property_config:
  assumes "config c' = config c"
  shows "getRealPositiveDoubleProperty P c' path = getRealPositiveDoubleProperty P c path"
  unfolding getRealPositiveDoubleProperty_def hasProperty_def getRealPositiveDoublePropertyOr_def
    getPositiveDoublePropertyOr_def getPropertyOr_def getProperty_def bad_property_def assms ..

text \<open>The default of the integrator step size, a tenth of the look-ahead time, does not underflow.\<close>

definition default_step_positive :: "'p ptree_ops \<Rightarrow> 'p application_context \<Rightarrow> bool" where
  "default_step_positive P c = (case getRealPositiveDoubleProperty P c PROP_LOOK_AHEAD_TIME of
     Inl e \<Rightarrow> True | Inr look \<Rightarrow> flt 0 (fdiv look ten))"

lemma initSimulationProperties_outcome:
  assumes "finite_numbers P" and "default_step_positive P c"
  shows "outcome is_invalid_argument (\<lambda>s'. \<exists>sp. s' = s\<lparr>simulationProperties := sp\<rparr> \<and> steps_ok sp) (initSimulationProperties P c s)"
  unfolding initSimulationProperties_def
proof (rule outcome_bind [OF getRealPositiveDoubleProperty_outcome])
  fix look
  assume l: "getRealPositiveDoubleProperty P c PROP_LOOK_AHEAD_TIME = Inr look"
  have d: "flt 0 (fdiv look ten)" using assms(2) l by (simp add: default_step_positive_def)
  have b: "outcome is_invalid_argument (\<lambda>_. True) (if x then bad_property P c msg path else Inr ())" for x msg path
    by (simp add: bad_property_outcome)
  show "outcome is_invalid_argument (\<lambda>s'. \<exists>sp. s' = s\<lparr>simulationProperties := sp\<rparr> \<and> steps_ok sp)
      (rbind (getRealPositiveDoublePropertyOr P c PROP_INTEGRATOR_STEP_SIZE (fdiv look ten)) (\<lambda>integ.
      rbind (if flt look integ
            then bad_property P c ''The integrator step size exceeds the look ahead step size'' PROP_INTEGRATOR_STEP_SIZE
            else Inr ()) (\<lambda>_.
      rbind (getPropertyOr P (as_bool P) c PROP_VARIABLE_STEP_SIZE False) (\<lambda>var.
       Inr (s\<lparr>simulationProperties := \<lparr>lookAheadStepSize = look, integratorStepSize = integ,
         variableStepSizeOnModelEvent = var, timingPrecision = ten_to_minus_4\<rparr>\<rparr>)))))"
    by (rule outcome_bind [OF getRealPositiveDoublePropertyOr_outcome [OF d]], rule outcome_bind [OF b],
        rule outcome_bind [OF getPropertyOr_outcome], unfold outcome_simps, intro exI conjI, rule refl)
      (simp add: steps_ok_def real_finite [OF assms(1) l])
qed

lemma default_value_outcome:
  "ty \<noteq> fmiTypeUnknown \<Longrightarrow> outcome is_invalid_argument (\<lambda>_. True) (default_value P c path ty)"
  unfolding default_value_def by (cases ty; simp; rule outcome_bind [OF getProperty_outcome]; simp)

text \<open>The state and the context \<open>init\<close> leaves: the ports are those of the two mappings.\<close>

definition onestep_init_result :: "'m me_fmu_ops \<Rightarrow> ('m, 'p) onestep_predictor \<times> 'p application_context \<Rightarrow> bool" where
  "onestep_init_result M = (\<lambda>(s', c'). onestep_ready M s' \<and> currentPrediction s' = None \<and> context_ok c' \<and>
    (\<exists>om im. outputChannelMap c' = Some om \<and> outputMapping s' = Some om \<and> inputChannelMap c' = Some im \<and>
      dom (inputValueReference s') = set (getAllVariableIDs im)))"

context me_fmu
begin

lemma setDefaultValue_outcome:
  "outcome is_invalid_argument (\<lambda>m'. fmuTime M m' = fmuTime M m) (setDefaultValue M P c n m)"
proof (cases "getType M m n = fmiTypeUnknown")
  case False
  have "outcome is_invalid_argument (\<lambda>m'. fmuTime M m' = fmuTime M m)
      (let (err, m') = set_named M m n v in if err \<noteq> fmiOK then bad_property P c msg path else Inr m')" for v msg path
    using named_time [of m n v] by (cases "set_named M m n v") (simp add: bad_property_outcome)
  then show ?thesis using False
    by (auto simp: setDefaultValue_def Let_def case_prod_beta bad_property_outcome named_time
        intro!: outcome_bind [OF default_value_outcome])
qed (simp add: setDefaultValue_def)

lemma set_defaults_outcome:
  "outcome is_invalid_argument (\<lambda>m'. fmuTime M m' = fmuTime M m) (set_defaults M P c ns m)"
proof (induction ns arbitrary: m)
  case (Cons n ns)
  show ?case unfolding set_defaults.simps
    by (rule outcome_bind [OF setDefaultValue_outcome], rule outcome_mono [OF Cons.IH]) simp_all
qed simp

lemma setDefaultValues_outcome:
  "outcome is_invalid_argument (\<lambda>m'. fmuTime M m' = fmuTime M m) (setDefaultValues M P c m)"
  using set_defaults_outcome
  by (auto simp: setDefaultValues_def getPropertyTree_def missing_def split: option.splits)

lemma initModel_outcome:
  "outcome is_invalid_argument (\<lambda>s'. \<exists>m. s' = s\<lparr>fmu := m\<rparr> \<and> fmuTime M m = start) (initModel M P c start s)"
proof -
  have d: "outcome is_invalid_argument (\<lambda>m'. fmuTime M m' = start) (setDefaultValues M P c (setTime M (fmu s) start))"
    using setDefaultValues_outcome [of "setTime M (fmu s) start" P c] by (simp add: time_set)
  show ?thesis unfolding initModel_def
    by (rule outcome_bind [OF d])
      (auto simp: Let_def case_prod_beta status_error_def handle_time check_time initialize_time)
qed

lemma onestep_fails_invalid: "onestep_fails e \<Longrightarrow> is_invalid_argument e"
  by (cases e) simp_all

text \<open>The part of \<open>init\<close> behind the construction of the mappings.\<close>

lemma updated:
  assumes "outputs_ok s" and "outputMapping s = Some om" and "inputValueReference s = Map.empty" and "currentPrediction s = None"
    and "dom refs = set (getAllVariableIDs im)" and "steps_ok sp" and "fmuTime M m = start"
    and "set (getAllVariableIDs om) \<inter> set (getAllVariableIDs im) = {}" and "fle 0 start"
    and "context_ok c" and "outputChannelMap c = Some om" and "inputChannelMap c = Some im"
  shows "outcome is_invalid_argument (onestep_init_result M) (rbind (updateOutputImage M
    (s\<lparr>inputValueReference := refs, simulationProperties := sp, fmu := m\<rparr>)) (\<lambda>(ch, s5). Inr (s5, c)))"
proof -
  let ?s = "s\<lparr>inputValueReference := refs, simulationProperties := sp, fmu := m\<rparr>"
  have o: "outputs_ok ?s" using assms(1) by (simp add: outputs_ok_def refs_ok_def image_sizes_def)
  then have "refs_ok ?s" by (simp add: outputs_ok_def)
  note u = outcome_raises [OF updateOutputImage_outcome [OF this] onestep_fails_invalid]
  show "outcome is_invalid_argument (onestep_init_result M) (rbind (updateOutputImage M ?s) (\<lambda>(ch, s5). Inr (s5, c)))"
  proof (rule outcome_bind [OF u], assumption, clarify)
    fix s5
    assume u: "same_ports ?s s5" "image_sizes s5 = image_sizes ?s" "currentPrediction s5 = currentPrediction ?s"
      "fmuTime M (fmu s5) = fmuTime M (fmu ?s)"
    have "output_ports s5 = set (getAllVariableIDs om)"
      using outputs_ok_same(2) [OF o u(1,2)] assms(2) by (simp add: output_ports_def)
    then show "outcome is_invalid_argument (onestep_init_result M) (Inr (s5, c))"
      using outputs_ok_same(1) [OF o u(1,2)] u assms by (auto simp: onestep_init_result_def onestep_ready_def same_ports_def)
  qed
qed

lemma init_tail_outcome:
  assumes "outputs_ok s" and "outputMapping s = Some om" and "inputValueReference s = Map.empty" and "currentPrediction s = None"
    and "mapping_ok d im" and "set (getAllVariableIDs om) \<inter> set (getAllVariableIDs im) = {}" and "fle 0 start"
    and "finite_numbers P" and "default_step_positive P c"
    and "context_ok c" and "outputChannelMap c = Some om" and "inputChannelMap c = Some im"
  shows "outcome is_invalid_argument (onestep_init_result M)
    (rbind (initInputValueReference M im s) (\<lambda>s2. rbind (initSimulationProperties P c s2) (\<lambda>s3.
     rbind (initModel M P c start s3) (\<lambda>s4. rbind (updateOutputImage M s4) (\<lambda>(ch, s5). Inr (s5, c))))))"
proof -
  have step: "outcome is_invalid_argument (onestep_init_result M) (rbind (updateOutputImage M s4) (\<lambda>(ch, s5). Inr (s5, c)))"
    if "dom refs = set (getAllVariableIDs im)" "steps_ok sp" "fmuTime M m = start"
      "s4 = s\<lparr>inputValueReference := refs, simulationProperties := sp, fmu := m\<rparr>" for refs sp m s4
    unfolding that(4) by (rule updated [OF assms(1-4) that(1-3) assms(6,7,10-12)])
  show ?thesis
    by (rule outcome_bind [OF initInputValueReference_outcome [OF assms(5,3)]], elim exE conjE,
        rule outcome_bind [OF initSimulationProperties_outcome [OF assms(8,9)]], elim exE conjE,
        rule outcome_bind [OF initModel_outcome], elim exE conjE, rule step, assumption, assumption, assumption) simp
qed

lemma onestep_init_outcome:
  assumes "onestep_fresh s" and "channels_ok P c" and "finite_numbers P" and "default_step_positive P c"
  shows "\<exists>r. onestep_init M P c s = Some r \<and> outcome is_invalid_argument (onestep_init_result M) r"
proof (cases "getPositiveDoubleProperty P c PROP_START_TIME")
  case (Inl e)
  then show ?thesis using getPositiveDoubleProperty_outcome [of P c PROP_START_TIME] assms(1)
    by (simp add: onestep_init_def onestep_fresh_def)
next
  case (Inr start)
  obtain om c1 im c2 where m: "getOutputChannelMapping P c = Some (Inr (om, c1))"
      "getInputChannelMapping P c1 = Some (Inr (im, c2))" "context_ok c2" "mapping_ok (portIDSource c2) om"
      "mapping_ok (portIDSource c2) im" "outputChannelMap c2 = Some om" "inputChannelMap c2 = Some im"
      "set (getAllVariableIDs om) \<inter> set (getAllVariableIDs im) = {}" "config c2 = config c"
    using channels_okE [OF assms(2)] by metis
  have t: "fle 0 start" using getPositiveDoubleProperty_outcome [of P c PROP_START_TIME] Inr by simp
  have d: "default_step_positive P c2"
    using assms(4) real_property_config [OF m(9)] by (simp add: default_step_positive_def)
  have o: "outcome is_invalid_argument (\<lambda>s'. outputs_ok s' \<and> outputMapping s' = Some om \<and>
      inputValueReference s' = Map.empty \<and> currentPrediction s' = None \<and> fmu s' = fmu s) (initOutputStructures M om s)"
    by (rule initOutputStructures_outcome [OF assms(1) m(4)])
  show ?thesis
  proof (cases "initOutputStructures M om s")
    case i: (Inl e)
    then show ?thesis using o Inr m(1) assms(1) by (simp add: onestep_init_def onestep_fresh_def)
  next
    case i: (Inr s1)
    then have s1: "outputs_ok s1" "outputMapping s1 = Some om" "inputValueReference s1 = Map.empty" "currentPrediction s1 = None"
      using o by simp_all
    from init_tail_outcome [OF s1 m(5,8) t assms(3) d m(3,6,7)] show ?thesis
      using i Inr m(1,2) assms(1) by (simp add: onestep_init_def onestep_fresh_def)
  qed
qed

end

end
