(* ===== verification/ASN1_Codec.thy ===== *)
theory ASN1_Codec
  imports Variables
begin

text \<open>
  The compact ASN.1 encoding of IEC 61499 on byte level: \<open>network/ASN1Commons\<close>, the value encoders of
  \<open>network/CompactASN1Publisher\<close> and the readers of \<open>network/CompactASN1Subscriber\<close>. The receive buffer
  is a list of bytes; a reader returns its status, the value and the bytes it leaves.
\<close>

section \<open>ASN1Commons\<close>

definition CLASS_APPLICATION :: byte where "CLASS_APPLICATION = 0x40"
definition BOOL0_TAG_NR :: byte where "BOOL0_TAG_NR = 0"
definition BOOL1_TAG_NR :: byte where "BOOL1_TAG_NR = 1"
definition DINT_TAG_NR :: byte where "DINT_TAG_NR = 4"
definition REAL_TAG_NR :: byte where "REAL_TAG_NR = 10"
definition LREAL_TAG_NR :: byte where "LREAL_TAG_NR = 11"
definition STRING_TAG_NR :: byte where "STRING_TAG_NR = 16"

definition app_tag :: "byte \<Rightarrow> byte" where
  "app_tag nr = CLASS_APPLICATION OR nr"

lemmas tag_defs = app_tag_def CLASS_APPLICATION_def BOOL0_TAG_NR_def BOOL1_TAG_NR_def DINT_TAG_NR_def
  REAL_TAG_NR_def LREAL_TAG_NR_def STRING_TAG_NR_def

datatype data_type = REAL | LREAL | DINT | BOOL | STRING

definition all_data_types :: "data_type list" where
  "all_data_types = [REAL, LREAL, DINT, BOOL, STRING]"

fun DATA_TYPE_NAMES :: "data_type \<Rightarrow> string" where
  "DATA_TYPE_NAMES REAL = ''REAL''"
| "DATA_TYPE_NAMES LREAL = ''LREAL''"
| "DATA_TYPE_NAMES DINT = ''DINT''"
| "DATA_TYPE_NAMES BOOL = ''BOOL''"
| "DATA_TYPE_NAMES STRING = ''STRING''"

section \<open>Encoding\<close>

text \<open>
  \<open>encodeREALValue\<close> copies eight bytes from a four-byte \<open>float\<close> into a four-byte integer; the model
  describes the four bytes that are transmitted, the pattern of the float.
\<close>

definition encodeLREALValue :: "byte list \<Rightarrow> double \<Rightarrow> byte list" where
  "encodeLREALValue buffer value = buffer @ app_tag LREAL_TAG_NR # be_bytes 8 value"

definition encodeREALValue :: "byte list \<Rightarrow> double \<Rightarrow> byte list" where
  "encodeREALValue buffer value = buffer @ app_tag REAL_TAG_NR # be_bytes 4 (float_of_double value)"

definition encodeInteger :: "byte list \<Rightarrow> int32 \<Rightarrow> byte list" where
  "encodeInteger buffer value = buffer @ app_tag DINT_TAG_NR # be_bytes 4 value"

definition encodeBoolean :: "byte list \<Rightarrow> byte \<Rightarrow> byte list" where
  "encodeBoolean buffer value =
     (if value \<noteq> 0 then buffer @ [app_tag BOOL1_TAG_NR] else buffer @ [app_tag BOOL0_TAG_NR])"

definition byte_of_char :: "char \<Rightarrow> byte" where
  "byte_of_char c = word_of_nat (of_char c)"

definition char_of_byte :: "byte \<Rightarrow> char" where
  "char_of_byte b = char_of (unat b)"

definition encodeString :: "byte list \<Rightarrow> string \<Rightarrow> byte list" where
  "encodeString buffer value =
     (let size = (word_of_nat (length value) :: int32) AND 0xFFFF in
      buffer @ app_tag STRING_TAG_NR #
      [ucast (drop_bit 8 size) AND 0xFF, ucast size AND 0xFF] @
      map byte_of_char (take (unat size) value))"

section \<open>Reading\<close>

datatype parsing_state = Ok | TypeConversionError | InvalidBufferContent | Incomplete

record parsing_status =
  pstate :: parsing_state
  missingData :: nat

definition status_ok :: parsing_status where
  "status_ok = \<lparr>pstate = Ok, missingData = 0\<rparr>"

definition status_missing :: "nat \<Rightarrow> parsing_status" where
  "status_missing n = \<lparr>pstate = Incomplete, missingData = n\<rparr>"

text \<open>The value a reader delivers, by its intermediate C++ type; a \<open>float\<close> by its pattern.\<close>

datatype raw_value = RawDouble double | RawFloat "32 word" | RawString string | RawBoolean byte | RawInt int32

type_synonym reading = "parsing_status \<times> raw_value option \<times> byte list"

definition getFirstRawDataByte :: "byte list \<Rightarrow> byte res" where
  "getFirstRawDataByte bs = rbind (assert_that (1 \<le> length bs)) (\<lambda>_. Inr (hd bs))"

definition read_fixed :: "nat \<Rightarrow> (byte list \<Rightarrow> raw_value) \<Rightarrow> byte list \<Rightarrow> reading" where
  "read_fixed n f bs =
     (if length bs < n + 1 then (status_missing (n + 1 - length bs), None, bs)
      else (status_ok, Some (f (take n (drop 1 bs))), drop (n + 1) bs))"

definition readLREALVariable :: "byte list \<Rightarrow> reading" where
  "readLREALVariable bs = read_fixed 8 (\<lambda>v. RawDouble (be_word v)) bs"

definition readREALVariable :: "byte list \<Rightarrow> reading" where
  "readREALVariable bs = read_fixed 4 (\<lambda>v. RawFloat (be_word v)) bs"

definition readDINTVariable :: "byte list \<Rightarrow> reading" where
  "readDINTVariable bs = read_fixed 4 (\<lambda>v. RawInt (be_word v)) bs"

definition readSTRINGVariable :: "byte list \<Rightarrow> reading res" where
  "readSTRINGVariable bs =
     (if length bs < 3 then Inr (status_missing (3 - length bs), None, bs)
      else
        rbind (getFirstRawDataByte bs) (\<lambda>b. rbind (assert_that (b = app_tag STRING_TAG_NR)) (\<lambda>_.
          let l = unat (be_word (take 2 (drop 1 bs)) :: 16 word) in
          if length bs < 3 + l then Inr (status_missing (3 + l - length bs), None, bs)
          else Inr (status_ok, Some (RawString (map char_of_byte (take l (drop 3 bs)))), drop (3 + l) bs))))"

definition readBOOL0Variable :: "byte list \<Rightarrow> reading res" where
  "readBOOL0Variable bs =
     rbind (getFirstRawDataByte bs) (\<lambda>b. rbind (assert_that (b = app_tag BOOL0_TAG_NR)) (\<lambda>_.
       Inr (status_ok, Some (RawBoolean 0), drop 1 bs)))"

definition readBOOL1Variable :: "byte list \<Rightarrow> reading res" where
  "readBOOL1Variable bs =
     rbind (getFirstRawDataByte bs) (\<lambda>b. rbind (assert_that (b = app_tag BOOL1_TAG_NR)) (\<lambda>_.
       Inr (status_ok, Some (RawBoolean 1), drop 1 bs)))"

text \<open>
  \<open>readAndConvertVariable\<close>: the conversion to the type of the port is \<open>boost::convert\<close> with a
  \<open>lexical_cast\<close>, which is not part of the repository; \<open>conv\<close> stands for it.
\<close>

type_synonym conversion = "raw_value \<Rightarrow> fmi_type \<Rightarrow> any option"

definition readAndConvertVariable :: "conversion \<Rightarrow> fmi_type \<Rightarrow> reading \<Rightarrow> parsing_status \<times> any option \<times> byte list" where
  "readAndConvertVariable conv t = (\<lambda>(st, raw, rest).
     case raw of
       None \<Rightarrow> (st, None, rest)
     | Some r \<Rightarrow> (case conv r t of
         Some v \<Rightarrow> (st, Some v, rest)
       | None \<Rightarrow> (st\<lparr>pstate := TypeConversionError\<rparr>, None, rest)))"

definition readNextVariable ::
    "conversion \<Rightarrow> fmi_type \<Rightarrow> byte list \<Rightarrow> (parsing_status \<times> any option \<times> byte list) res" where
  "readNextVariable conv t bs =
     rbind (assert_that (0 < length bs)) (\<lambda>_.
     rbind (getFirstRawDataByte bs) (\<lambda>tag.
       if tag = app_tag LREAL_TAG_NR then Inr (readAndConvertVariable conv t (readLREALVariable bs))
       else if tag = app_tag REAL_TAG_NR then Inr (readAndConvertVariable conv t (readREALVariable bs))
       else if tag = app_tag STRING_TAG_NR then
         rbind (readSTRINGVariable bs) (\<lambda>r. Inr (readAndConvertVariable conv t r))
       else if tag = app_tag BOOL0_TAG_NR then
         rbind (readBOOL0Variable bs) (\<lambda>r. Inr (readAndConvertVariable conv t r))
       else if tag = app_tag BOOL1_TAG_NR then
         rbind (readBOOL1Variable bs) (\<lambda>r. Inr (readAndConvertVariable conv t r))
       else if tag = app_tag DINT_TAG_NR then Inr (readAndConvertVariable conv t (readDINTVariable bs))
       else Inr (\<lparr>pstate = InvalidBufferContent, missingData = 0\<rparr>, None, bs)))"

section \<open>What the program relies on of the conversion\<close>

text \<open>
  A conversion delivers a value of the requested type, and a value that already has it is kept.
\<close>

fun raw_any :: "raw_value \<Rightarrow> any option" where
  "raw_any (RawDouble d) = Some (AnyReal d)"
| "raw_any (RawString s) = Some (AnyString s)"
| "raw_any (RawBoolean b) = Some (AnyBool b)"
| "raw_any (RawInt i) = Some (AnyInt i)"
| "raw_any (RawFloat f) = None"

locale value_conversion =
  fixes conv :: conversion
  assumes conv_typed: "conv r t = Some v \<Longrightarrow> any_has_type t v"
    and conv_same: "raw_any r = Some v \<Longrightarrow> any_has_type t v \<Longrightarrow> conv r t = Some v"

definition strict_conversion :: conversion where
  "strict_conversion r t =
     (case raw_any r of Some v \<Rightarrow> (if any_has_type t v then Some v else None) | None \<Rightarrow> None)"

interpretation strict: value_conversion strict_conversion
  by unfold_locales (auto simp: strict_conversion_def split: option.splits if_splits)

section \<open>Round trip of a single value\<close>

lemma char_of_byte_of_char [simp]: "char_of_byte (byte_of_char c) = c"
proof -
  have "(of_char c :: nat) < 256" by simp
  then have "unat (byte_of_char c) = (of_char c :: nat)"
    by (simp add: byte_of_char_def unat_of_nat)
  then show ?thesis by (simp add: char_of_byte_def)
qed

lemma tags_distinct:
  "distinct [app_tag LREAL_TAG_NR, app_tag REAL_TAG_NR, app_tag STRING_TAG_NR, app_tag BOOL0_TAG_NR,
     app_tag BOOL1_TAG_NR, app_tag DINT_TAG_NR]"
  by (simp add: tag_defs)

lemma be_word_be_bytes_full: "8 * n = LENGTH('a) \<Longrightarrow> be_word (be_bytes n w) = (w :: 'a::len word)"
  by (simp add: be_word_be_bytes)

text \<open>
  The encoding of a value as a function of the value alone; strings are shorter than \<open>2^16\<close> and
  booleans are 0 or 1.
\<close>

fun wire :: "raw_value \<Rightarrow> byte list" where
  "wire (RawDouble d) = app_tag LREAL_TAG_NR # be_bytes 8 d"
| "wire (RawFloat f) = app_tag REAL_TAG_NR # be_bytes 4 f"
| "wire (RawInt i) = app_tag DINT_TAG_NR # be_bytes 4 i"
| "wire (RawBoolean b) = [app_tag (if b \<noteq> 0 then BOOL1_TAG_NR else BOOL0_TAG_NR)]"
| "wire (RawString s) =
     app_tag STRING_TAG_NR # be_bytes 2 (word_of_nat (length s) :: 16 word) @ map byte_of_char s"

fun wire_ok :: "raw_value \<Rightarrow> bool" where
  "wire_ok (RawBoolean b) \<longleftrightarrow> b = 0 \<or> b = 1"
| "wire_ok (RawString s) \<longleftrightarrow> length s < 65536"
| "wire_ok _ \<longleftrightarrow> True"

lemma wire_ne [simp]: "wire r \<noteq> []"
  by (cases r) auto

lemma size_bytes:
  fixes size :: int32
  shows "[ucast (drop_bit 8 size) AND 0xFF, ucast size AND 0xFF] = be_bytes 2 (ucast size :: 16 word)"
proof -
  have two: "rev [0..<2] = [1, 0 :: nat]" by (simp add: numeral_2_eq_2)
  have m: "x AND 255 = x" for x :: byte
    by (rule bit_word_eqI) (auto simp add: bit_and_iff bit_255 simp del: bit_numeral_word_iff)
  have "ucast (drop_bit 8 size) = (ucast (drop_bit 8 (ucast size :: 16 word) AND 255) :: byte)"
    by (rule bit_word_eqI)
      (auto simp add: bit_and_iff bit_255 bit_ucast_iff bit_drop_bit_eq simp del: bit_numeral_word_iff)
  moreover have "ucast size = (ucast ((ucast size :: 16 word) AND 255) :: byte)"
    by (rule bit_word_eqI) (auto simp add: bit_and_iff bit_255 bit_ucast_iff simp del: bit_numeral_word_iff)
  ultimately show ?thesis by (simp add: be_bytes_def two m)
qed

lemma encode_wire:
  "encodeLREALValue buffer d = buffer @ wire (RawDouble d)"
  "encodeREALValue buffer d = buffer @ wire (RawFloat (float_of_double d))"
  "encodeInteger buffer i = buffer @ wire (RawInt i)"
  "encodeBoolean buffer b = buffer @ wire (RawBoolean (if b \<noteq> 0 then 1 else 0))"
  by (simp_all add: encodeLREALValue_def encodeREALValue_def encodeInteger_def encodeBoolean_def)

lemma encode_wire_string:
  "encodeString buffer s = buffer @ wire (RawString (take (length s mod 65536) s))"
proof -
  define size where "size = (word_of_nat (length s) :: int32) AND 0xFFFF"
  have "size = take_bit 16 (word_of_nat (length s))"
    by (simp add: size_def take_bit_eq_mask mask_eq_exp_minus_1)
  then have u: "unat size = length s mod 65536"
    by (simp only: unsigned_take_bit_eq) (simp add: take_bit_eq_mod unat_of_nat mod_mod_cancel)
  have "unat (ucast size :: 16 word) = length s mod 65536"
    by (simp only: unsigned_ucast_eq u) (simp add: take_bit_eq_mod)
  then have "(ucast size :: 16 word) = word_of_nat (length s mod 65536)"
    by (simp only: word_unat_eq_iff unat_of_nat) simp
  moreover have "length (take (length s mod 65536) s) = length s mod 65536"
    by (simp add: min_def)
  ultimately show ?thesis
    by (simp add: encodeString_def size_def [symmetric] Let_def u size_bytes [simplified])
qed

lemma read_fixed_wire:
  "length bs = n \<Longrightarrow> read_fixed n f (tag # bs @ rest) = (status_ok, Some (f bs), rest)"
  by (simp add: read_fixed_def)

lemma read_wire:
  assumes "wire_ok r"
  shows "readNextVariable conv t (wire r @ rest) =
    Inr (readAndConvertVariable conv t (status_ok, Some r, rest))"
proof (cases r)
  case (RawString s)
  have l: "be_word (be_bytes 2 (word_of_nat (length s) :: 16 word)) = (word_of_nat (length s) :: 16 word)"
    by (rule be_word_be_bytes_full) simp
  have "unat (word_of_nat (length s) :: 16 word) = length s"
    using assms RawString by (simp add: unat_of_nat)
  moreover have "drop (3 + length s) (x # be_bytes 2 w @ map byte_of_char s @ rest) = rest"
    for x and w :: "16 word"
    by (simp add: numeral_3_eq_3)
  ultimately show ?thesis using RawString l
    by (simp add: readNextVariable_def getFirstRawDataByte_def readSTRINGVariable_def tag_defs Let_def
        comp_def)
qed (use assms in \<open>auto simp: readNextVariable_def getFirstRawDataByte_def tag_defs readLREALVariable_def
    readREALVariable_def readDINTVariable_def readBOOL0Variable_def readBOOL1Variable_def
    read_fixed_wire be_word_be_bytes_full\<close>)

lemma read_fixed_prefix:
  "length p \<le> n \<Longrightarrow> read_fixed n f p = (status_missing (n + 1 - length p), None, p)"
  by (simp add: read_fixed_def)

lemma convert_missing: "readAndConvertVariable conv t (status_missing k, None, p) = (status_missing k, None, p)"
  by (simp add: readAndConvertVariable_def)

lemma read_prefix:
  assumes "wire_ok r" and "wire r = p @ q" and "p \<noteq> []" and "q \<noteq> []"
  shows "\<exists>k. readNextVariable conv t p = Inr (status_missing k, None, p)"
proof -
  obtain b bs where p: "p = b # bs" using assms(3) by (cases p) auto
  have l: "length (wire r) = length p + length q" using assms(2) by simp
  have q: "0 < length q" using assms(4) by simp
  show ?thesis
  proof (cases r)
    case (RawString s)
    have b: "b = app_tag STRING_TAG_NR" and w: "be_bytes 2 (word_of_nat (length s) :: 16 word) @ map byte_of_char s = bs @ q"
      using assms(2) p RawString by auto
    have u: "unat (word_of_nat (length s) :: 16 word) = length s"
      using assms(1) RawString by (simp add: unat_of_nat)
    have "take 2 bs = be_bytes 2 (word_of_nat (length s) :: 16 word)" if "2 \<le> length bs"
      using arg_cong [OF w, of "take 2"] that by simp
    moreover have "be_word (be_bytes 2 (word_of_nat (length s) :: 16 word)) = (word_of_nat (length s) :: 16 word)"
      by (rule be_word_be_bytes_full) simp
    moreover have "length bs < 2 + length s" using l p q RawString by simp
    ultimately show ?thesis using p b u q
      by (auto simp: readNextVariable_def getFirstRawDataByte_def readSTRINGVariable_def tag_defs Let_def
          convert_missing)
  next
    case (RawDouble d)
    then have "b = app_tag LREAL_TAG_NR" using assms(2) p by simp
    moreover have "length p \<le> 8" using l assms(4) \<open>r = _\<close> by (cases q) simp_all
    ultimately show ?thesis using p
      by (auto simp: readNextVariable_def getFirstRawDataByte_def readLREALVariable_def read_fixed_prefix
          convert_missing)
  next
    case (RawFloat d)
    then have "b = app_tag REAL_TAG_NR" using assms(2) p by simp
    moreover have "length p \<le> 4" using l assms(4) \<open>r = _\<close> by (cases q) simp_all
    ultimately show ?thesis using p
      by (auto simp: readNextVariable_def getFirstRawDataByte_def readREALVariable_def read_fixed_prefix
          convert_missing tag_defs)
  next
    case (RawInt d)
    then have "b = app_tag DINT_TAG_NR" using assms(2) p by simp
    moreover have "length p \<le> 4" using l assms(4) \<open>r = _\<close> by (cases q) simp_all
    ultimately show ?thesis using p
      by (auto simp: readNextVariable_def getFirstRawDataByte_def readDINTVariable_def read_fixed_prefix
          convert_missing tag_defs)
  next
    case (RawBoolean d)
    then show ?thesis using p l q by simp
  qed
qed

section \<open>Results of reading\<close>

text \<open>A reader either delivers a value and consumes bytes, or asks for more and consumes none.\<close>

definition reading_good :: "byte list \<Rightarrow> reading \<Rightarrow> bool" where
  "reading_good bs rd \<longleftrightarrow> (\<exists>r rest. length rest < length bs \<and> rd = (status_ok, Some r, rest)) \<or>
     (\<exists>k. rd = (status_missing k, None, bs))"

lemma read_fixed_good: "bs \<noteq> [] \<Longrightarrow> reading_good bs (read_fixed n g bs)"
  by (auto simp: reading_good_def read_fixed_def)

lemma readSTRING_good:
  assumes "bs \<noteq> []" and "hd bs = app_tag STRING_TAG_NR"
  shows "\<exists>rd. readSTRINGVariable bs = Inr rd \<and> reading_good bs rd"
  using assms by (auto simp: readSTRINGVariable_def getFirstRawDataByte_def reading_good_def Let_def Suc_le_eq)

lemma readBOOL_good:
  "bs \<noteq> [] \<Longrightarrow> hd bs = app_tag BOOL0_TAG_NR \<Longrightarrow> \<exists>rd. readBOOL0Variable bs = Inr rd \<and> reading_good bs rd"
  "bs \<noteq> [] \<Longrightarrow> hd bs = app_tag BOOL1_TAG_NR \<Longrightarrow> \<exists>rd. readBOOL1Variable bs = Inr rd \<and> reading_good bs rd"
  by (auto simp: readBOOL0Variable_def readBOOL1Variable_def getFirstRawDataByte_def reading_good_def Suc_le_eq)

definition status_invalid :: parsing_status where
  "status_invalid = \<lparr>pstate = InvalidBufferContent, missingData = 0\<rparr>"

text \<open>The switch over the tag of the first byte.\<close>

lemma readNextVariable_switch:
  assumes "bs \<noteq> []"
  shows "(\<exists>rd. readNextVariable conv t bs = Inr (readAndConvertVariable conv t rd) \<and> reading_good bs rd) \<or>
    readNextVariable conv t bs = Inr (status_invalid, None, bs)"
proof -
  have h: "getFirstRawDataByte bs = Inr (hd bs)" using assms by (simp add: getFirstRawDataByte_def Suc_le_eq)
  note fixed = read_fixed_good [OF assms] and switch = readNextVariable_def assms h tag_defs
  consider "hd bs = app_tag LREAL_TAG_NR" | "hd bs = app_tag REAL_TAG_NR" | "hd bs = app_tag STRING_TAG_NR"
    | "hd bs = app_tag BOOL0_TAG_NR" | "hd bs = app_tag BOOL1_TAG_NR" | "hd bs = app_tag DINT_TAG_NR"
    | "hd bs \<notin> {app_tag LREAL_TAG_NR, app_tag REAL_TAG_NR, app_tag STRING_TAG_NR, app_tag BOOL0_TAG_NR,
        app_tag BOOL1_TAG_NR, app_tag DINT_TAG_NR}" by blast
  then show ?thesis
  proof cases
    case 1
    then show ?thesis using fixed by (intro disjI1 exI [of _ "readLREALVariable bs"]) (simp add: switch readLREALVariable_def)
  next
    case 2
    then show ?thesis using fixed by (intro disjI1 exI [of _ "readREALVariable bs"]) (simp add: switch readREALVariable_def)
  next
    case 3
    with readSTRING_good [OF assms] show ?thesis by (auto simp: switch simp del: split_paired_Ex)
  next
    case 4
    with readBOOL_good(1) [OF assms] show ?thesis by (auto simp: switch simp del: split_paired_Ex)
  next
    case 5
    with readBOOL_good(2) [OF assms] show ?thesis by (auto simp: switch simp del: split_paired_Ex)
  next
    case 6
    then show ?thesis using fixed by (intro disjI1 exI [of _ "readDINTVariable bs"]) (simp add: switch readDINTVariable_def)
  qed (use assms h in \<open>simp add: readNextVariable_def status_invalid_def\<close>)
qed

lemma readNextVariable_cases:
  assumes "bs \<noteq> []"
  obtains r rest where "length rest < length bs"
      "readNextVariable conv t bs = Inr (readAndConvertVariable conv t (status_ok, Some r, rest))"
  | k where "readNextVariable conv t bs = Inr (status_missing k, None, bs)"
  | "readNextVariable conv t bs = Inr (status_invalid, None, bs)"
  using readNextVariable_switch [OF assms, of conv t] unfolding reading_good_def by (auto simp: convert_missing)

end
