(* ===== verification/ASN1_Publisher.thy ===== *)
theory ASN1_Publisher
  imports ASN1_Codec
begin

text \<open>
  The publisher side of the compact ASN.1 protocol: \<open>network/CompactASN1Publisher\<close>. It keeps the
  current value of every port of its channel; an event that changes one of them causes one packet
  with all values. The packets handed to \<open>sendData\<close>, which the transport classes implement, are
  recorded in the state.

  The variables of a triggered event, the result of its \<open>getVariables\<close>, are an argument.
\<close>

section \<open>State and initialization\<close>

record publisher =
  outputVariables :: "variable list"
  outputTypes :: "data_type list"
  sentPackets :: "byte list list"

definition CompactASN1Publisher :: publisher where
  "CompactASN1Publisher = \<lparr>outputVariables = [], outputTypes = [], sentPackets = []\<rparr>"

definition PROP_ENCODE_TYPE :: string where
  "PROP_ENCODE_TYPE = ''encoding''"

fun CASTABLE :: "fmi_type \<Rightarrow> data_type \<Rightarrow> bool" where
  "CASTABLE fmiTypeReal dt = (dt = REAL \<or> dt = LREAL)"
| "CASTABLE fmiTypeInteger dt = (dt = DINT)"
| "CASTABLE fmiTypeBoolean dt = (dt = BOOL)"
| "CASTABLE fmiTypeString dt = (dt = STRING)"
| "CASTABLE fmiTypeUnknown dt = False"

fun default_value :: "fmi_type \<Rightarrow> any res" where
  "default_value fmiTypeReal = Inr (AnyReal 0)"
| "default_value fmiTypeInteger = Inr (AnyInt 0)"
| "default_value fmiTypeBoolean = Inr (AnyBool 0)"
| "default_value fmiTypeString = Inr (AnyString [])"
| "default_value fmiTypeUnknown = Inl AssertionFailed"

fun initOutputVariables :: "port_id list \<Rightarrow> variable list res" where
  "initOutputVariables [] = Inr []"
| "initOutputVariables (i # ports) =
     rbind (default_value (fst i)) (\<lambda>v. rbind (initOutputVariables ports) (\<lambda>xs. Inr (Variable i v # xs)))"

fun getDefaultType :: "fmi_type \<Rightarrow> data_type res" where
  "getDefaultType fmiTypeReal = Inr LREAL"
| "getDefaultType fmiTypeInteger = Inr DINT"
| "getDefaultType fmiTypeBoolean = Inr BOOL"
| "getDefaultType fmiTypeString = Inr STRING"
| "getDefaultType fmiTypeUnknown = Inl AssertionFailed"

definition cast_error :: "fmi_type \<Rightarrow> data_type \<Rightarrow> nat \<Rightarrow> exn" where
  "cast_error t dt i = SystemConfigurationException
     (''Can't convert the fmiType ('' @ show_nat (type_code t) @ '') to the IEC 61499/ASN.1 type '' @
      DATA_TYPE_NAMES dt @ ''. The operation is not supported but configured at the ASN.1 publisher port '' @
      show_nat i) None"

definition portOutputType :: "'p ptree_ops \<Rightarrow> nat \<Rightarrow> port_id \<Rightarrow> 'p \<Rightarrow> data_type res" where
  "portOutputType P i port cfg =
     rbind (getDefaultType (fst port)) (\<lambda>type.
       case get_optional P Some cfg PROP_ENCODE_TYPE of
         None \<Rightarrow> Inr type
       | Some name \<Rightarrow>
           (case find (\<lambda>dt. name = DATA_TYPE_NAMES dt) all_data_types of
              None \<Rightarrow> Inl (SystemConfigurationException ''The given encoding type is not supported.''
                (Some (PROP_ENCODE_TYPE, name)))
            | Some dt \<Rightarrow> if \<not> CASTABLE (fst port) dt then Inl (cast_error (fst port) dt i) else Inr dt))"

fun initOutputTypes ::
    "'p ptree_ops \<Rightarrow> nat \<Rightarrow> port_id list \<Rightarrow> 'p list \<Rightarrow> data_type list \<Rightarrow> data_type list res" where
  "initOutputTypes P i (port # ports) (cfg # cfgs) types =
     rbind (portOutputType P i port cfg) (\<lambda>dt. initOutputTypes P (Suc i) ports cfgs (types @ [dt]))"
| "initOutputTypes P i _ _ types = Inr types"

definition publisher_init :: "'p ptree_ops \<Rightarrow> publisher \<Rightarrow> 'p transmission_channel \<Rightarrow> publisher res" where
  "publisher_init P p channel =
     rbind (getPortIDs channel) (\<lambda>ports.
     rbind (initOutputVariables ports) (\<lambda>vars.
     rbind (getPortConfig channel) (\<lambda>cfgs.
     rbind (initOutputTypes P 0 ports cfgs (outputTypes p)) (\<lambda>types.
       Inr (p\<lparr>outputVariables := vars, outputTypes := types\<rparr>)))))"

section \<open>Events\<close>

text \<open>The inner loop of \<open>updateOutputVariables\<close> for one event variable, and the outer one.\<close>

fun updateOutputVariable :: "variable \<Rightarrow> variable list \<Rightarrow> (variable list \<times> bool) res" where
  "updateOutputVariable v [] = Inr ([], False)"
| "updateOutputVariable v (x # outs) =
     rbind (if var_id v = var_id x then rbind (getValue v) (\<lambda>d. Inr (setValue x d, True)) else Inr (x, False)) (\<lambda>(x', u).
     rbind (updateOutputVariable v outs) (\<lambda>(outs', us). Inr (x' # outs', u \<or> us)))"

fun updateOutputVariables :: "variable list \<Rightarrow> variable list \<Rightarrow> (variable list \<times> bool) res" where
  "updateOutputVariables [] outs = Inr (outs, False)"
| "updateOutputVariables (v # vars) outs =
     rbind (updateOutputVariable v outs) (\<lambda>(outs', u).
     rbind (updateOutputVariables vars outs') (\<lambda>(outs'', us). Inr (outs'', u \<or> us)))"

fun encodeOutputVariable :: "byte list \<Rightarrow> data_type \<Rightarrow> variable \<Rightarrow> byte list res" where
  "encodeOutputVariable buffer LREAL x = rbind (getRealValue x) (\<lambda>v. Inr (encodeLREALValue buffer v))"
| "encodeOutputVariable buffer REAL x = rbind (getRealValue x) (\<lambda>v. Inr (encodeREALValue buffer v))"
| "encodeOutputVariable buffer DINT x = rbind (getIntegerValue x) (\<lambda>v. Inr (encodeInteger buffer v))"
| "encodeOutputVariable buffer BOOL x = rbind (getBooleanValue x) (\<lambda>v. Inr (encodeBoolean buffer v))"
| "encodeOutputVariable buffer STRING x = rbind (getStringValue x) (\<lambda>v. Inr (encodeString buffer v))"

fun encodeAll :: "byte list \<Rightarrow> variable list \<Rightarrow> data_type list \<Rightarrow> byte list res" where
  "encodeAll buffer (x # xs) (dt # dts) =
     rbind (encodeOutputVariable buffer dt x) (\<lambda>buffer'. encodeAll buffer' xs dts)"
| "encodeAll buffer _ _ = Inr buffer"

definition encodeASN1OutputVariables :: "publisher \<Rightarrow> byte list res" where
  "encodeASN1OutputVariables p =
     rbind (assert_that (length (outputVariables p) = length (outputTypes p))) (\<lambda>_.
       encodeAll [] (outputVariables p) (outputTypes p))"

definition publisher_eventTriggered :: "publisher \<Rightarrow> variable list \<Rightarrow> publisher res" where
  "publisher_eventTriggered p vars =
     rbind (updateOutputVariables vars (outputVariables p)) (\<lambda>(outs, updated).
       let p' = p\<lparr>outputVariables := outs\<rparr> in
       if updated then
         rbind (encodeASN1OutputVariables p') (\<lambda>buffer. Inr (p'\<lparr>sentPackets := sentPackets p' @ [buffer]\<rparr>))
       else Inr p')"

definition hex_digit :: "nat \<Rightarrow> char" where
  "hex_digit n = (if n < 10 then digit_char n else char_of (87 + n))"

definition buffer_toString :: "byte list \<Rightarrow> string" where
  "buffer_toString buffer =
     ''0x'' @ concat (map (\<lambda>i. (if i \<noteq> 0 then '' '' else []) @
       [hex_digit (unat (buffer ! i) div 16), hex_digit (unat (buffer ! i) mod 16)]) [0..<length buffer])"

section \<open>The invariant\<close>

definition slot_ok :: "variable \<Rightarrow> data_type \<Rightarrow> bool" where
  "slot_ok x dt \<longleftrightarrow> var_isValid x \<and> CASTABLE (fst (var_id x)) dt"

definition publisher_ok :: "publisher \<Rightarrow> bool" where
  "publisher_ok p \<longleftrightarrow> list_all2 slot_ok (outputVariables p) (outputTypes p)"

fun raw_of :: "data_type \<Rightarrow> any \<Rightarrow> raw_value" where
  "raw_of LREAL (AnyReal d) = RawDouble d"
| "raw_of REAL (AnyReal d) = RawFloat (float_of_double d)"
| "raw_of BOOL (AnyBool b) = RawBoolean (if b \<noteq> 0 then 1 else 0)"
| "raw_of STRING (AnyString s) = RawString (take (length s mod 65536) s)"
| "raw_of DINT (AnyInt i) = RawInt i"
| "raw_of _ _ = RawInt 0"

definition packet :: "variable list \<Rightarrow> data_type list \<Rightarrow> byte list" where
  "packet xs dts = concat (map2 (\<lambda>x dt. wire (raw_of dt (var_data x))) xs dts)"

definition updated_slot :: "variable list \<Rightarrow> variable \<Rightarrow> variable" where
  "updated_slot vars x = (case last_value vars (var_id x) of None \<Rightarrow> x | Some d \<Rightarrow> setValue x d)"

lemma raw_of_ok: "wire_ok (raw_of dt v)"
  by (induction dt v rule: raw_of.induct) auto

lemma encodeOutputVariable_ok:
  assumes "slot_ok x dt"
  shows "encodeOutputVariable buffer dt x = Inr (buffer @ wire (raw_of dt (var_data x)))"
proof -
  have h: "any_has_type (fst (var_id x)) (var_data x)" and c: "CASTABLE (fst (var_id x)) dt"
    using assms by (simp_all add: slot_ok_def var_isValid_def)
  show ?thesis
    by (rule typed_cases [OF h]; cases dt; use c in simp)
      (simp_all add: getRealValue_def getIntegerValue_def getBooleanValue_def getStringValue_def
        var_isValid_def encode_wire encode_wire_string)
qed

lemma encodeAll_ok:
  "list_all2 slot_ok xs dts \<Longrightarrow> encodeAll buffer xs dts = Inr (buffer @ packet xs dts)"
  by (induction xs dts arbitrary: buffer rule: list_all2_induct)
    (simp_all add: packet_def encodeOutputVariable_ok)

lemma updateOutputVariable_ok:
  "var_isValid v \<Longrightarrow> updateOutputVariable v outs =
    Inr (map (\<lambda>x. if var_id v = var_id x then setValue x (var_data v) else x) outs,
         var_id v \<in> var_id ` set outs)"
  by (induction outs) (auto simp: getValue_def)

lemma var_id_setValue [simp]: "var_id (setValue x d) = var_id x"
  by (simp add: setValue_def)

lemma setValue_twice [simp]: "setValue (setValue x d) e = setValue x e"
  by (simp add: setValue_def)

lemma updateOutputVariables_ok:
  "list_all var_isValid vars \<Longrightarrow> updateOutputVariables vars outs =
    Inr (map (updated_slot vars) outs, \<exists>v\<in>set vars. var_id v \<in> var_id ` set outs)"
proof (induction vars arbitrary: outs)
  case Nil
  then show ?case by (simp add: updated_slot_def last_value_def)
next
  case (Cons v vars)
  let ?f = "\<lambda>x. if var_id v = var_id x then setValue x (var_data v) else x"
  have "map var_id (map ?f outs) = map var_id outs" by simp
  then have "set (map var_id (map ?f outs)) = set (map var_id outs)" by (simp only:)
  then have ids: "var_id ` set (map ?f outs) = var_id ` set outs" by (simp only: set_map)
  have "updated_slot vars (?f x) = updated_slot (v # vars) x" for x
    by (auto simp: updated_slot_def last_value_Cons split: option.splits)
  then have "map (updated_slot vars) (map ?f outs) = map (updated_slot (v # vars)) outs" by simp
  with Cons show ?case by (simp only: updateOutputVariables.simps updateOutputVariable_ok list.pred_inject
      rbind.simps prod.case ids) simp
qed

lemma updated_slot_ok:
  assumes "list_all var_isValid vars" and "slot_ok x dt"
  shows "slot_ok (updated_slot vars x) dt"
proof (cases "last_value vars (var_id x)")
  case None
  with assms show ?thesis by (simp add: updated_slot_def)
next
  case (Some d)
  then obtain v where "v \<in> set vars" "var_id v = var_id x" "var_data v = d"
    unfolding last_value_def by (auto dest!: map_of_SomeD)
  moreover from this have "var_isValid v" using assms(1) by (simp add: list_all_iff)
  ultimately show ?thesis using Some assms(2)
    by (simp add: slot_ok_def updated_slot_def var_isValid_def setValue_def)
qed

lemma slots_updated_ok:
  assumes "list_all var_isValid vars" and "list_all2 slot_ok outs types"
  shows "list_all2 slot_ok (map (updated_slot vars) outs) types"
  using assms(2) updated_slot_ok [OF assms(1)] by (simp add: list_all2_map1 list_all2_mono)

lemma default_value_typed: "t \<noteq> fmiTypeUnknown \<Longrightarrow> \<exists>v. default_value t = Inr v \<and> any_has_type t v"
  by (cases t) auto

lemma initOutputVariables_ok:
  "\<forall>i\<in>set ports. fst i \<noteq> fmiTypeUnknown \<Longrightarrow>
    \<exists>xs. initOutputVariables ports = Inr xs \<and> map var_id xs = ports \<and> list_all var_isValid xs"
proof (induction ports)
  case Nil
  then show ?case by simp
next
  case (Cons i ports)
  obtain v where "default_value (fst i) = Inr v" "any_has_type (fst i) v"
    using default_value_typed Cons.prems by auto
  with Cons show ?case by (auto simp: Variable_def var_isValid_def)
qed

definition encoding_of :: "'p ptree_ops \<Rightarrow> port_id \<Rightarrow> 'p \<Rightarrow> data_type option" where
  "encoding_of P port cfg =
     (case get_optional P Some cfg PROP_ENCODE_TYPE of
        None \<Rightarrow> (case getDefaultType (fst port) of Inr dt \<Rightarrow> Some dt | Inl _ \<Rightarrow> None)
      | Some name \<Rightarrow> find (\<lambda>dt. name = DATA_TYPE_NAMES dt) all_data_types)"

definition encodable :: "'p ptree_ops \<Rightarrow> port_id \<Rightarrow> 'p \<Rightarrow> bool" where
  "encodable P port cfg = (case encoding_of P port cfg of None \<Rightarrow> False | Some dt \<Rightarrow> CASTABLE (fst port) dt)"

lemma portOutputType_ok:
  "encodable P port cfg \<Longrightarrow> portOutputType P i port cfg = Inr (the (encoding_of P port cfg))"
  by (cases "fst port")
    (auto simp: encodable_def encoding_of_def portOutputType_def split: option.splits)

lemma initOutputTypes_ok:
  "list_all2 (encodable P) ports cfgs \<Longrightarrow>
    initOutputTypes P i ports cfgs types = Inr (types @ map2 (\<lambda>port cfg. the (encoding_of P port cfg)) ports cfgs)"
  by (induction ports cfgs arbitrary: i types rule: list_all2_induct) (simp_all add: portOutputType_ok)

lemma encodable_known: "encodable P port cfg \<Longrightarrow> fst port \<noteq> fmiTypeUnknown"
  by (auto simp: encodable_def split: option.splits)

lemma list_all2_slot:
  assumes "list_all2 (encodable P) ports cfgs" and "map var_id xs = ports" and "list_all var_isValid xs"
  shows "list_all2 slot_ok xs (map2 (\<lambda>port cfg. the (encoding_of P port cfg)) ports cfgs)"
proof -
  have l: "length xs = length ports" "length cfgs = length ports"
    using assms(1,2) by (auto dest: list_all2_lengthD)
  have "slot_ok (xs ! k) (the (encoding_of P (ports ! k) (cfgs ! k)))" if "k < length ports" for k
  proof -
    have "encodable P (ports ! k) (cfgs ! k)" using assms(1) that by (simp add: list_all2_conv_all_nth)
    moreover have "var_id (xs ! k) = ports ! k" using assms(2) l that by auto
    moreover have "var_isValid (xs ! k)" using assms(3) l that by (simp add: list_all_length)
    ultimately show ?thesis by (auto simp: slot_ok_def encodable_def split: option.splits)
  qed
  with l show ?thesis by (simp add: list_all2_conv_all_nth)
qed

section \<open>Properties\<close>


definition demo_channel :: "ptree transmission_channel" where
  "demo_channel = \<lparr>channelConfig = PNode [] [], portIDs = [(fmiTypeReal, 0), (fmiTypeReal, 1)],
     portConfig = [PNode ''x'' [(''encoding'', PNode ''REAL'' [])], PNode ''y'' []]\<rparr>"


lemma publisher_event_state:
  assumes "publisher_ok p" and "list_all var_isValid vars"
  shows "publisher_eventTriggered p vars = Inr (p\<lparr>outputVariables := map (updated_slot vars) (outputVariables p),
      sentPackets := sentPackets p @
        (if \<exists>v\<in>set vars. var_id v \<in> var_id ` set (outputVariables p)
         then [packet (map (updated_slot vars) (outputVariables p)) (outputTypes p)] else [])\<rparr>)"
    and "list_all2 slot_ok (map (updated_slot vars) (outputVariables p)) (outputTypes p)"
proof -
  show s: "list_all2 slot_ok (map (updated_slot vars) (outputVariables p)) (outputTypes p)"
    using slots_updated_ok [OF assms(2)] assms(1) by (simp add: publisher_ok_def)
  show "publisher_eventTriggered p vars = Inr (p\<lparr>outputVariables := map (updated_slot vars) (outputVariables p),
      sentPackets := sentPackets p @
        (if \<exists>v\<in>set vars. var_id v \<in> var_id ` set (outputVariables p)
         then [packet (map (updated_slot vars) (outputVariables p)) (outputTypes p)] else [])\<rparr>)"
    using list_all2_lengthD [OF s] s
    by (simp add: publisher_eventTriggered_def updateOutputVariables_ok [OF assms(2)] Let_def
        encodeASN1OutputVariables_def encodeAll_ok)
qed

text \<open>
  C18: an event at a publisher. With valid event variables no assertion or cast fails and the
  invariant is kept. The buffered values become those of the event, the last one where a port occurs
  more than once, and the others stay. If a port of the channel occurs in the event, exactly one
  packet is sent, the encodings of all buffered values in the order of the ports; otherwise nothing
  is sent.
\<close>

theorem publisher_event:
  assumes "publisher_ok p" and "list_all var_isValid vars"
  shows "\<exists>p'. publisher_eventTriggered p vars = Inr p' \<and> publisher_ok p' \<and> outputTypes p' = outputTypes p \<and>
    outputVariables p' = map (updated_slot vars) (outputVariables p) \<and>
    sentPackets p' = sentPackets p @
      (if \<exists>v\<in>set vars. var_id v \<in> var_id ` set (outputVariables p)
       then [packet (outputVariables p') (outputTypes p')] else [])"
  using publisher_event_state [OF assms] by (simp add: publisher_ok_def)

definition demo_publisher :: publisher where
  "demo_publisher = \<lparr>outputVariables = [Variable (fmiTypeInteger, 0) (AnyInt 0), Variable (fmiTypeBoolean, 0) (AnyBool 0)],
     outputTypes = [DINT, BOOL], sentPackets = []\<rparr>"

theorem publisher_event_witness:
  "\<exists>p. publisher_eventTriggered demo_publisher [Variable (fmiTypeInteger, 0) (AnyInt 258)] = Inr p \<and>
     sentPackets p = [[0x44, 0, 0, 1, 2, 0x40]]"
proof -
  let ?v = "[Variable (fmiTypeInteger, 0) (AnyInt 258)]"
  have ok: "publisher_ok demo_publisher" "list_all var_isValid ?v"
    by (simp_all add: demo_publisher_def publisher_ok_def slot_ok_def var_isValid_def Variable_def)
  have u: "map (updated_slot ?v) (outputVariables demo_publisher) =
      [Variable (fmiTypeInteger, 0) (AnyInt 258), Variable (fmiTypeBoolean, 0) (AnyBool 0)]"
    by (simp add: demo_publisher_def updated_slot_def last_value_def Variable_def setValue_def)
  have "be_bytes 4 (258 :: int32) = [0, 0, 1, 2]" by code_simp
  then have "packet [Variable (fmiTypeInteger, 0) (AnyInt 258), Variable (fmiTypeBoolean, 0) (AnyBool 0)] [DINT, BOOL] =
      [0x44, 0, 0, 1, 2, 0x40]"
    by (simp add: packet_def Variable_def tag_defs)
  moreover have "\<exists>v\<in>set ?v. var_id v \<in> var_id ` set (outputVariables demo_publisher)"
    by (simp add: demo_publisher_def Variable_def)
  ultimately show ?thesis
    using publisher_event [OF ok] unfolding u by (auto simp: demo_publisher_def)
qed

end
