(* ===== verification/Multistep_Run.thy ===== *)
theory Multistep_Run
  imports Event_Predictor ASN1_Publisher
begin

text \<open>
  The main loop with the multi-step predictor. The predictor satisfies the contract of the dispatcher
  whenever the library satisfies its laws, so that the results on the loop hold for it; the listeners
  are any that satisfy theirs, in particular the publishers.
\<close>

section \<open>The dispatcher on this predictor\<close>

definition multistep_ops ::
    "'m incremental_fmu_ops \<Rightarrow> ('l \<Rightarrow> double \<Rightarrow> variable list \<Rightarrow> 'l res) \<Rightarrow> ('l \<Rightarrow> 'l \<Rightarrow> bool) \<Rightarrow>
     ('m event_predictor, 'l) dispatch_ops" where
  "multistep_ops F notify change = \<lparr>predict_next = (\<lambda>s. Some (predictNext F s)), read_variables = getVariables F,
     predictor_triggered = predictor_eventTriggered F, listener_triggered = notify,
     listener_async = change\<rparr>"

locale multistep_dispatch = incremental_fmu F covers supplies + listener_contract notify change linv lfail
  for F :: "'m incremental_fmu_ops" and covers :: "'m \<Rightarrow> double \<Rightarrow> bool" and supplies :: "'m \<Rightarrow> fmi_type \<Rightarrow> bool"
    and notify :: "'l \<Rightarrow> double \<Rightarrow> variable list \<Rightarrow> 'l res" and change :: "'l \<Rightarrow> 'l \<Rightarrow> bool"
    and linv :: "'l \<Rightarrow> bool" and lfail :: "exn \<Rightarrow> bool"

sublocale multistep_dispatch \<subseteq> run: predictor_contract "multistep_ops F notify change" "predictor_ready covers supplies"
  "predictor_offers covers supplies" linv "\<lambda>e. predictor_fails e \<or> lfail e"
proof unfold_locales
  fix s ev p xs l l' t r
  show "ready s \<Longrightarrow> predict_next (multistep_ops F notify change) s = Some r \<Longrightarrow> outcome (\<lambda>e. predictor_fails e \<or> lfail e)
      (\<lambda>(ev, s'). offers s' ev \<and> valid_time (getTime ev)) r"
    using outcome_mono [OF predictNext_outcome [of s]] by (auto simp: multistep_ops_def)
  show "offers s ev \<Longrightarrow> ready s" by (rule offers_ready)
  show "offers s ev \<Longrightarrow> outcome (\<lambda>e. predictor_fails e \<or> lfail e)
      (\<lambda>(xs, s'). offers s' ev \<and> list_all var_isValid xs) (read_variables (multistep_ops F notify change) s ev)"
    by (simp add: multistep_ops_def, rule outcome_mono [OF read_outcome]) (auto simp: output_vars_def)
  show "ready s \<Longrightarrow> external_ok ev \<Longrightarrow> outcome (\<lambda>e. predictor_fails e \<or> lfail e)
      (\<lambda>(xs, s'). ready s' \<and> list_all var_isValid xs) (read_variables (multistep_ops F notify change) s ev)"
    using read_external_outcome [of ev s] by (auto simp: multistep_ops_def)
  show "offers s ev \<Longrightarrow> outcome (\<lambda>e. predictor_fails e \<or> lfail e) (\<lambda>s'. offers s' ev)
      (predictor_triggered (multistep_ops F notify change) s ev)"
    by (simp add: multistep_ops_def, rule outcome_mono [OF notify_prediction_outcome]) auto
  show "offers s p \<Longrightarrow> external_ok ev \<Longrightarrow> fle (getTime ev) (getTime p) \<Longrightarrow>
      outcome (\<lambda>e. predictor_fails e \<or> lfail e) ready (predictor_triggered (multistep_ops F notify change) s ev)"
    using notify_external_result [of s p ev] by (simp add: multistep_ops_def)
  show "linv l \<Longrightarrow> list_all var_isValid xs \<Longrightarrow>
      outcome (\<lambda>e. predictor_fails e \<or> lfail e) linv (listener_triggered (multistep_ops F notify change) l t xs)"
    by (simp add: multistep_ops_def, rule outcome_mono [OF notify_listener]) auto
  show "linv l \<Longrightarrow> listener_async (multistep_ops F notify change) l l' \<Longrightarrow> linv l'"
    using listener_changes by (simp add: multistep_ops_def)
qed

context multistep_dispatch
begin

lemmas loop_failure = run.run_failure
lemmas loop_front = run.run_front
lemmas loop_refines = run.run_refines

end

section \<open>A concrete model\<close>

text \<open>A model with an event every second, on which the laws of the library hold.\<close>

definition clock_model :: "unit incremental_fmu_ops" where
  "clock_model = \<lparr>new_solver = (\<lambda>_ _ _. (0, ())), setIntegratorProperties = (\<lambda>_ p. (p, ())),
     props_differ = (\<lambda>p q. getDiffString p q \<noteq> []), fmu_start = (\<lambda>_. None),
     getTimeDiffResolution = (\<lambda>_. ten_to_minus_4), INVALID_FMI_TIME = infinity,
     define_outputs = (\<lambda>_ _ _. ()), define_inputs = (\<lambda>_ _ _. ()),
     solver_init = (\<lambda>_ _ _ _ _ _ start _ _ _. (if isfin start then 1 else 0, ())),
     predictState = (\<lambda>_ t. (fadd t double_one, ())), updateState = (\<lambda>_ t. (t, ())),
     updateStateFromTheRight = (\<lambda>_ t. (t, ())), syncState = (\<lambda>_ _ _ _ _ _. ()),
     getRealOutputs = (\<lambda>_. Some (\<lambda>_. 0)), getIntegerOutputs = (\<lambda>_. Some (\<lambda>_. 0)),
     getBooleanOutputs = (\<lambda>_. Some (\<lambda>_. 0)), getStringOutputs = (\<lambda>_. Some (\<lambda>_. []))\<rparr>"

lemma dkey_isfin: "\<not> isnan t \<Longrightarrow> dkey a \<le> dkey t \<Longrightarrow> isfin a \<Longrightarrow> \<not> feq t infinity \<Longrightarrow> isfin t"
proof -
  assume t: "\<not> isnan t" and le: "dkey a \<le> dkey t" and a: "isfin a" and n: "\<not> feq t infinity"
  have k: "\<not> isnan infinity" "dkey infinity = int INF_CODE"
    by (simp_all add: infinity_def fp_eval dkey_def)
  have "- int INF_CODE < dkey a" using a by (auto simp: isfin_def dkey_def)
  moreover have "dkey t \<noteq> int INF_CODE" using n t k by (simp add: feq_def)
  ultimately show "isfin t" using t le
    by (auto simp: isfin_iff isinf_def dkey_def split: if_splits)
qed

interpretation clock_model: incremental_fmu clock_model "\<lambda>_. isfin" "\<lambda>_ _. True"
proof unfold_locales
  have one: "isfin double_one" "0 \<le> dkey double_one" by (simp_all add: double_one_def fp_eval dkey_def)
  fix m t t' m' ty
  show "isfin (getTimeDiffResolution clock_model m) \<and> flt 0 (getTimeDiffResolution clock_model m)"
    using flt_constants(2) by (simp add: clock_model_def ten_to_minus_4_def fp_eval)
  show "isfin t' \<and> fle t t' \<and> (\<forall>u. fle t u \<longrightarrow> fle u t' \<longrightarrow> isfin u)"
    if t: "isfin t" and p: "predictState clock_model m t = (t', m')" and v: "\<not> feq t' (INVALID_FMI_TIME clock_model)"
  proof -
    have e: "t' = fadd t double_one" "\<not> feq t' infinity" using p v by (simp_all add: clock_model_def)
    have n: "\<not> isnan t" "\<not> isnan t'" "dkey t \<le> dkey t'"
      using fadd_not_nan [OF isfin_num [OF t] one(1)] fadd_inflationary [OF isfin_num [OF t] one] isfin_num [OF t] e(1) by simp_all
    then have "isfin t'" using dkey_isfin [OF _ _ t e(2)] by blast
    then show ?thesis using n isfin_between [OF t] by (auto simp: fle_def)
  qed
  show "isfin t \<Longrightarrow> feq (fst (updateState clock_model m t)) t"
    by (simp add: clock_model_def feq_def isfin_num)
  show "supply_of clock_model m ty" by (cases ty) (simp_all add: supply_of_def clock_model_def)
qed (auto simp: clock_model_def split: if_splits)

text \<open>Publishers as listeners: they fail on no event with valid variables.\<close>

definition publisher_notify :: "publisher \<Rightarrow> double \<Rightarrow> variable list \<Rightarrow> publisher res" where
  "publisher_notify p t xs = publisher_eventTriggered p xs"

lemma publisher_notify_outcome:
  "publisher_ok p \<Longrightarrow> list_all var_isValid xs \<Longrightarrow> outcome E publisher_ok (publisher_notify p t xs)"
  using publisher_event_state [of p xs] by (simp add: publisher_notify_def publisher_ok_def)

interpretation published_clock: multistep_dispatch clock_model "\<lambda>_. isfin" "\<lambda>_ _. True" publisher_notify "(=)" publisher_ok "\<lambda>_. False"
  by unfold_locales (simp_all add: publisher_notify_outcome)

text \<open>The state of the clock model before and after its first prediction.\<close>

definition idle_predictor :: "unit event_predictor" where
  "idle_predictor = \<lparr>lowLevelFMU = \<lparr>modelIdentifier = ''clock'', fmu_path = [], fmu_kind = fmi_1_0_me\<rparr>, solver = (),
     outputIDs = replicate 5 [], lastPredictedEventTime = 0, directOutputPending = False, currentTime = 0,
     outputEventVariables = [], outputEventVariablesPopulated = False,
     inputIDs = [[(fmiTypeReal, 0)], [], [], [], []], realInputImage = [0], integerInputImage = [],
     booleanInputImage = [], stringInputImage = [], assumeDirectDependency = False\<rparr>"

definition clock_start :: "(unit event_predictor, publisher) run_state" where
  "clock_start = \<lparr>disp = \<lparr>predictor = idle_predictor, theEnd = DBL_MAX, dqueue = (TimedEventQueue 0)\<lparr>initialized := True\<rparr>,
     listeners = [demo_publisher], timingLog = []\<rparr>, now = 0, rphase = Looping Predicting, pending = LazyEvent 0,
     pushed = [], processed = []\<rparr>"

lemma fadd_zero_one: "fadd 0 double_one = double_one"
  unfolding double_one_def by (subst fadd_eval, (simp add: fp_eval)+)

lemma type_code_cases: "type_code ty = 0 \<or> type_code ty = 1 \<or> type_code ty = 2 \<or> type_code ty = 3 \<or> type_code ty = 4"
  by (cases ty) simp_all

lemma idle_ready: "predictor_ready (\<lambda>_. isfin) (\<lambda>_ _. True) idle_predictor"
proof -
  have "typed_rows [[(fmiTypeReal, 0)], [], [], [], []]"
    unfolding typed_rows_def
  proof (intro conjI allI ballI)
    fix ty i
    show "i \<in> set ([[(fmiTypeReal, 0)], [], [], [], []] ! type_code ty) \<Longrightarrow> fst i = ty" by (cases ty) auto
  qed simp
  moreover have "typed_rows (replicate 5 [])" by (simp add: typed_rows_def)
  ultimately show ?thesis using fle_zero time_zero(3)
    by (simp add: predictor_ready_def predictor_wf_def idle_predictor_def images_ok_def)
qed

lemma clock_start_ok: "run_started clock_start" "predictor_ready (\<lambda>_. isfin) (\<lambda>_ _. True) (predictor (disp clock_start))"
  "list_all publisher_ok (listeners (disp clock_start))"
  using idle_ready by (simp_all add: run_started_def clock_start_def TimedEventQueue_def demo_publisher_def publisher_ok_def
      slot_ok_def var_isValid_def Variable_def)

lemma clock_predicts:
  "predictNext clock_model idle_predictor =
    Inr (LazyEvent double_one, idle_predictor\<lparr>lastPredictedEventTime := double_one\<rparr>)"
proof -
  have "\<not> feq double_one infinity" by (simp add: fp_eval double_one_def infinity_def feq_def dkey_def)
  then show ?thesis
    by (simp add: predictNext_def predictNextFMIEvent_def clock_model_def idle_predictor_def fadd_zero_one)
qed

lemma clock_first_step:
  "\<exists>r. run_reachable (multistep_ops clock_model publisher_notify (=)) clock_start r \<and> rphase r = Looping Running"
proof -
  obtain q n where "add (dqueue (disp clock_start)) (LazyEvent double_one) True = Inr (q, n)"
    using add_predicted [of "dqueue (disp clock_start)" "LazyEvent double_one"]
    by (simp add: clock_start_def TimedEventQueue_def queue_safe_def isQueuePredictionConsistent_def externals_def
        unpredicted_def hasPriorEvents_def)
  then have "\<exists>d. predict_and_add (multistep_ops clock_model publisher_notify (=)) (disp clock_start) =
      Some (Inr (LazyEvent double_one, d))"
    by (simp add: predict_and_add_def multistep_ops_def clock_start_def clock_predicts)
  then obtain d where "dstep (multistep_ops clock_model publisher_notify (=)) clock_start
      (clock_start\<lparr>disp := d, rphase := Looping Running, pending := LazyEvent double_one\<rparr>)"
    using dstep.predict [of clock_start] by (auto simp: clock_start_def)
  then show ?thesis by (intro exI conjI, rule run_reachable.step [OF run_reachable.start]) simp_all
qed

text \<open>A configuration with two channel trees, the start time 0 and the look-ahead time 1.\<close>

definition demo_ops :: "ptree ptree_ops" where
  "demo_ops = tree_ops (\<lambda>n. if n = 0 then 0 else double_one)"

definition demo_context :: "ptree application_context" where
  "demo_context = \<lparr>config = PNode [] [(''out'', shared_channels), (''in'', shared_channels),
     (''app'', PNode [] [(''startTime'', PNode ''0'' []), (''lookAheadTime'', PNode ''1'' [])])],
     portIDSource = new_drawer, outputChannelMap = None, inputChannelMap = None\<rparr>"

lemma demo_children:
  "get_child_optional demo_ops (config demo_context) PROP_OUT = Some shared_channels"
  "get_child_optional demo_ops (config demo_context) PROP_IN = Some shared_channels"
  "get_child_optional demo_ops (config demo_context) PROP_LOOK_AHEAD_TIME = Some (PNode ''1'' [])"
  "get_child_optional demo_ops (config demo_context) PROP_LOOK_AHEAD_STEP_SIZE = None"
  "get_child_optional demo_ops (config demo_context) PROP_INTEGRATOR_STEP_SIZE = None"
  by (simp_all add: demo_ops_def demo_context_def tree_ops_def path_of_def PROP_OUT_def PROP_IN_def
      PROP_LOOK_AHEAD_TIME_def PROP_LOOK_AHEAD_STEP_SIZE_def PROP_INTEGRATOR_STEP_SIZE_def)

lemma demo_one: "as_double demo_ops = (''double'', parse_double demo_ops)" "parse_double demo_ops ''1'' = Some double_one"
  "data_of demo_ops (PNode ''1'' []) = ''1''"
  by (simp_all add: as_double_def demo_ops_def tree_ops_def digits_conv_def is_digits_def)

lemma tenths: "fdiv double_one ten = 0x3FB999999999999A" "fdiv 0x3FB999999999999A ten = 0x3F847AE147AE147B"
  by (simp_all add: double_one_def ten_def fdiv_def fp_eval)

lemma tenths_pos: "flt 0 0x3FB999999999999A" "flt 0 0x3F847AE147AE147B" "fle 0 double_one" "flt 0 double_one" "fle 0 0x3FB999999999999A" "fle 0 0x3F847AE147AE147B"
  by (simp_all add: double_one_def fp_eval)

lemma demo_steps: "step_sizes demo_ops demo_context = Inr (double_one, 0x3FB999999999999A, 0x3F847AE147AE147B)"
  by (simp add: step_sizes_def getRealPositiveDoubleProperty_def hasProperty_def demo_children
     getRealPositiveDoublePropertyOr_def getPositiveDoublePropertyOr_def getPropertyOr_def getProperty_def
     get_optional_def demo_one tenths tenths_pos)

lemma demo_channels_ok: "channels_ok demo_ops demo_context"
proof -
  have "tree_ok demo_ops demo_context p 3" if "p = PROP_OUT \<or> p = PROP_IN" for p
    unfolding tree_ok_def using shared_channels_valid that demo_children(1,2)
    by (auto simp: demo_ops_def intro!: exI [of _ shared_list] exI [of _ shared_vars])
  then have "tree_ok demo_ops demo_context PROP_OUT 3" "tree_ok demo_ops demo_context PROP_IN 3" by simp_all
  moreover have "context_ok demo_context" "room (2 ^ 31) (portIDSource demo_context) (3 + 3)"
    by (simp_all add: context_ok_def demo_context_def room_new)
  ultimately show ?thesis unfolding channels_ok_def by blast
qed

lemma demo_finite: "finite_numbers demo_ops"
  by (auto simp: finite_numbers_def demo_ops_def tree_ops_def digits_conv_def double_one_def fp_eval split: if_splits)

section \<open>Properties\<close>



text \<open>
  C21: a received event. When an external event that is not later than the pending prediction reaches
  the predictor and carries a variable of an input port, every input takes the last value the event
  has for it, the model is updated to the event's time (to its own time when the event is older or
  within the resolution) and synchronized with all inputs; an event without an input changes nothing.
\<close>

theorem received_event_applied:
  assumes "incremental_fmu F covers supplies" and "predictor_offers covers supplies s p" and "external_ok ev"
    and "fle (getTime ev) (getTime p)"
  shows "predictor_eventTriggered F s ev = Inr (if is_input s (event_vars ev)
      then synced F (apply_inputs (event_vars ev) s)
        (align_time (getTimeDiffResolution F (solver s)) (currentTime s) (getTime ev))
      else apply_inputs (event_vars ev) s)"
  using incremental_fmu.notify_external_result(1) [OF assms] .

text \<open>The state of the clock model that offers its first prediction, and an event for its input.\<close>

definition offering_predictor :: "unit event_predictor" where
  "offering_predictor = idle_predictor\<lparr>lastPredictedEventTime := double_one\<rparr>"

lemma offering_offers: "predictor_offers (\<lambda>_. isfin) (\<lambda>_ _. True) offering_predictor (LazyEvent double_one)"
  using clock_model.predictNext_outcome [OF idle_ready] by (simp add: clock_predicts offering_predictor_def)

definition input_event :: event where
  "input_event = StaticEvent 0 [Variable (fmiTypeReal, 0) (AnyReal double_one)]"

theorem received_event_applied_witness:
  "\<exists>s. predictor_eventTriggered clock_model offering_predictor input_event = Inr s \<and>
     realInputImage s = [double_one] \<and> directOutputPending s"
proof -
  have "external_ok input_event" "fle (getTime input_event) (getTime (LazyEvent double_one))"
    using time_zero(1) tenths_pos(3) by (simp_all add: input_event_def var_isValid_def Variable_def)
  from received_event_applied [OF clock_model.incremental_fmu_axioms offering_offers this] show ?thesis
    by (simp add: is_input_def input_event_def Variable_def offering_predictor_def idle_predictor_def synced_def
        apply_inputs_def new_input_def last_value_def)
qed

text \<open>
  C22: reading a prediction. The variables of a lazy event the predictor offers can be read without a
  failed assertion and without the event being reported as outdated; they are valid values of output
  ports; the model is then settled at the time of the event, and reading again gives the same result.
\<close>

theorem lazy_event_readable:
  assumes "incremental_fmu F covers supplies" and "predictor_offers covers supplies s (LazyEvent t)"
  shows "case lazy_getVariables F s t of
     Inl e \<Rightarrow> e = SolverException ''Can't update the model's state'' t
   | Inr (xs, s') \<Rightarrow> output_vars s xs \<and> currentTime s' = t \<and> predictor_offers covers supplies s' (LazyEvent t) \<and>
       lazy_getVariables F s' t = Inr (xs, s')"
  using incremental_fmu.lazy_settles [OF assms] .

lemma clock_resolution:
  "fadd double_one ten_to_minus_4 = 0x3FF00068DB8BAC71" "fmul two ten_to_minus_4 = 0x3F2A36E2EB1C432D"
  unfolding double_one_def ten_to_minus_4_def two_def
  by (subst fadd_eval, (simp add: fp_eval)+) (simp add: fmul_def fp_eval)

lemma clock_reads:
  "lazy_getVariables clock_model offering_predictor double_one =
     Inr ([], offering_predictor\<lparr>currentTime := double_one, outputEventVariablesPopulated := True\<rparr>)"
proof -
  let ?z = "fabs (fsub double_one double_one)"
  have f: "isfin double_one" "flt 0 ten_to_minus_4" "flt 0 0x3F2A36E2EB1C432D"
    by (simp_all add: fp_eval double_one_def ten_to_minus_4_def)
  have "flt ?z ten_to_minus_4" "\<not> flt 0x3F2A36E2EB1C432D ?z"
    using flt_fabs_fsub_self [OF f(1,2)] flt_fabs_fsub_self [OF f(1,3)] by (auto simp: flt_def)
  moreover have "\<not> flt 0x3FF00068DB8BAC71 0" "fle 0 0x3FF00068DB8BAC71" "fle 0 double_one"
    by (simp_all add: fp_eval double_one_def)
  ultimately show ?thesis
    by (simp add: lazy_getVariables_def getOutputVariables_def fetchOutputs_def clock_model_def offering_predictor_def
      idle_predictor_def clock_resolution fetch_row_def)
qed

theorem lazy_event_readable_witness:
  "\<exists>s. lazy_getVariables clock_model offering_predictor double_one = Inr ([], s) \<and> currentTime s = double_one \<and>
     lazy_getVariables clock_model s double_one = Inr ([], s)"
  using lazy_event_readable [OF clock_model.incremental_fmu_axioms offering_offers] by (simp add: clock_reads)



text \<open>
  C14: the main loop refines the threads of the queue. Every state of the loop, seen as the queue, the
  clock and the position of the dispatcher, is one the step relation of the queue's threads reaches:
  the order, the accounting and the punctuality of events hold in the running program.
\<close>

theorem main_loop_refines:
  assumes "multistep_dispatch F covers supplies notify change linv lfail" and "run_started r0"
    and "predictor_ready covers supplies (predictor (disp r0))" and "list_all linv (listeners (disp r0))"
    and "run_reachable (multistep_ops F notify change) r0 r"
  shows "reachable (view r)"
  by (rule multistep_dispatch.loop_refines [OF assms(1,5,2,3,4)])

theorem main_loop_refines_witness:
  "\<exists>r. run_reachable (multistep_ops clock_model publisher_notify (=)) clock_start r \<and> rphase r = Looping Running \<and>
     reachable (view r)"
  using clock_first_step main_loop_refines [OF published_clock.multistep_dispatch_axioms clock_start_ok] by blast

end
