(* ===== verification/OneStep_Run.thy ===== *)
theory OneStep_Run
  imports OneStep_Predictor Multistep_Run
begin

text \<open>
  The main loop with the single-step predictor. The predictor satisfies the contract of the dispatcher
  whenever the model satisfies its laws, with any listeners that satisfy theirs.
\<close>

section \<open>The dispatcher on this predictor\<close>

definition onestep_ops ::
    "'m me_fmu_ops \<Rightarrow> ('l \<Rightarrow> double \<Rightarrow> variable list \<Rightarrow> 'l res) \<Rightarrow> ('l \<Rightarrow> 'l \<Rightarrow> bool) \<Rightarrow>
     (('m, 'p) onestep_predictor, 'l) dispatch_ops" where
  "onestep_ops M notify change = \<lparr>predict_next = onestep_predictNext M, read_variables = onestep_getVariables,
     predictor_triggered = onestep_eventTriggered M, listener_triggered = notify,
     listener_async = change\<rparr>"

locale onestep_dispatch = me_fmu M + listener_contract notify change linv lfail
  for M :: "'m me_fmu_ops" and notify :: "'l \<Rightarrow> double \<Rightarrow> variable list \<Rightarrow> 'l res"
    and change :: "'l \<Rightarrow> 'l \<Rightarrow> bool" and linv :: "'l \<Rightarrow> bool" and lfail :: "exn \<Rightarrow> bool"
begin

lemma onestep_contract:
  "predictor_contract (onestep_ops M notify change) (onestep_ready M) (onestep_offers M) linv (\<lambda>e. onestep_fails e \<or> lfail e)"
proof unfold_locales
  let ?E = "\<lambda>e. onestep_fails e \<or> lfail e"
  fix s ev p xs l l' t r
  show "onestep_ready M s \<Longrightarrow> predict_next (onestep_ops M notify change) s = Some r \<Longrightarrow>
      outcome ?E (\<lambda>(ev, s'). onestep_offers M s' ev \<and> valid_time (getTime ev)) r"
    using predictNext_outcome [of s] by (auto simp: onestep_ops_def intro: outcome_raises)
  show "onestep_offers M s ev \<Longrightarrow> onestep_ready M s" by (simp add: onestep_offers_def)
  show "onestep_offers M s ev \<Longrightarrow>
      outcome ?E (\<lambda>(xs, s'). onestep_offers M s' ev \<and> list_all var_isValid xs) (read_variables (onestep_ops M notify change) s ev)"
    using read_outcome [of s ev] by (simp add: onestep_ops_def)
  show "onestep_ready M s \<Longrightarrow> external_ok ev \<Longrightarrow>
      outcome ?E (\<lambda>(xs, s'). onestep_ready M s' \<and> list_all var_isValid xs) (read_variables (onestep_ops M notify change) s ev)"
    using getVariables_external [of ev s] by (simp add: onestep_ops_def)
  show "onestep_offers M s ev \<Longrightarrow>
      outcome ?E (\<lambda>s'. onestep_offers M s' ev) (predictor_triggered (onestep_ops M notify change) s ev)"
    by (simp add: onestep_ops_def, rule outcome_mono [OF notify_prediction_outcome]) auto
  show "onestep_offers M s p \<Longrightarrow> external_ok ev \<Longrightarrow> fle (getTime ev) (getTime p) \<Longrightarrow>
      outcome ?E (onestep_ready M) (predictor_triggered (onestep_ops M notify change) s ev)"
    by (simp add: onestep_ops_def, rule outcome_raises [OF notify_external_outcome]) auto
  show "linv l \<Longrightarrow> list_all var_isValid xs \<Longrightarrow>
      outcome ?E linv (listener_triggered (onestep_ops M notify change) l t xs)"
    by (simp add: onestep_ops_def, rule outcome_raises [OF notify_listener]) auto
  show "linv l \<Longrightarrow> listener_async (onestep_ops M notify change) l l' \<Longrightarrow> linv l'"
    using listener_changes by (simp add: onestep_ops_def)
qed

lemmas onestep_failure = predictor_contract.run_failure [OF onestep_contract]
lemmas onestep_front = predictor_contract.run_front [OF onestep_contract]
lemmas onestep_predicts = predictor_contract.run_ready [OF onestep_contract]
lemmas onestep_refines = predictor_contract.run_refines [OF onestep_contract]

end

section \<open>A concrete model\<close>

text \<open>A model that reaches every target at once and whose outputs are its time.\<close>

definition ramp_model :: "double me_fmu_ops" where
  "ramp_model = \<lparr>new_model = (\<lambda>_ _ _ _ _. 0), getLastStatus = (\<lambda>_. fmiOK), me_setIntegratorProperties = (\<lambda>m p. (p, m)),
     me_props_differ = (\<lambda>p q. getDiffString p q \<noteq> []), me_start = (\<lambda>_. None), instantiate_fmu = (\<lambda>m _. (fmiOK, m)),
     getValueRef = (\<lambda>_ _. 1), fmiUndefinedValueReference = 0xFFFFFFFF, getType = (\<lambda>_ _. fmiTypeReal),
     setTime = (\<lambda>_ t. t), fmuTime = (\<lambda>m. m), set_named = (\<lambda>m _ _. (fmiOK, m)), set_value = (\<lambda>m _ _. (fmiOK, m)),
     initialize_fmu = (\<lambda>m _ _. (fmiOK, m)), checkTimeEvent = (\<lambda>m. (False, m)), getTimeEvent = (\<lambda>_. 0),
     handleEvents = (\<lambda>m. m), integrate = (\<lambda>_ target _. (target, target)),
     getRealValues = (\<lambda>m _. (fmiOK, \<lambda>_. m, m)), getIntegerValues = (\<lambda>m _. (fmiOK, \<lambda>_. 0, m)),
     getBooleanValues = (\<lambda>m _. (fmiOK, \<lambda>_. 0, m)), getStringValues = (\<lambda>m _. (fmiOK, \<lambda>_. [], m))\<rparr>"

interpretation ramp_model: me_fmu ramp_model
  by unfold_locales (auto simp: ramp_model_def fcmp_defs)

interpretation published_ramp: onestep_dispatch ramp_model publisher_notify "(=)" publisher_ok "\<lambda>_. False"
  by unfold_locales (simp_all add: publisher_notify_outcome)

text \<open>A predictor with one real output and one real input, at time 0.\<close>

definition ramp_mapping :: "ptree channel_mapping" where
  "ramp_mapping = \<lparr>variableNames = [[''y''], [], [], [], []], variableIDs = [[(fmiTypeReal, 1)], [], [], [], []], channels = []\<rparr>"

definition ramp_predictor :: "(double, ptree) onestep_predictor" where
  "ramp_predictor = \<lparr>outputRealImage = [0], outputIntegerImage = [], outputBooleanImage = [], outputStringImage = [],
     outputValueReference = [[1], [], [], []], outputMapping = Some ramp_mapping,
     inputValueReference = [(fmiTypeReal, 0) \<mapsto> 2], currentPrediction = None,
     managedFMU = \<lparr>modelIdentifier = ''ramp'', fmu_path = [], fmu_kind = fmi_2_0_me\<rparr>, fmu = 0,
     simulationProperties = \<lparr>lookAheadStepSize = double_one, integratorStepSize = 0x3FB999999999999A,
       variableStepSizeOnModelEvent = False, timingPrecision = ten_to_minus_4\<rparr>\<rparr>"

lemma ramp_ready: "onestep_ready ramp_model ramp_predictor"
proof -
  let ?d = "\<lparr>nextPortID = replicate 5 2\<rparr> :: drawer"
  have row: "row_ok ?d ty (variableNames ramp_mapping ! type_code ty) (variableIDs ramp_mapping ! type_code ty)" for ty
    by (cases ty) (simp_all add: row_ok_def ramp_mapping_def drawn_def)
  then have "mapping_ok ?d ramp_mapping" by (simp add: mapping_ok_def ramp_mapping_def)
  then have "outputs_ok ramp_predictor"
    by (auto simp: outputs_ok_def refs_ok_def image_sizes_def ramp_predictor_def ramp_mapping_def)
  then show ?thesis using fle_zero flt_constants(1)
    by (simp add: onestep_ready_def ramp_predictor_def ramp_mapping_def output_ports_def getAllVariableIDs_def steps_ok_def
        ramp_model_def double_one_def fp_eval)
qed

section \<open>Properties\<close>


lemma before_target: "\<not> flt double_one (fsub double_one ten_to_minus_4)"
proof -
  have n: "isfin ten_to_minus_4" "fneg ten_to_minus_4 = 0xBF1A36E2EB1C432D" by (simp_all add: fp_eval ten_to_minus_4_def)
  have "fsub double_one ten_to_minus_4 = fadd 0x3FF0000000000000 0xBF1A36E2EB1C432D"
    using n by (simp add: fsub_eq double_one_def)
  also have "\<dots> = 0x3FEFFF2E48E8A71E" by (subst fadd_eval, (simp add: fp_eval)+)
  finally show ?thesis by (simp add: fp_eval double_one_def)
qed

lemma ramp_ops:
  "set_value ramp_model m r v = (fmiOK, m)" "handleEvents ramp_model m = m" "fmuTime ramp_model m = m"
  "integrate ramp_model m t d = (t, t)" "getLastStatus ramp_model m = fmiOK"
  "getRealValues ramp_model m rs = (fmiOK, \<lambda>_. m, m)"
  by (simp_all add: ramp_model_def)

lemma ramp_predicts:
  "\<exists>s'. onestep_predictNext ramp_model ramp_predictor =
     Some (Inr (StaticEvent double_one [Variable (fmiTypeReal, 1) (AnyReal double_one)], s'))"
proof -
  have f: "\<not> isnan double_one" "\<not> feq 0 double_one" "isfin double_one"
    by (simp_all add: fp_eval double_one_def feq_def dkey_def)
  have "step_loop ramp_model (simulationProperties ramp_predictor) double_one 0 = Some (Inr double_one)"
    by (subst step_loop.simps) (simp add: ramp_ops f before_target ramp_predictor_def)
  then have p: "predictOneStep ramp_model ramp_predictor = Some (Inr (ramp_predictor\<lparr>fmu := double_one\<rparr>))"
    by (simp add: predictOneStep_def ramp_ops fadd_zero_one ramp_predictor_def)
  have u: "updateOutputImage ramp_model (ramp_predictor\<lparr>fmu := double_one\<rparr>) =
     Inr (True, ramp_predictor\<lparr>fmu := double_one, outputRealImage := [double_one]\<rparr>)"
    by (simp add: updateOutputImage_def updateOutputImage_typed_def ramp_ops f ramp_predictor_def)
  have "getOutputEvent ramp_model (ramp_predictor\<lparr>fmu := double_one, outputRealImage := [double_one]\<rparr>) =
      Inr (StaticEvent double_one [Variable (fmiTypeReal, 1) (AnyReal double_one)])"
    by (simp add: getOutputEvent_def ramp_ops ramp_predictor_def appendOutputVariables_def ramp_mapping_def
        getVariableIDs_def row_assert_def newStaticEvent_ok f var_isValid_def Variable_def)
  with p u show ?thesis by (simp add: onestep_predictNext_def ramp_predictor_def)
qed


text \<open>
  C23: received values are delayed. While a prediction is pending, an external event with a value for an
  input gives all its values to the model, in their order, and lets it handle its events; the pending
  prediction stays the next event. An event without an input gives nothing to the model and forgets
  the pending prediction.
\<close>

theorem onestep_input_delayed:
  assumes "me_fmu M" and "onestep_offers M s p" and "currentPrediction s = Some p" and "external_ok ev"
  shows "case onestep_eventTriggered M s ev of
     Inl e \<Rightarrow> onestep_fails e
   | Inr s' \<Rightarrow> onestep_ready M s' \<and> fmuTime M (fmu s') = fmuTime M (fmu s) \<and>
       (if \<exists>x\<in>set (event_vars ev). var_id x \<in> dom (inputValueReference s)
        then fmu s' = handleEvents M (assign_inputs M (inputValueReference s) (event_vars ev) (fmu s)) \<and>
          onestep_predictNext M s' = Some (Inr (p, s'))
        else fmu s' = fmu s \<and> currentPrediction s' = None)"
proof -
  have v: "onestep_getVariables s ev = Inr (event_vars ev, s)" "list_all var_isValid (event_vars ev)"
    using getVariables_external [OF assms(4), of s] by simp_all
  have r: "onestep_ready M (after_event M s (event_vars ev))"
    using assms(2) by (intro me_fmu.after_event_ready [OF assms(1)]) (simp add: onestep_offers_def)
  show ?thesis
  proof (cases "onestep_eventTriggered M s ev")
    case (Inl e)
    then show ?thesis using eventTriggered_outcome [OF v, of M] by simp
  next
    case (Inr s')
    then have "s' = after_event M s (event_vars ev)" using eventTriggered_outcome [OF v, of M] by simp
    then show ?thesis
      using Inr r assms(3) me_fmu.handle_time [OF assms(1)] me_fmu.assign_inputs_time [OF assms(1)]
      by (simp add: after_event_def onestep_predictNext_def)
  qed
qed

text \<open>The state of the ramp model that offers an event at time 0.\<close>

definition offering_ramp :: "(double, ptree) onestep_predictor" where
  "offering_ramp = ramp_predictor\<lparr>currentPrediction := Some (StaticEvent 0 [])\<rparr>"

lemma offering_ramp_offers: "onestep_offers ramp_model offering_ramp (StaticEvent 0 [])"
  using ramp_ready
  by (simp add: offering_ramp_def onestep_offers_def onestep_ready_def prediction_ok_def outputs_ok_def refs_ok_def
      image_sizes_def output_ports_def ramp_model_def ramp_predictor_def)

lemma ramp_takes: "\<exists>s'. onestep_eventTriggered ramp_model offering_ramp input_event = Inr s'"
proof -
  let ?x = "Variable (fmiTypeReal, 0) (AnyReal double_one)"
  have "updateInputVariable ramp_model (inputValueReference offering_ramp) m ?x = Inr (True, m)" for m
    by (simp add: updateInputVariable_def var_isValid_def input_value_def Variable_def getRealValue_def ramp_ops
        offering_ramp_def ramp_predictor_def)
  then show ?thesis by (simp add: onestep_eventTriggered_def input_event_def ramp_ops)
qed

theorem onestep_input_delayed_witness:
  "\<exists>s'. onestep_eventTriggered ramp_model offering_ramp input_event = Inr s' \<and>
     onestep_predictNext ramp_model s' = Some (Inr (StaticEvent 0 [], s'))"
proof -
  have "external_ok input_event" using time_zero(1) by (simp add: input_event_def var_isValid_def Variable_def)
  moreover have "currentPrediction offering_ramp = Some (StaticEvent 0 [])" by (simp add: offering_ramp_def)
  moreover have "\<exists>x\<in>set (event_vars input_event). var_id x \<in> dom (inputValueReference offering_ramp)"
    by (simp add: input_event_def Variable_def offering_ramp_def ramp_predictor_def)
  ultimately show ?thesis
    using onestep_input_delayed [OF ramp_model.me_fmu_axioms offering_ramp_offers, of input_event]
      ramp_takes by (auto split: sum.splits)
qed


text \<open>A configuration that names the model only, and a manager that loads it.\<close>

definition model_context :: "ptree application_context" where
  "model_context = \<lparr>config = PNode [] [(''fmu'', PNode [] [(''path'', PNode ''ramp'' [])])],
     portIDSource = new_drawer, outputChannelMap = None, inputChannelMap = None\<rparr>"

definition ramp_manager :: model_manager where
  "ramp_manager = \<lparr>load_as = (\<lambda>_ _. (load_success, fmi_2_0_me)), load_deduced = (\<lambda>p. (load_success, fmi_2_0_me, p))\<rparr>"

lemma model_children:
  "get_child_optional demo_ops (config model_context) PROP_FMU_PATH = Some (PNode ''ramp'' [])"
  "p \<in> {PROP_FMU_NAME, PROP_FMU_DEBUGGING, PROP_EVENT_SEARCH_PRECISION, PROP_INTEGRATOR_TYPE, PROP_ABSOLUTE_TOLERANCE,
     PROP_RELATIVE_TOLERANCE, PROP_INTEGRATION_ORDER, PROP_FMU_INSTANCE_NAME} \<Longrightarrow>
     get_child_optional demo_ops (config model_context) p = None"
  by (auto simp: demo_ops_def model_context_def tree_ops_def path_of_def PROP_FMU_PATH_def PROP_FMU_NAME_def
      PROP_FMU_DEBUGGING_def PROP_EVENT_SEARCH_PRECISION_def PROP_INTEGRATOR_TYPE_def PROP_ABSOLUTE_TOLERANCE_def
      PROP_RELATIVE_TOLERANCE_def PROP_INTEGRATION_ORDER_def PROP_FMU_INSTANCE_NAME_def)

lemma model_absent:
  assumes "p \<in> {PROP_FMU_NAME, PROP_FMU_DEBUGGING, PROP_EVENT_SEARCH_PRECISION, PROP_INTEGRATOR_TYPE, PROP_ABSOLUTE_TOLERANCE,
     PROP_RELATIVE_TOLERANCE, PROP_INTEGRATION_ORDER, PROP_FMU_INSTANCE_NAME}"
  shows "\<not> hasProperty demo_ops model_context p" "getPropertyOr demo_ops ty model_context p d = Inr d"
  using model_children(2) [OF assms] by (simp_all add: hasProperty_def getPropertyOr_def)

lemma model_solver: "\<exists>cfg. SolverConfiguration False demo_ops model_context = Inr cfg"
proof -
  have "fle 0 ten_to_minus_4" using flt_constants(2) by (simp add: fcmp_defs)
  then show ?thesis using flt_constants(2)
    by (simp add: SolverConfiguration_def makeIntegratorProperties_def getRealPositiveDoublePropertyOr_def
        getPositiveDoublePropertyOr_def model_absent toIntegratorType_def)
qed

lemma ramp_constructed: "\<exists>s. OneStepEventPredictor ramp_model ramp_manager False sp demo_ops model_context = Inr s"
proof -
  have data: "data_of demo_ops (PNode x cs) = x" for x cs by (simp add: demo_ops_def tree_ops_def)
  have low: "ManagedLowLevelFMU ramp_manager demo_ops model_context =
      Inr \<lparr>modelIdentifier = ''ramp'', fmu_path = ''ramp'', fmu_kind = fmi_2_0_me\<rparr>"
    by (simp add: ManagedLowLevelFMU_def initVarsAndLoadFMU_def getProperty_def get_optional_def model_children
        model_absent ramp_manager_def lockFMU_def as_string_def data)
  obtain cfg where cfg: "SolverConfiguration False demo_ops model_context = Inr cfg" using model_solver by blast
  have "getDiffString p p = []" for p
    by (simp add: getDiffString_def getDiffString_double_def feq_def)
  then show ?thesis
    by (simp add: OneStepEventPredictor_def low loadModel_def cfg ramp_model_def instantiateModel_def model_absent)
qed



text \<open>The start of a loop with the ramp model and a publisher.\<close>

definition ramp_start :: "((double, ptree) onestep_predictor, publisher) run_state" where
  "ramp_start = \<lparr>disp = \<lparr>predictor = ramp_predictor, theEnd = DBL_MAX, dqueue = (TimedEventQueue 0)\<lparr>initialized := True\<rparr>,
     listeners = [demo_publisher], timingLog = []\<rparr>, now = 0, rphase = Looping Predicting, pending = LazyEvent 0,
     pushed = [], processed = []\<rparr>"

lemma ramp_start_ok: "run_started ramp_start" "onestep_ready ramp_model (predictor (disp ramp_start))"
  "list_all publisher_ok (listeners (disp ramp_start))"
  using ramp_ready by (simp_all add: run_started_def ramp_start_def TimedEventQueue_def demo_publisher_def publisher_ok_def
      slot_ok_def var_isValid_def Variable_def)


text \<open>
  The type of the model: a model with a 2.0 interface for both model exchange and co-simulation is
  refused as unsupported, although its model-exchange part has the supported type.
\<close>

lemma combined_model_refused:
  "loadModel M sundials P c (low\<lparr>fmu_kind := fmi_2_0_me_and_cs\<rparr>) =
     rbind (SolverConfiguration sundials P c) (\<lambda>_.
       Inl (SystemConfigurationException ''Unsupported FMU type: FMI 2.0 CS and ME'' None))"
  by (simp add: loadModel_def)

end
