(* ===== verification/CSV_Logger.thy ===== *)
theory CSV_Logger
  imports Application_Context Variables
begin

text \<open>
  The data logger: \<open>timing/CSVDataLogger\<close>. A stream is the text that was written to it. Whether a file
  opens and whether writing to it fails is up to the environment, which is the record \<open>csv_io\<close>. The
  functions \<open>append\<close> of the code write to the stream; here they are the text they write.

  The splitter \<open>csv_split\<close> is the specification of the format: a reader that cuts a row at the
  separators outside quotes gets back the fields, whatever characters the names and values hold.
\<close>

section \<open>State\<close>

record csv_io =
  can_open :: "string \<Rightarrow> bool"
  stream_fails :: "string \<Rightarrow> bool"

text \<open>\<open>csv_stream\<close> is \<open>None\<close> when no logger is registered, \<open>csv_file\<close> tells that the file is managed.\<close>

record csv_logger =
  csv_stream :: "string option"
  csv_file :: bool
  csv_header :: "port_id list"

definition PROP_CSV_FILE_NAME :: string where "PROP_CSV_FILE_NAME = ''app.dataFile''"

definition SEPARATOR :: char where "SEPARATOR = CHR '';''"

definition QUOTE :: char where "QUOTE = CHR 0x22"

definition NEWLINE :: char where "NEWLINE = CHR 0x0A"

fun FMI_TYPE_NAMES :: "fmi_type \<Rightarrow> string" where
  "FMI_TYPE_NAMES fmiTypeReal = ''fmiReal''"
| "FMI_TYPE_NAMES fmiTypeInteger = ''fmiInteger''"
| "FMI_TYPE_NAMES fmiTypeBoolean = ''fmiBoolean''"
| "FMI_TYPE_NAMES fmiTypeString = ''fmiString''"
| "FMI_TYPE_NAMES fmiTypeUnknown = ''fmiUnknown''"

section \<open>The text of a row\<close>

definition append_string :: "string \<Rightarrow> string" where
  "append_string value = QUOTE # concat (map (\<lambda>c. if c = QUOTE then [QUOTE, QUOTE] else [c]) value) @ [QUOTE]"

text \<open>The loops that write a separator between two elements, but not after the last.\<close>

fun separated :: "string list \<Rightarrow> string" where
  "separated [] = []"
| "separated [f] = f"
| "separated (f # g # fs) = f @ SEPARATOR # separated (g # fs)"

definition append_fields :: "string list \<Rightarrow> string" where
  "append_fields fs = separated (map append_string fs)"

definition appendTypes :: "port_id list \<Rightarrow> string" where
  "appendTypes ports = separated (map (\<lambda>p. append_string (FMI_TYPE_NAMES (fst p))) ports)"

definition appendHeader :: "string list \<Rightarrow> port_id list \<Rightarrow> string" where
  "appendHeader allNames allIDs =
     QUOTE # ''time'' @ QUOTE # SEPARATOR # append_fields allNames @ NEWLINE #
     append_string (FMI_TYPE_NAMES fmiTypeReal) @ SEPARATOR # appendTypes allIDs @ [NEWLINE]"

definition findVariable :: "port_id \<Rightarrow> variable list \<Rightarrow> variable option" where
  "findVariable i xs = find (\<lambda>x. var_id x = i) xs"

text \<open>A boolean is a \<open>char\<close>: the conversion to \<open>unsigned\<close> extends its sign.\<close>

fun append_variable :: "variable option \<Rightarrow> string res" where
  "append_variable None = Inr []"
| "append_variable (Some x) =
     (case fst (var_id x) of
        fmiTypeReal \<Rightarrow> rbind (getRealValue x) (\<lambda>v. Inr (show_general 6 v))
      | fmiTypeInteger \<Rightarrow> rbind (getIntegerValue x) (\<lambda>v. Inr (show_int (sint v)))
      | fmiTypeBoolean \<Rightarrow> rbind (getBooleanValue x) (\<lambda>v. Inr (show_nat (unat (scast v :: int32))))
      | fmiTypeString \<Rightarrow> rbind (getStringValue x) (\<lambda>v. Inr (append_string v))
      | fmiTypeUnknown \<Rightarrow> Inr (append_string ''unknown-type''))"

fun append_values :: "variable list \<Rightarrow> port_id list \<Rightarrow> string res" where
  "append_values xs [] = Inr []"
| "append_values xs (p # ps) =
     rbind (append_variable (findVariable p xs)) (\<lambda>f.
     rbind (append_values xs ps) (\<lambda>rest.
       Inr (f @ (if ps \<noteq> [] then SEPARATOR # rest else rest))))"

section \<open>Operations\<close>

definition csv_append :: "csv_logger \<Rightarrow> string \<Rightarrow> csv_logger" where
  "csv_append s txt = s\<lparr>csv_stream := map_option (\<lambda>out. out @ txt) (csv_stream s)\<rparr>"

definition csv_eventTriggered :: "csv_logger \<Rightarrow> double \<Rightarrow> variable list \<Rightarrow> csv_logger res" where
  "csv_eventTriggered s t xs =
     (if csv_stream s = None then Inr s
      else rbind (append_values xs (csv_header s)) (\<lambda>row.
        Inr (csv_append s (show_general 6 t @ SEPARATOR # row @ [NEWLINE]))))"

definition openFileStream :: "csv_io \<Rightarrow> csv_logger \<Rightarrow> string \<Rightarrow> csv_logger res" where
  "openFileStream io s filename =
     rbind (assert_that (\<not> csv_file s)) (\<lambda>_.
     rbind (assert_that (csv_stream s = None)) (\<lambda>_.
       if \<not> can_open io filename
       then Inl (SystemConfigurationException ''Couldn't open CSV file for writing.''
         (Some (PROP_CSV_FILE_NAME, filename)))
       else Inr (s\<lparr>csv_stream := Some [], csv_file := True\<rparr>)))"

definition initHeader ::
    "csv_io \<Rightarrow> 'p channel_mapping \<Rightarrow> 'p channel_mapping \<Rightarrow> csv_logger \<Rightarrow> csv_logger res" where
  "initHeader io inp out s =
     rbind (assert_that (csv_header s = [])) (\<lambda>_.
     rbind (assert_that (csv_stream s \<noteq> None)) (\<lambda>_.
       let ids = getAllVariableIDs inp @ getAllVariableIDs out;
           names = getAllVariableNames inp @ getAllVariableNames out;
           s1 = csv_append (s\<lparr>csv_header := csv_header s @ ids\<rparr>) (appendHeader names ids) in
       if stream_fails io (the (csv_stream s1))
       then Inl (SystemConfigurationException ''Cannot write to CSV data file'' None)
       else Inr s1))"

text \<open>
  The two constructors. The mappings are arguments of one call, whose order of evaluation the language
  leaves open; the predictor built both before, so that they are only looked up here.
\<close>

definition with_mappings ::
    "'p ptree_ops \<Rightarrow> 'p application_context \<Rightarrow> ('p channel_mapping \<Rightarrow> 'p channel_mapping \<Rightarrow> 'a res) \<Rightarrow>
     ('a \<times> 'p application_context) res option" where
  "with_mappings P c f =
     Option.bind (getInputChannelMapping P c) (\<lambda>ri. case ri of
       Inl e \<Rightarrow> Some (Inl e)
     | Inr (inp, c1) \<Rightarrow> map_option (\<lambda>ro. rbind ro (\<lambda>(out, c2). rbind (f inp out) (\<lambda>s. Inr (s, c2))))
         (getOutputChannelMapping P c1))"

definition no_csv :: csv_logger where
  "no_csv = \<lparr>csv_stream = None, csv_file = False, csv_header = []\<rparr>"

definition CSVDataLogger_stream ::
    "csv_io \<Rightarrow> 'p ptree_ops \<Rightarrow> string \<Rightarrow> 'p application_context \<Rightarrow> (csv_logger \<times> 'p application_context) res option" where
  "CSVDataLogger_stream io P dest c =
     (if hasProperty P c PROP_CSV_FILE_NAME
      then Some (Inl (SystemConfigurationException
        ''The CSV file name must not be specified while externally setting the data destination.'' None))
      else with_mappings P c (\<lambda>inp out. initHeader io inp out (no_csv\<lparr>csv_stream := Some dest\<rparr>)))"

definition CSVDataLogger ::
    "csv_io \<Rightarrow> 'p ptree_ops \<Rightarrow> 'p application_context \<Rightarrow> (csv_logger \<times> 'p application_context) res option" where
  "CSVDataLogger io P c =
     (if hasProperty P c PROP_CSV_FILE_NAME
      then (case rbind (getProperty P as_string c PROP_CSV_FILE_NAME) (openFileStream io no_csv) of
          Inl e \<Rightarrow> Some (Inl e)
        | Inr s \<Rightarrow> with_mappings P c (\<lambda>inp out. initHeader io inp out s))
      else Some (Inr (no_csv, c)))"

section \<open>The format\<close>

text \<open>A reader of the format: \<open>q\<close> tells that the position is inside quotes, \<open>cur\<close> is the open field.\<close>

fun csv_split :: "bool \<Rightarrow> string \<Rightarrow> string \<Rightarrow> string list" where
  "csv_split q cur [] = [cur]"
| "csv_split q cur (c # cs) =
     (if c = QUOTE then csv_split (\<not> q) (cur @ [c]) cs
      else if c = SEPARATOR \<and> \<not> q then cur # csv_split False [] cs
      else csv_split q (cur @ [c]) cs)"

fun undouble :: "string \<Rightarrow> string" where
  "undouble (c # d # cs) = (if c = QUOTE \<and> d = QUOTE then QUOTE # undouble cs else c # undouble (d # cs))"
| "undouble cs = cs"

text \<open>The content of a field: a quoted field without its quotes.\<close>

definition csv_content :: "string \<Rightarrow> string" where
  "csv_content f = (if f \<noteq> [] \<and> hd f = QUOTE then undouble (butlast (tl f)) else f)"

text \<open>A field is closed when the reader is outside quotes behind it and did not cut it.\<close>

definition closed_field :: "string \<Rightarrow> bool" where
  "closed_field f \<longleftrightarrow> (\<forall>cur rest. csv_split False cur (f @ rest) = csv_split False (cur @ f) rest)"

lemma closed_fieldD: "closed_field f \<Longrightarrow> csv_split False cur (f @ rest) = csv_split False (cur @ f) rest"
  by (simp add: closed_field_def)

lemma closed_plain: "QUOTE \<notin> set f \<Longrightarrow> SEPARATOR \<notin> set f \<Longrightarrow> closed_field f"
proof (induction f)
  case (Cons c f)
  then have c: "c \<noteq> QUOTE" "c \<noteq> SEPARATOR" "closed_field f" by auto
  then show ?case by (simp add: closed_field_def [of "c # f"] closed_fieldD)
qed (simp add: closed_field_def)

lemma split_doubled:
  "csv_split True cur (concat (map (\<lambda>c. if c = QUOTE then [QUOTE, QUOTE] else [c]) v) @ rest) =
     csv_split True (cur @ concat (map (\<lambda>c. if c = QUOTE then [QUOTE, QUOTE] else [c]) v)) rest"
  by (induction v arbitrary: cur) simp_all

lemma closed_string: "closed_field (append_string v)"
  by (simp add: closed_field_def append_string_def split_doubled)

lemma undouble_doubled: "undouble (concat (map (\<lambda>c. if c = QUOTE then [QUOTE, QUOTE] else [c]) v)) = v"
proof (induction v)
  case (Cons c v)
  show ?case
  proof (cases "c = QUOTE")
    case False
    have "undouble (c # ys) = c # undouble ys" for ys using False by (cases ys) simp_all
    with Cons False show ?thesis by simp
  qed (use Cons in simp)
qed simp

lemma csv_content_string: "csv_content (append_string v) = v"
  by (simp add: csv_content_def append_string_def undouble_doubled butlast_append)

lemma split_separated:
  assumes "fs \<noteq> []" and "list_all closed_field fs"
  shows "csv_split False [] (separated fs) = fs"
  using assms
proof (induction fs rule: separated.induct)
  case (2 f)
  then show ?case using closed_fieldD [of f "[]" "[]"] by simp
next
  case (3 f g fs)
  then show ?case using closed_fieldD [of f "[]"] by (simp add: SEPARATOR_def QUOTE_def)
qed simp

text \<open>The characters of numbers are neither quotes nor separators.\<close>

definition number_chars :: "char set" where
  "number_chars = digit_char ` {..<10} \<union> set ''.+-einfa''"

lemma number_chars_plain: "c \<in> number_chars \<Longrightarrow> c \<noteq> QUOTE \<and> c \<noteq> SEPARATOR"
proof -
  have "digit_char d \<noteq> QUOTE \<and> digit_char d \<noteq> SEPARATOR" if "d < 10" for d
  proof -
    have "(of_char (digit_char d) :: nat) = 48 + d" using of_char_digit_char [OF that] .
    moreover have "(of_char QUOTE :: nat) = 34" "(of_char SEPARATOR :: nat) = 59"
      by (simp_all add: QUOTE_def SEPARATOR_def)
    ultimately have "of_char (digit_char d) \<noteq> (of_char QUOTE :: nat)" "of_char (digit_char d) \<noteq> (of_char SEPARATOR :: nat)"
      using that by simp_all
    then show ?thesis by metis
  qed
  then show "c \<in> number_chars \<Longrightarrow> c \<noteq> QUOTE \<and> c \<noteq> SEPARATOR"
    by (auto simp: number_chars_def QUOTE_def SEPARATOR_def)
qed

lemma digits_chars: "set (show_nat n) \<subseteq> number_chars"
  using show_nat_digits [of _ n] by (auto simp: number_chars_def)

lemma zero_char: "digit_char 0 \<in> number_chars"
  by (simp add: number_chars_def)

lemma pad_chars: "set s \<subseteq> number_chars \<Longrightarrow> set (pad_left n s) \<subseteq> number_chars"
  using zero_char by (auto simp: pad_left_def)

lemma point_chars: "set s \<subseteq> number_chars \<Longrightarrow> set (with_point p s) \<subseteq> number_chars"
  by (auto simp: with_point_def number_chars_def dest: in_set_takeD in_set_dropD)

lemma strip_chars: "set s \<subseteq> number_chars \<Longrightarrow> set (strip_zeros s) \<subseteq> number_chars"
proof -
  assume s: "set s \<subseteq> number_chars"
  define r where "r = dropWhile (\<lambda>c. c = digit_char 0) (rev s)"
  have "set r \<subseteq> number_chars" using s set_dropWhileD [of _ _ "rev s"] by (fastforce simp: r_def)
  moreover have "set (rev (case r of [] \<Rightarrow> [] | c # cs \<Rightarrow> if c = CHR ''.'' then cs else r)) \<subseteq> set r"
    by (cases r) auto
  ultimately show "set (strip_zeros s) \<subseteq> number_chars" using s
    unfolding strip_zeros_def Let_def r_def [symmetric]
    by (cases "CHR ''.'' \<in> set s") (simp_all only: if_True if_False)
qed

lemma exp_chars: "set (exp_digits x) \<subseteq> number_chars"
  using pad_chars [OF digits_chars] by (auto simp: exp_digits_def number_chars_def)

lemma general_chars: "set (show_general p t) \<subseteq> number_chars"
proof -
  have "set (general_digits p m n) \<subseteq> number_chars" for m n
    using zero_char by (simp add: general_digits_def fixed_digits_def Let_def digit_char_eval(1) exp_chars
        strip_chars [OF point_chars [OF pad_chars [OF digits_chars]]] strip_chars [OF point_chars [OF digits_chars]])
  then show ?thesis by (auto simp: show_general_def special_def number_chars_def)
qed

lemma show_int_chars: "set (show_int i) \<subseteq> number_chars"
  using digits_chars by (auto simp: show_int_def number_chars_def)

lemma closed_number: "set f \<subseteq> number_chars \<Longrightarrow> closed_field f"
  using number_chars_plain by (intro closed_plain) blast+

section \<open>Rows\<close>

text \<open>The field of a valid variable, and the fields of an event.\<close>

fun csv_field :: "any \<Rightarrow> string" where
  "csv_field (AnyReal v) = show_general 6 v"
| "csv_field (AnyInt v) = show_int (sint v)"
| "csv_field (AnyBool v) = show_nat (unat (scast v :: int32))"
| "csv_field (AnyString v) = append_string v"
| "csv_field AnyEmpty = []"

definition csv_cell :: "variable list \<Rightarrow> port_id \<Rightarrow> string" where
  "csv_cell xs p = (case find (\<lambda>x. var_id x = p) xs of None \<Rightarrow> [] | Some x \<Rightarrow> csv_field (var_data x))"

lemma append_variable_valid:
  assumes "var_isValid x"
  shows "append_variable (Some x) = Inr (csv_field (var_data x))"
  using assms by (cases "fst (var_id x)"; cases "var_data x")
    (simp_all add: var_isValid_def getRealValue_def getIntegerValue_def getBooleanValue_def getStringValue_def)

lemma csv_field_closed: "closed_field (csv_field v)"
  using closed_number [OF general_chars] closed_number [OF show_int_chars] closed_number [OF digits_chars] closed_string
  by (cases v) (simp_all add: closed_plain)

lemma csv_cell_closed: "closed_field (csv_cell xs p)"
  by (simp add: csv_cell_def csv_field_closed closed_plain split: option.splits)

lemma append_values_valid:
  assumes "list_all var_isValid xs"
  shows "append_values xs ps = Inr (separated (map (csv_cell xs) ps))"
proof (induction ps)
  case (Cons p ps)
  have "append_variable (findVariable p xs) = Inr (csv_cell xs p)"
  proof (cases "find (\<lambda>x. var_id x = p) xs")
    case (Some x)
    then have "var_isValid x" using assms by (auto simp: find_Some_iff list_all_length)
    with Some show ?thesis by (simp add: findVariable_def csv_cell_def append_variable_valid del: append_variable.simps(2))
  qed (simp add: findVariable_def csv_cell_def)
  with Cons show ?case by (cases ps) simp_all
qed simp

lemma csv_event_result:
  assumes "list_all var_isValid xs"
  shows "csv_eventTriggered s t xs = Inr (csv_append s (show_general 6 t @ SEPARATOR # separated (map (csv_cell xs) (csv_header s)) @ [NEWLINE]))"
  using assms by (cases "csv_stream s") (simp_all add: csv_eventTriggered_def append_values_valid csv_append_def)

section \<open>Properties\<close>

text \<open>
  C30: the logged row. An event with valid variables never fails; the row it appends has the time and then
  one field per port of the header. A reader that cuts the row at the separators outside quotes gets
  exactly these fields, and the content of a string field is the string, whatever characters it holds:
  a field is empty for a port the event does not set and otherwise has its first value.
\<close>

theorem csv_row_roundtrip:
  assumes "csv_stream s = Some out" and "list_all var_isValid xs" and "csv_header s \<noteq> []"
  shows "\<exists>row. csv_eventTriggered s t xs = Inr (s\<lparr>csv_stream := Some (out @ row @ [NEWLINE])\<rparr>) \<and>
    csv_split False [] row = show_general 6 t # map (csv_cell xs) (csv_header s) \<and>
    (\<forall>i v. find (\<lambda>x. var_id x = i) xs = Some (Variable i (AnyString v)) \<longrightarrow> csv_content (csv_cell xs i) = v)"
proof -
  let ?fs = "map (csv_cell xs) (csv_header s)"
  have f: "?fs \<noteq> []" "list_all closed_field (show_general 6 t # ?fs)"
    using assms(3) csv_cell_closed closed_number [OF general_chars] by (simp_all add: list_all_iff)
  then obtain g gs where "?fs = g # gs" by (cases ?fs) simp_all
  then have "show_general 6 t @ SEPARATOR # separated ?fs = separated (show_general 6 t # ?fs)" by simp
  then have "csv_split False [] (show_general 6 t @ SEPARATOR # separated ?fs) = show_general 6 t # ?fs"
    using split_separated [OF _ f(2)] by simp
  moreover have "csv_content (csv_cell xs i) = v" if "find (\<lambda>x. var_id x = i) xs = Some (Variable i (AnyString v))" for i v
    using that csv_content_string by (simp add: csv_cell_def Variable_def)
  ultimately show ?thesis using csv_event_result [OF assms(2), of s t] assms(1)
    by (intro exI [of _ "show_general 6 t @ SEPARATOR # separated ?fs"]) (simp add: csv_append_def)
qed

text \<open>A logger for a string and a real port, and an event for the string.\<close>

definition demo_logger :: csv_logger where
  "demo_logger = \<lparr>csv_stream = Some [], csv_file = False, csv_header = [(fmiTypeString, 0), (fmiTypeReal, 0)]\<rparr>"

definition quoted_event :: "variable list" where
  "quoted_event = [Variable (fmiTypeString, 0) (AnyString [CHR ''a'', QUOTE, SEPARATOR])]"

theorem csv_row_roundtrip_witness:
  "\<exists>row. csv_eventTriggered demo_logger 0 quoted_event = Inr (demo_logger\<lparr>csv_stream := Some (row @ [NEWLINE])\<rparr>) \<and>
    csv_split False [] row = [show_general 6 0, [QUOTE, CHR ''a'', QUOTE, QUOTE, SEPARATOR, QUOTE], []] \<and>
    csv_content (csv_cell quoted_event (fmiTypeString, 0)) = [CHR ''a'', QUOTE, SEPARATOR]"
proof -
  have v: "list_all var_isValid quoted_event" by (simp add: quoted_event_def var_isValid_def Variable_def)
  have s: "csv_stream demo_logger = Some []" "csv_header demo_logger \<noteq> []" by (simp_all add: demo_logger_def)
  have "find (\<lambda>x. var_id x = (fmiTypeString, 0)) quoted_event =
      Some (Variable (fmiTypeString, 0) (AnyString [CHR ''a'', QUOTE, SEPARATOR]))"
    by (simp add: quoted_event_def Variable_def)
  moreover have "map (csv_cell quoted_event) (csv_header demo_logger) = [[QUOTE, CHR ''a'', QUOTE, QUOTE, SEPARATOR, QUOTE], []]"
    by (simp add: quoted_event_def demo_logger_def csv_cell_def Variable_def append_string_def QUOTE_def SEPARATOR_def)
  ultimately show ?thesis using csv_row_roundtrip [OF s(1) v s(2), of 0] by auto
qed

end
