(* ===== verification/ASN1_Subscriber.thy ===== *)
theory ASN1_Subscriber
  imports ASN1_Codec
begin

text \<open>
  The subscriber side of the compact ASN.1 protocol: \<open>network/CompactASN1Subscriber\<close>. Received chunks
  of bytes are committed to a buffer and parsed into a partial event, one value per port of the
  channel; a complete event goes to the event sink.

  The events handed to the sink's \<open>pushExternalEvent\<close> are recorded in the state. The time stamp of a
  new event comes from the sink's clock: \<open>stamp n\<close> is the time it returns for the event that follows
  \<open>n\<close> others. Times of the packet timer are counted in microseconds, like those of the queue.
\<close>

section \<open>State\<close>

record subscriber =
  subPorts :: "port_id list"
  rawData :: "byte list"
  partialData :: "event option"
  pushedEvents :: "event list"
  packetExpiry :: int
  waitPending :: bool
  stopped :: bool

definition CompactASN1Subscriber :: subscriber where
  "CompactASN1Subscriber = \<lparr>subPorts = [], rawData = [], partialData = None, pushedEvents = [],
     packetExpiry = 0, waitPending = False, stopped = False\<rparr>"

definition PROP_PACKET_TIMEOUT :: string where
  "PROP_PACKET_TIMEOUT = ''packetTimeout''"

definition clearUnprocessedData :: "subscriber \<Rightarrow> subscriber" where
  "clearUnprocessedData s = s\<lparr>rawData := []\<rparr>"

definition subscriber_init ::
    "'p ptree_ops \<Rightarrow> subscriber \<Rightarrow> 'p transmission_channel \<Rightarrow> int \<Rightarrow> subscriber res" where
  "subscriber_init P s settings now =
     rbind (getPortIDs settings) (\<lambda>ports.
       if length ports \<le> 0 then
         Inl (SystemConfigurationException ''Compact ASN.1 channel has no associated ports'' None)
       else
         let packetTimeout = get_default P (parse_int P) (getChannelConfig settings) PROP_PACKET_TIMEOUT 500 in
         Inr ((clearUnprocessedData (s\<lparr>subPorts := ports\<rparr>))\<lparr>packetExpiry := now + 1000 * int (unat packetTimeout)\<rparr>))"

definition pushPartialEvent :: "subscriber \<Rightarrow> subscriber res" where
  "pushPartialEvent s =
     (case partialData s of
        None \<Rightarrow> Inl AssertionFailed
      | Some ev \<Rightarrow> Inr (s\<lparr>pushedEvents := pushedEvents s @ [ev], partialData := None\<rparr>))"

section \<open>The packet timer\<close>

text \<open>
  The expiry time is set once, when the timer is created. \<open>restartPacketTimer\<close> cancels the pending
  wait, whose handler runs with an error and does nothing, and starts a new wait for the same expiry.
\<close>

definition restartPacketTimer :: "subscriber \<Rightarrow> subscriber" where
  "restartPacketTimer s = s\<lparr>waitPending := True\<rparr>"

definition timer_due :: "subscriber \<Rightarrow> int \<Rightarrow> bool" where
  "timer_due s now \<longleftrightarrow> waitPending s \<and> packetExpiry s \<le> now"

definition handlePacketTimeout :: "subscriber \<Rightarrow> bool \<Rightarrow> subscriber res" where
  "handlePacketTimeout s error =
     (if \<not> error \<and> partialData s \<noteq> None
      then rbind (pushPartialEvent s) (\<lambda>s'. Inr (clearUnprocessedData s')) else Inr s)"

definition handleTermination :: "subscriber \<Rightarrow> subscriber" where
  "handleTermination s = clearUnprocessedData (s\<lparr>waitPending := False, stopped := True, partialData := None\<rparr>)"

section \<open>Parsing\<close>

lemma hasRemaining_push:
  "hasRemainingElements ev \<Longrightarrow> pushNextValue ev v = Inr ev' \<Longrightarrow>
    length (portTemplate ev') - nextTemplateIndex ev' < length (portTemplate ev) - nextTemplateIndex ev"
  by (cases ev) (auto simp: pushNextValue_def res_simps)

lemma hasRemaining_ignore:
  "hasRemainingElements ev \<Longrightarrow> ignoreNextValue ev = Inr ev' \<Longrightarrow>
    length (portTemplate ev') - nextTemplateIndex ev' < length (portTemplate ev) - nextTemplateIndex ev"
  by (cases ev) (auto simp: ignoreNextValue_def res_simps)

definition any_of :: "any option \<Rightarrow> any" where
  "any_of v = (case v of None \<Rightarrow> AnyEmpty | Some x \<Rightarrow> x)"

function processRawDataToEvent ::
    "conversion \<Rightarrow> event \<Rightarrow> byte list \<Rightarrow> parsing_status \<Rightarrow> (parsing_status \<times> event \<times> byte list) res" where
  "processRawDataToEvent conv ev bs st =
     (if bs \<noteq> [] \<and> hasRemainingElements ev \<and> (pstate st = Ok \<or> pstate st = TypeConversionError) then
        (case getNextPortType ev of
           Inl e \<Rightarrow> Inl e
         | Inr t \<Rightarrow>
           if t = fmiTypeUnknown then Inl AssertionFailed
           else (case readNextVariable conv t bs of
             Inl e \<Rightarrow> Inl e
           | Inr (st', value, rest) \<Rightarrow>
             if pstate st' = Ok then
               (case pushNextValue ev (any_of value) of
                  Inl e \<Rightarrow> Inl e
                | Inr ev' \<Rightarrow> processRawDataToEvent conv ev' rest st')
             else if pstate st' = TypeConversionError then
               (case ignoreNextValue ev of
                  Inl e \<Rightarrow> Inl e
                | Inr ev' \<Rightarrow> processRawDataToEvent conv ev' rest st')
             else Inr (st', ev, rest)))
      else Inr (st, ev, bs))"
  by auto
termination
  by (relation "measure (\<lambda>(conv, ev, bs, st). length (portTemplate ev) - nextTemplateIndex ev)")
    (auto simp: hasRemaining_push hasRemaining_ignore)

declare processRawDataToEvent.simps [simp del]

definition current_event :: "(nat \<Rightarrow> double) \<Rightarrow> subscriber \<Rightarrow> event" where
  "current_event stamp s =
     (case partialData s of
        Some ev \<Rightarrow> ev
      | None \<Rightarrow> newPartialEvent (stamp (length (pushedEvents s))) (subPorts s))"

lemma current_event_raw [simp]: "current_event stamp (s\<lparr>rawData := b\<rparr>) = current_event stamp s"
  by (cases "partialData s") (simp_all add: current_event_def)

text \<open>The loop of \<open>commitData\<close>; it does not return when the channel has no ports.\<close>

partial_function (option) commit_loop ::
    "conversion \<Rightarrow> (nat \<Rightarrow> double) \<Rightarrow> subscriber \<Rightarrow> subscriber res option" where
  "commit_loop conv stamp s =
     (if rawData s = [] then Some (Inr s)
      else case processRawDataToEvent conv (current_event stamp s) (rawData s) status_ok of
        Inl e \<Rightarrow> Some (Inl e)
      | Inr (st, ev, rest) \<Rightarrow>
          let s1 = s\<lparr>partialData := Some ev, rawData := rest\<rparr> in
          if pstate st = Incomplete then Some (Inr s1)
          else case (if pstate st = InvalidBufferContent
                     then rbind (pushPartialEvent s1) (\<lambda>s'. Inr (clearUnprocessedData s')) else Inr s1) of
            Inl e \<Rightarrow> Some (Inl e)
          | Inr s2 \<Rightarrow>
              case (if partialData s2 \<noteq> None \<and> \<not> hasRemainingElements (the (partialData s2))
                    then pushPartialEvent s2 else Inr s2) of
                Inl e \<Rightarrow> Some (Inl e)
              | Inr s3 \<Rightarrow> commit_loop conv stamp s3)"

definition commitData ::
    "conversion \<Rightarrow> (nat \<Rightarrow> double) \<Rightarrow> subscriber \<Rightarrow> byte list \<Rightarrow> subscriber res option" where
  "commitData conv stamp s chunk =
     commit_loop conv stamp ((restartPacketTimer s)\<lparr>rawData := rawData s @ chunk\<rparr>)"

fun commitAll ::
    "conversion \<Rightarrow> (nat \<Rightarrow> double) \<Rightarrow> subscriber \<Rightarrow> byte list list \<Rightarrow> subscriber res option" where
  "commitAll conv stamp s [] = Some (Inr s)"
| "commitAll conv stamp s (c # cs) =
     (case commitData conv stamp s c of
        None \<Rightarrow> None
      | Some (Inl e) \<Rightarrow> Some (Inl e)
      | Some (Inr s') \<Rightarrow> commitAll conv stamp s' cs)"

section \<open>The invariant\<close>

definition known_ports :: "port_id list \<Rightarrow> bool" where
  "known_ports ports \<longleftrightarrow> (\<forall>i\<in>set ports. fst i \<noteq> fmiTypeUnknown)"

definition open_event :: "port_id list \<Rightarrow> event \<Rightarrow> bool" where
  "open_event ports ev \<longleftrightarrow> partial_ok ev \<and> portTemplate ev = ports"

definition subscriber_ok :: "subscriber \<Rightarrow> bool" where
  "subscriber_ok s \<longleftrightarrow> subPorts s \<noteq> [] \<and> known_ports (subPorts s) \<and>
     (\<forall>ev. partialData s = Some ev \<longrightarrow> open_event (subPorts s) ev \<and> hasRemainingElements ev) \<and>
     (\<forall>ev\<in>set (pushedEvents s). open_event (subPorts s) ev)"

lemma open_new: "open_event ports (newPartialEvent t ports)"
  by (simp add: open_event_def) (simp add: newPartialEvent_def)

lemma current_event_open:
  "subscriber_ok s \<Longrightarrow> open_event (subPorts s) (current_event stamp s) \<and> hasRemainingElements (current_event stamp s)"
  by (auto simp: current_event_def subscriber_ok_def open_new split: option.splits)
    (simp add: newPartialEvent_def)

lemma next_type_known:
  assumes "open_event ports ev" and "known_ports ports" and "hasRemainingElements ev"
  shows "\<exists>t. getNextPortType ev = Inr t \<and> t \<noteq> fmiTypeUnknown \<and> t = fst (portTemplate ev ! nextTemplateIndex ev)"
  using assms by (cases ev) (auto simp: getNextPortType_def open_event_def known_ports_def)

section \<open>Parsing one value\<close>

definition absorb :: "conversion \<Rightarrow> event \<Rightarrow> raw_value \<Rightarrow> event" where
  "absorb conv ev r =
     (case conv r (fst (portTemplate ev ! nextTemplateIndex ev)) of
        Some v \<Rightarrow> projr (pushNextValue ev v)
      | None \<Rightarrow> projr (ignoreNextValue ev))"

definition going :: "parsing_status \<Rightarrow> bool" where
  "going st \<longleftrightarrow> pstate st = Ok \<or> pstate st = TypeConversionError"

lemma going_ok [simp]: "going status_ok"
  by (simp add: going_def status_ok_def)

lemma absorb_result:
  assumes "value_conversion conv" and "open_event ports ev" and "hasRemainingElements ev"
  shows "(case conv r (fst (portTemplate ev ! nextTemplateIndex ev)) of
       Some v \<Rightarrow> pushNextValue ev v | None \<Rightarrow> ignoreNextValue ev) = Inr (absorb conv ev r)"
    and "open_event ports (absorb conv ev r)"
    and "nextTemplateIndex (absorb conv ev r) = Suc (nextTemplateIndex ev)"
    and "getTime (absorb conv ev r) = getTime ev"
proof -
  have ok: "partial_ok ev" "portTemplate ev = ports" using assms(2) by (simp_all add: open_event_def)
  have "(case conv r (fst (portTemplate ev ! nextTemplateIndex ev)) of
       Some v \<Rightarrow> pushNextValue ev v | None \<Rightarrow> ignoreNextValue ev) = Inr (absorb conv ev r) \<and>
     open_event ports (absorb conv ev r) \<and> nextTemplateIndex (absorb conv ev r) = Suc (nextTemplateIndex ev) \<and>
     getTime (absorb conv ev r) = getTime ev"
  proof (cases "conv r (fst (portTemplate ev ! nextTemplateIndex ev))")
    case None
    then show ?thesis using ignoreNextValue_ok [OF ok(1) assms(3)] ok(2)
      by (auto simp: absorb_def open_event_def)
  next
    case (Some v)
    then have "any_has_type (fst (portTemplate ev ! nextTemplateIndex ev)) v"
      using value_conversion.conv_typed [OF assms(1)] by blast
    from pushNextValue_ok [OF ok(1) assms(3) this] show ?thesis using Some ok(2)
      by (auto simp: absorb_def open_event_def)
  qed
  then show "(case conv r (fst (portTemplate ev ! nextTemplateIndex ev)) of
       Some v \<Rightarrow> pushNextValue ev v | None \<Rightarrow> ignoreNextValue ev) = Inr (absorb conv ev r)"
    "open_event ports (absorb conv ev r)" "nextTemplateIndex (absorb conv ev r) = Suc (nextTemplateIndex ev)"
    "getTime (absorb conv ev r) = getTime ev"
    by simp_all
qed

lemma process_restart:
  "bs \<noteq> [] \<Longrightarrow> hasRemainingElements ev \<Longrightarrow> going st \<Longrightarrow> going st' \<Longrightarrow>
    processRawDataToEvent conv ev bs st = processRawDataToEvent conv ev bs st'"
  by (simp add: processRawDataToEvent.simps [of conv ev bs] going_def)

lemma process_value:
  assumes "value_conversion conv" and "open_event ports ev" and "known_ports ports"
    and "hasRemainingElements ev" and "going st" and "bs \<noteq> []"
    and "readNextVariable conv (fst (portTemplate ev ! nextTemplateIndex ev)) bs =
      Inr (readAndConvertVariable conv (fst (portTemplate ev ! nextTemplateIndex ev)) (status_ok, Some r, rest))"
  shows "\<exists>st'. going st' \<and>
    processRawDataToEvent conv ev bs st = processRawDataToEvent conv (absorb conv ev r) rest st'"
proof -
  obtain t where t: "getNextPortType ev = Inr t" "t \<noteq> fmiTypeUnknown" "t = fst (portTemplate ev ! nextTemplateIndex ev)"
    using next_type_known [OF assms(2,3,4)] by blast
  note a = absorb_result(1) [OF assms(1,2,4), of r]
  define st' where "st' = (if conv r t = None then status_ok\<lparr>pstate := TypeConversionError\<rparr> else status_ok)"
  have "processRawDataToEvent conv ev bs st = processRawDataToEvent conv (absorb conv ev r) rest st'"
    using assms(4-7) a
    by (cases "conv r t")
      (auto simp: processRawDataToEvent.simps [of conv ev bs] going_def t(1,2) t(3) [symmetric]
        readAndConvertVariable_def status_ok_def any_of_def st'_def)
  moreover have "going st'" by (simp add: st'_def going_def status_ok_def)
  ultimately show ?thesis by blast
qed

lemma process_stop:
  assumes "open_event ports ev" and "known_ports ports" and "hasRemainingElements ev" and "going st" and "bs \<noteq> []"
    and "readNextVariable conv (fst (portTemplate ev ! nextTemplateIndex ev)) bs = Inr (st', None, bs)"
    and "\<not> going st'"
  shows "processRawDataToEvent conv ev bs st = Inr (st', ev, bs)"
proof -
  obtain t where t: "getNextPortType ev = Inr t" "t \<noteq> fmiTypeUnknown" "t = fst (portTemplate ev ! nextTemplateIndex ev)"
    using next_type_known [OF assms(1,2,3)] by blast
  show ?thesis
    using assms(3-7)
    by (simp add: processRawDataToEvent.simps [of conv ev bs] going_def t(1,2) t(3) [symmetric])
qed

lemma process_done: "bs = [] \<or> \<not> hasRemainingElements ev \<Longrightarrow> processRawDataToEvent conv ev bs st = Inr (st, ev, bs)"
  by (auto simp: processRawDataToEvent.simps [of conv ev bs])

lemma stop_states [simp]: "\<not> going (status_missing k)" "\<not> going status_invalid"
  "pstate (status_missing k) = Incomplete" "pstate status_invalid = InvalidBufferContent"
  by (simp_all add: going_def status_missing_def status_invalid_def)

lemma process_total:
  assumes "value_conversion conv" and "known_ports ports" and "open_event ports ev" and "going st"
  shows "\<exists>st' ev' rest. processRawDataToEvent conv ev bs st = Inr (st', ev', rest) \<and> open_event ports ev' \<and>
    getTime ev' = getTime ev \<and> length rest \<le> length bs \<and> (bs \<noteq> [] \<and> hasRemainingElements ev \<and> going st' \<longrightarrow> length rest < length bs) \<and>
    (going st' \<or> (pstate st' = Incomplete \<or> pstate st' = InvalidBufferContent) \<and> hasRemainingElements ev')"
  using assms(3,4)
proof (induction "length ports - nextTemplateIndex ev" arbitrary: ev bs st rule: less_induct)
  case less
  show ?case
  proof (cases "bs \<noteq> [] \<and> hasRemainingElements ev")
    case False
    then show ?thesis using less.prems process_done [of bs ev conv st] by auto
  next
    case True
    let ?t = "fst (portTemplate ev ! nextTemplateIndex ev)"
    have bs: "bs \<noteq> []" and rem: "hasRemainingElements ev" using True by simp_all
    show ?thesis
    proof (rule readNextVariable_cases [OF bs, of conv ?t])
      fix r rest
      assume l: "length rest < length bs"
        and rd: "readNextVariable conv ?t bs = Inr (readAndConvertVariable conv ?t (status_ok, Some r, rest))"
      obtain st1 where st1: "going st1"
          "processRawDataToEvent conv ev bs st = processRawDataToEvent conv (absorb conv ev r) rest st1"
        using process_value [OF assms(1) less.prems(1) assms(2) rem less.prems(2) bs rd] by blast
      note a = absorb_result(2-4) [OF assms(1) less.prems(1) rem, of r]
      have "length ports - nextTemplateIndex (absorb conv ev r) < length ports - nextTemplateIndex ev"
        using rem less.prems(1) a(2) by (cases ev) (auto simp: open_event_def)
      from less.hyps [OF this a(1) st1(1), of rest] show ?thesis using st1(2) l a(3) by fastforce
    qed (use process_stop [OF less.prems(1) assms(2) rem less.prems(2) bs] less.prems(1) rem in auto)
  qed
qed

section \<open>Committing data\<close>

text \<open>
  What a pass of the loop keeps: the invariant, the ports, the timer and the events that were pushed; every
  event has its time from the sink's clock.
\<close>

definition stamped :: "(double \<Rightarrow> bool) \<Rightarrow> subscriber \<Rightarrow> bool" where
  "stamped T s \<longleftrightarrow> (\<forall>ev\<in>set (pushedEvents s). T (getTime ev)) \<and> (\<forall>ev. partialData s = Some ev \<longrightarrow> T (getTime ev))"

definition keeps_channel :: "(nat \<Rightarrow> double) \<Rightarrow> subscriber \<Rightarrow> subscriber \<Rightarrow> bool" where
  "keeps_channel stamp s s' \<longleftrightarrow> subscriber_ok s' \<and> subPorts s' = subPorts s \<and> packetExpiry s' = packetExpiry s \<and>
     waitPending s' = waitPending s \<and> (\<exists>evs. pushedEvents s' = pushedEvents s @ evs) \<and>
     (\<forall>T. (\<forall>k. T (stamp k)) \<longrightarrow> stamped T s \<longrightarrow> stamped T s')"

lemma keeps_channel_refl: "subscriber_ok s \<Longrightarrow> keeps_channel stamp s s"
  by (simp add: keeps_channel_def)

lemma keeps_channel_trans: "keeps_channel stamp s s' \<Longrightarrow> keeps_channel stamp s' s'' \<Longrightarrow> keeps_channel stamp s s''"
  by (auto simp: keeps_channel_def)

lemma pushPartial_ok:
  assumes "subscriber_ok s" and "open_event (subPorts s) ev" and "getTime ev = getTime (current_event stamp s)"
  obtains s' where "pushPartialEvent (s\<lparr>partialData := Some ev, rawData := rest\<rparr>) = Inr s'" "keeps_channel stamp s s'"
    "rawData s' = rest" "partialData s' = None"
  using assms
  by (auto simp: pushPartialEvent_def subscriber_ok_def keeps_channel_def stamped_def current_event_def newPartialEvent_def
      split: option.splits)

text \<open>One pass of the loop ends it or leaves fewer bytes to the next pass.\<close>

lemma commit_step:
  assumes "value_conversion conv" and "subscriber_ok s" and "rawData s \<noteq> []"
  obtains s' where "commit_loop conv stamp s = Some (Inr s')" "keeps_channel stamp s s'"
  | s' where "commit_loop conv stamp s = commit_loop conv stamp s'" "keeps_channel stamp s s'"
      "length (rawData s') < length (rawData s)"
proof -
  let ?ev = "current_event stamp s"
  have k: "known_ports (subPorts s)" using assms(2) by (simp add: subscriber_ok_def)
  have o: "open_event (subPorts s) ?ev" "hasRemainingElements ?ev" using current_event_open [OF assms(2)] by simp_all
  obtain st ev rest where p: "processRawDataToEvent conv ?ev (rawData s) status_ok = Inr (st, ev, rest)"
      "open_event (subPorts s) ev" "going st \<Longrightarrow> length rest < length (rawData s)"
      "going st \<or> (pstate st = Incomplete \<or> pstate st = InvalidBufferContent) \<and> hasRemainingElements ev"
      "getTime ev = getTime ?ev"
    using process_total [OF assms(1) k o(1) going_ok, of "rawData s"] o(2) assms(3) by auto
  define s1 where "s1 = s\<lparr>partialData := Some ev, rawData := rest\<rparr>"
  obtain s2 where s2: "pushPartialEvent s1 = Inr s2" "keeps_channel stamp s s2" "rawData s2 = rest" "partialData s2 = None"
    using pushPartial_ok [OF assms(2) p(2,5)] unfolding s1_def by blast
  have s1: "rawData s1 = rest" "partialData s1 = Some ev" by (simp_all add: s1_def)
  have ok1: "hasRemainingElements ev \<Longrightarrow> keeps_channel stamp s s1"
    using assms(2) p(2,5)
    by (auto simp: subscriber_ok_def keeps_channel_def s1_def stamped_def current_event_def newPartialEvent_def
        split: option.splits)
  let ?c = "clearUnprocessedData s2"
  have c: "keeps_channel stamp s ?c" "rawData ?c = []" "partialData ?c = None"
    using s2(2,4) by (auto simp: clearUnprocessedData_def keeps_channel_def subscriber_ok_def stamped_def)
  note loop = commit_loop.simps [of conv stamp s] p(1) assms(3) s1_def [symmetric] Let_def
  consider "pstate st = Incomplete" "hasRemainingElements ev" | "pstate st = InvalidBufferContent"
    | "going st" "hasRemainingElements ev" | "going st" "\<not> hasRemainingElements ev" using p(4) by blast
  then show thesis
  proof cases
    case 1
    then show thesis using that(1) [of s1] ok1 by (simp add: loop)
  next
    case 2
    then show thesis using that(2) [of ?c] s2(1) c assms(3) by (simp add: loop)
  next
    case 3
    then have "commit_loop conv stamp s = commit_loop conv stamp s1" using s1(2) by (auto simp: loop going_def)
    then show thesis using that(2) [of s1] ok1 p(3) s1 3 by simp
  next
    case 4
    then have "commit_loop conv stamp s = commit_loop conv stamp s2" using s1(2) s2(1) by (auto simp: loop going_def)
    then show thesis using that(2) [of s2] s2 p(3) 4 by simp
  qed
qed

lemma commit_loop_total:
  assumes "value_conversion conv" and "subscriber_ok s"
  shows "\<exists>s'. commit_loop conv stamp s = Some (Inr s') \<and> keeps_channel stamp s s'"
  using assms(2)
proof (induction "length (rawData s)" arbitrary: s rule: less_induct)
  case less
  show ?case
  proof (cases "rawData s = []")
    case True
    then show ?thesis using less.prems by (simp add: commit_loop.simps [of conv stamp s] keeps_channel_refl)
  next
    case False
    from commit_step [OF assms(1) less.prems this, of stamp] show ?thesis
    proof cases
      case (2 s')
      have "subscriber_ok s'" using 2(2) by (simp add: keeps_channel_def)
      from less.hyps [OF 2(3) this] obtain s'' where "commit_loop conv stamp s' = Some (Inr s'')" "keeps_channel stamp s' s''"
        by blast
      then show ?thesis using 2(1,2) keeps_channel_trans by metis
    qed blast
  qed
qed

lemma subscriber_ok_commit [simp]:
  "subscriber_ok ((restartPacketTimer s)\<lparr>rawData := bs\<rparr>) = subscriber_ok s"
  by (simp add: subscriber_ok_def restartPacketTimer_def)

lemma commitData_keeps:
  assumes "value_conversion conv" and "subscriber_ok s"
  obtains s' where "commitData conv stamp s chunk = Some (Inr s')" "keeps_channel stamp (restartPacketTimer s) s'"
proof -
  have "subscriber_ok ((restartPacketTimer s)\<lparr>rawData := rawData s @ chunk\<rparr>)" using assms(2) by simp
  from commit_loop_total [OF assms(1) this, of stamp] show thesis
    using that by (auto simp: commitData_def keeps_channel_def stamped_def)
qed

section \<open>A stream of values\<close>

text \<open>
  The specification of the parser consumes whole values: \<open>feed\<close> adds one to the current event and
  moves on to the next event when it is complete.
\<close>

definition feed :: "conversion \<Rightarrow> (nat \<Rightarrow> double) \<Rightarrow> port_id list \<Rightarrow> event list \<times> event \<Rightarrow> raw_value \<Rightarrow> event list \<times> event" where
  "feed conv stamp ports = (\<lambda>(done, ev) r.
     let ev' = absorb conv ev r in
     if hasRemainingElements ev' then (done, ev')
     else (done @ [ev'], newPartialEvent (stamp (Suc (length done))) ports))"

definition parser_state :: "(nat \<Rightarrow> double) \<Rightarrow> subscriber \<Rightarrow> event list \<times> event" where
  "parser_state stamp s = (pushedEvents s, current_event stamp s)"

definition after_value :: "conversion \<Rightarrow> (nat \<Rightarrow> double) \<Rightarrow> subscriber \<Rightarrow> raw_value \<Rightarrow> subscriber" where
  "after_value conv stamp s r =
     (let ev = absorb conv (current_event stamp s) r in
      if hasRemainingElements ev then s\<lparr>partialData := Some ev\<rparr>
      else s\<lparr>pushedEvents := pushedEvents s @ [ev], partialData := None\<rparr>)"

lemma parser_state_after_value:
  "parser_state stamp (after_value conv stamp s r) = feed conv stamp (subPorts s) (parser_state stamp s) r"
  by (simp add: parser_state_def after_value_def feed_def Let_def) (simp add: current_event_def)

lemma after_value_ok:
  assumes "value_conversion conv" and "subscriber_ok s"
  shows "subscriber_ok (after_value conv stamp s r)" "subPorts (after_value conv stamp s r) = subPorts s"
    "rawData (after_value conv stamp s r) = rawData s"
proof -
  have "open_event (subPorts s) (absorb conv (current_event stamp s) r)"
    using absorb_result(2) [OF assms(1)] current_event_open [OF assms(2)] by blast
  then show "subscriber_ok (after_value conv stamp s r)"
    using assms(2) by (auto simp: after_value_def subscriber_ok_def Let_def)
qed (simp_all add: after_value_def Let_def)

lemma after_value_raw:
  "after_value conv stamp (s\<lparr>rawData := b\<rparr>) r = (after_value conv stamp s r)\<lparr>rawData := b\<rparr>"
  by (simp add: after_value_def Let_def)

lemma commit_loop_value:
  assumes "value_conversion conv" and "subscriber_ok s" and "wire_ok r"
  shows "commit_loop conv stamp (s\<lparr>rawData := wire r @ rest\<rparr>) =
    commit_loop conv stamp ((after_value conv stamp s r)\<lparr>rawData := rest\<rparr>)"
proof -
  let ?ev = "current_event stamp s" and ?s = "s\<lparr>rawData := wire r @ rest\<rparr>"
  let ?ev' = "absorb conv ?ev r"
  have k: "known_ports (subPorts s)" using assms(2) by (simp add: subscriber_ok_def)
  have o: "open_event (subPorts s) ?ev" "hasRemainingElements ?ev" using current_event_open [OF assms(2)] by simp_all
  have ce: "current_event stamp ?s = ?ev" by simp
  obtain st where st: "going st"
      "processRawDataToEvent conv ?ev (wire r @ rest) status_ok = processRawDataToEvent conv ?ev' rest st"
    using process_value [OF assms(1) o(1) k o(2) going_ok _ read_wire [OF assms(3)]] by auto
  show ?thesis
  proof (cases "rest = [] \<or> \<not> hasRemainingElements ?ev'")
    case True
    then have "processRawDataToEvent conv ?ev (wire r @ rest) status_ok = Inr (st, ?ev', rest)"
      using st(2) process_done by simp
    note p = this
    show ?thesis
    proof (cases "hasRemainingElements ?ev'")
      case True
      then show ?thesis using st(1) p
        by (auto simp: commit_loop.simps [of conv stamp ?s] ce after_value_def going_def Let_def)
    next
      case False
      then show ?thesis using st(1) p unfolding after_value_raw [symmetric]
        by (auto simp: commit_loop.simps [of conv stamp ?s] ce after_value_def pushPartialEvent_def going_def Let_def)
    qed
  next
    case False
    let ?t = "s\<lparr>partialData := Some ?ev', rawData := rest\<rparr>"
    have "processRawDataToEvent conv ?ev (wire r @ rest) status_ok = processRawDataToEvent conv ?ev' rest status_ok"
      using st process_restart [of rest ?ev' st status_ok conv] False by simp
    moreover have "current_event stamp ?t = ?ev'" by (simp add: current_event_def)
    ultimately show ?thesis using False
      by (simp add: commit_loop.simps [of conv stamp ?s] commit_loop.simps [of conv stamp ?t] ce after_value_def Let_def
          cong: sum.case_cong)
  qed
qed

lemma commit_stream:
  assumes "value_conversion conv" and "subscriber_ok s" and "list_all wire_ok rs"
  shows "commit_loop conv stamp (s\<lparr>rawData := concat (map wire rs) @ p\<rparr>) =
      commit_loop conv stamp ((foldl (after_value conv stamp) s rs)\<lparr>rawData := p\<rparr>)"
    and "subscriber_ok (foldl (after_value conv stamp) s rs)"
    and "parser_state stamp (foldl (after_value conv stamp) s rs) =
      foldl (feed conv stamp (subPorts s)) (parser_state stamp s) rs"
  using assms(2,3)
proof (induction rs arbitrary: s)
  case Nil
  { case 1 show ?case by simp
  next case 2 then show ?case by simp
  next case 3 show ?case by simp }
next
  case (Cons r rs)
  note a = after_value_ok [OF assms(1)]
  { case 1
    then show ?case
      using Cons.IH(1) [of "after_value conv stamp s r"] a [of s stamp r]
        commit_loop_value [OF assms(1), of s r stamp "concat (map wire rs) @ p"] by simp
  next case 2
    then show ?case using Cons.IH(2) [of "after_value conv stamp s r"] a [of s stamp r] by simp
  next case 3
    then show ?case using Cons.IH(3) [of "after_value conv stamp s r"] a [of s stamp r]
      by (simp add: parser_state_after_value) }
qed

definition partial_value :: "byte list \<Rightarrow> bool" where
  "partial_value p \<longleftrightarrow> p = [] \<or> (\<exists>r q. wire_ok r \<and> wire r = p @ q \<and> q \<noteq> [])"

lemma commit_partial_value:
  assumes "subscriber_ok s" and "partial_value p"
  shows "\<exists>s'. commit_loop conv stamp (s\<lparr>rawData := p\<rparr>) = Some (Inr s') \<and> subscriber_ok s' \<and> rawData s' = p \<and>
    subPorts s' = subPorts s \<and> parser_state stamp s' = parser_state stamp s"
proof (cases "p = []")
  case True
  then show ?thesis using assms(1)
    by (auto simp: commit_loop.simps [of conv stamp "s\<lparr>rawData := []\<rparr>"] subscriber_ok_def parser_state_def)
next
  case False
  then obtain r q where r: "wire_ok r" "wire r = p @ q" "q \<noteq> []" using assms(2) by (auto simp: partial_value_def)
  let ?ev = "current_event stamp s" and ?s = "s\<lparr>rawData := p\<rparr>"
  have k: "known_ports (subPorts s)" using assms(1) by (simp add: subscriber_ok_def)
  have o: "open_event (subPorts s) ?ev" "hasRemainingElements ?ev" using current_event_open [OF assms(1)] by simp_all
  obtain n where n: "readNextVariable conv (fst (portTemplate ?ev ! nextTemplateIndex ?ev)) p = Inr (status_missing n, None, p)"
    using read_prefix [OF r(1,2) False r(3)] by blast
  have "processRawDataToEvent conv ?ev p status_ok = Inr (status_missing n, ?ev, p)"
    by (rule process_stop [OF o(1) k o(2) going_ok False n]) simp
  then have "commit_loop conv stamp ?s = Some (Inr (s\<lparr>partialData := Some ?ev, rawData := p\<rparr>))"
    using False by (simp add: commit_loop.simps [of conv stamp ?s] Let_def)
  moreover have "subscriber_ok (s\<lparr>partialData := Some ?ev, rawData := p\<rparr>)"
    using assms(1) o by (simp add: subscriber_ok_def)
  ultimately show ?thesis by (auto simp: parser_state_def) (simp add: current_event_def)
qed

lemma prefix_split:
  "xs @ ys = concat (map wire rs) \<Longrightarrow> list_all wire_ok rs \<Longrightarrow>
    \<exists>rs1 rs2 p. rs = rs1 @ rs2 \<and> xs = concat (map wire rs1) @ p \<and> partial_value p"
proof (induction rs arbitrary: xs)
  case Nil
  then show ?case by (intro exI [of _ "[]"]) (simp add: partial_value_def)
next
  case (Cons r rs)
  show ?case
  proof (cases "length (wire r) \<le> length xs")
    case True
    have "wire r @ concat (map wire rs) = xs @ ys" using Cons.prems(1) by simp
    with True have zs: "xs = wire r @ drop (length (wire r)) xs" "drop (length (wire r)) xs @ ys = concat (map wire rs)"
      by (auto simp: append_eq_append_conv_if) (metis append_take_drop_id)
    obtain rs1 rs2 p where "rs = rs1 @ rs2" "drop (length (wire r)) xs = concat (map wire rs1) @ p" "partial_value p"
      using Cons.IH [OF zs(2)] Cons.prems(2) by auto
    then show ?thesis using zs(1) by (intro exI [of _ "r # rs1"] exI [of _ rs2] exI [of _ p]) simp
  next
    case False
    have "wire r @ concat (map wire rs) = xs @ ys" using Cons.prems(1) by simp
    with False have "wire r = xs @ drop (length xs) (wire r)" "drop (length xs) (wire r) \<noteq> []"
      by (auto simp: append_eq_append_conv_if) (metis append_take_drop_id)
    then have "partial_value xs" using Cons.prems(2) unfolding partial_value_def list.pred_inject by blast
    then show ?thesis by (intro exI [of _ "[]"] exI [of _ "r # rs"] exI [of _ xs]) simp
  qed
qed

lemma commitData_refines:
  assumes "value_conversion conv" and "subscriber_ok s" and "list_all wire_ok rs" and "partial_value p"
    and "rawData s @ chunk = concat (map wire rs) @ p"
  shows "\<exists>s'. commitData conv stamp s chunk = Some (Inr s') \<and> subscriber_ok s' \<and> rawData s' = p \<and>
    subPorts s' = subPorts s \<and>
    parser_state stamp s' = foldl (feed conv stamp (subPorts s)) (parser_state stamp s) rs"
proof -
  let ?s = "restartPacketTimer s"
  have ok: "subscriber_ok ?s" and same: "subPorts ?s = subPorts s"
    using assms(2) by (simp_all add: subscriber_ok_def restartPacketTimer_def)
  have ps: "parser_state stamp ?s = parser_state stamp s"
    by (cases "partialData s") (simp_all add: parser_state_def current_event_def restartPacketTimer_def)
  let ?f = "foldl (after_value conv stamp) ?s rs"
  note c = commit_stream [OF assms(1) ok assms(3)]
  have sp: "subPorts (foldl (after_value conv stamp) t rs') = subPorts t" for t rs'
    by (induction rs' arbitrary: t) (simp_all add: after_value_def Let_def)
  obtain s' where s': "commit_loop conv stamp (?f\<lparr>rawData := p\<rparr>) = Some (Inr s')" "subscriber_ok s'"
      "rawData s' = p" "subPorts s' = subPorts ?f" "parser_state stamp s' = parser_state stamp ?f"
    using commit_partial_value [OF c(2) assms(4)] by blast
  have "commitData conv stamp s chunk = Some (Inr s')"
    using s'(1) c(1) [where p = p] assms(5) by (simp add: commitData_def)
  then show ?thesis using s' c(3) ps same sp by simp
qed

lemma partial_value_no_wire:
  assumes "partial_value (concat (map wire rs))" and "list_all wire_ok rs"
  shows "rs = []"
proof (cases rs)
  case (Cons r rs')
  let ?p = "wire r @ concat (map wire rs')"
  obtain r' q where r': "wire_ok r'" "wire r' = ?p @ q" "q \<noteq> []"
    using assms(1) Cons by (auto simp: partial_value_def)
  obtain k where "readNextVariable strict_conversion fmiTypeReal ?p = Inr (status_missing k, None, ?p)"
    using read_prefix [OF r'(1,2) _ r'(3)] by auto
  moreover have "readNextVariable strict_conversion fmiTypeReal ?p =
      Inr (readAndConvertVariable strict_conversion fmiTypeReal (status_ok, Some r, concat (map wire rs')))"
    using assms(2) Cons by (intro read_wire) simp
  ultimately show ?thesis
    by (auto simp: readAndConvertVariable_def status_ok_def status_missing_def split: option.splits)
qed simp

lemma commitAll_refines:
  assumes "value_conversion conv" and "subscriber_ok s" and "list_all wire_ok rs"
    and "rawData s @ concat chunks = concat (map wire rs)" and "partial_value (rawData s)"
  shows "\<exists>s'. commitAll conv stamp s chunks = Some (Inr s') \<and> subscriber_ok s' \<and> rawData s' = [] \<and>
    parser_state stamp s' = foldl (feed conv stamp (subPorts s)) (parser_state stamp s) rs"
  using assms(2-5)
proof (induction chunks arbitrary: s rs)
  case Nil
  then have "rs = []" using partial_value_no_wire by simp
  with Nil show ?case by simp
next
  case (Cons c chunks)
  have eq: "(rawData s @ c) @ concat chunks = concat (map wire rs)" using Cons.prems(3) by simp
  then obtain rs1 rs2 p where sp: "rs = rs1 @ rs2" "rawData s @ c = concat (map wire rs1) @ p" "partial_value p"
    using prefix_split Cons.prems(2) by blast
  have w: "list_all wire_ok rs1" "list_all wire_ok rs2" using Cons.prems(2) sp(1) by simp_all
  obtain s1 where s1: "commitData conv stamp s c = Some (Inr s1)" "subscriber_ok s1" "rawData s1 = p"
      "subPorts s1 = subPorts s"
      "parser_state stamp s1 = foldl (feed conv stamp (subPorts s)) (parser_state stamp s) rs1"
    using commitData_refines [OF assms(1) Cons.prems(1) w(1) sp(3,2)] by blast
  have "rawData s1 @ concat chunks = concat (map wire rs2)"
    using eq unfolding sp(1,2) s1(3) by simp
  from Cons.IH [OF s1(2) w(2) this] s1 sp show ?case by auto
qed

lemma feed_complete:
  assumes "length rs = length ports - k" and "length vals = length rs" and "k \<le> length ports"
    and "\<forall>i<length rs. conv (rs ! i) (fst (ports ! (k + i))) = Some (vals ! i)" and "k < length ports"
    and "length xs = k"
  shows "foldl (feed conv stamp ports) (done, PartialEvent t ports xs k) rs =
    (done @ [PartialEvent t ports (xs @ map2 Variable (drop k ports) vals) (length ports)],
     newPartialEvent (stamp (Suc (length done))) ports)"
  using assms
proof (induction rs arbitrary: k xs vals)
  case Nil
  then show ?case by simp
next
  case (Cons r rs)
  obtain v vs where vals: "vals = v # vs" using Cons.prems(2) by (cases vals) auto
  have c0: "conv r (fst (ports ! k)) = Some v" using Cons.prems(4) vals by (auto dest: spec [of _ 0])
  have d: "drop k ports = ports ! k # drop (Suc k) ports" using Cons.prems(5) by (simp add: Cons_nth_drop_Suc)
  let ?xs = "xs @ [Variable (ports ! k) v]"
  have a: "absorb conv (PartialEvent t ports xs k) r = PartialEvent t ports ?xs (Suc k)"
    using c0 Cons.prems(5,6) by (simp add: absorb_def pushNextValue_def)
  show ?case
  proof (cases "Suc k < length ports")
    case True
    then have f: "feed conv stamp ports (done, PartialEvent t ports xs k) r = (done, PartialEvent t ports ?xs (Suc k))"
      by (simp add: feed_def a)
    have "\<forall>i<length rs. conv (rs ! i) (fst (ports ! (Suc k + i))) = Some (vs ! i)"
      using Cons.prems(4) vals by (auto dest: spec [of _ "Suc _"])
    then have "foldl (feed conv stamp ports) (done, PartialEvent t ports ?xs (Suc k)) rs =
        (done @ [PartialEvent t ports (?xs @ map2 Variable (drop (Suc k) ports) vs) (length ports)],
         newPartialEvent (stamp (Suc (length done))) ports)"
      using Cons.prems vals True by (intro Cons.IH) auto
    then show ?thesis using f d vals by simp
  next
    case False
    then have k: "Suc k = length ports" using Cons.prems(5) by simp
    then have "rs = []" "vs = []" using Cons.prems(1,2) vals by (simp_all flip: k)
    then show ?thesis using k d vals by (simp add: feed_def a)
  qed
qed

section \<open>Properties\<close>

text \<open>
  C19: parsing always ends. For a subscriber with at least one port, all of known type, and any bytes
  whatsoever, \<open>commitData\<close> returns without a failed assertion and keeps the invariant: the events it
  pushed and the one it keeps hold valid variables of the channel's ports.
\<close>

theorem commitData_returns:
  assumes "value_conversion conv" and "subscriber_ok s"
  shows "\<exists>s'. commitData conv stamp s chunk = Some (Inr s') \<and> subscriber_ok s'"
  by (rule commitData_keeps [OF assms, of stamp chunk]) (auto simp: keeps_channel_def)

definition demo_subscriber :: subscriber where
  "demo_subscriber = CompactASN1Subscriber\<lparr>subPorts := [(fmiTypeBoolean, 0), (fmiTypeInteger, 0)]\<rparr>"

lemma demo_subscriber_ok: "subscriber_ok demo_subscriber"
  by (simp add: demo_subscriber_def CompactASN1Subscriber_def subscriber_ok_def known_ports_def)

theorem commitData_returns_witness:
  "\<exists>s'. commitData strict_conversion (\<lambda>_. 0) demo_subscriber [0x41, 0xFF] = Some (Inr s') \<and> subscriber_ok s'"
  by (rule commitData_returns [OF strict.value_conversion_axioms demo_subscriber_ok])

text \<open>
  C8: the parser implements the specification on values, whatever the chunks. When the chunks
  together are the encodings of a sequence of values, cut at arbitrary places, \<open>commitData\<close> on one
  chunk after the other ends with an empty buffer and in the state that \<open>feed\<close> reaches with the
  values: the same events pushed, with the same variables and time stamps, and the same open event.
\<close>

theorem chunks_refine_values:
  assumes "value_conversion conv" and "subscriber_ok s" and "rawData s = []" and "list_all wire_ok rs"
    and "concat chunks = concat (map wire rs)"
  shows "\<exists>s'. commitAll conv stamp s chunks = Some (Inr s') \<and> rawData s' = [] \<and>
    parser_state stamp s' = foldl (feed conv stamp (subPorts s)) (parser_state stamp s) rs"
  using commitAll_refines [OF assms(1,2,4), of chunks stamp] assms(3,5)
  by (auto simp: partial_value_def)

theorem chunks_refine_values_witness:
  "\<exists>s'. commitAll strict_conversion (\<lambda>_. 0) demo_subscriber [[0x41, 0x44, 0], [0, 1, 2]] = Some (Inr s') \<and>
     pushedEvents s' = [PartialEvent 0 [(fmiTypeBoolean, 0), (fmiTypeInteger, 0)]
       [Variable (fmiTypeBoolean, 0) (AnyBool 1), Variable (fmiTypeInteger, 0) (AnyInt 258)] 2]"
proof -
  let ?rs = "[RawBoolean 1, RawInt 258]" and ?ports = "[(fmiTypeBoolean, 0), (fmiTypeInteger, 0)]"
  have "be_bytes 4 (258 :: int32) = [0, 0, 1, 2]" by code_simp
  then have c: "concat [[0x41, 0x44, 0], [0, 1, 2]] = concat (map wire ?rs)" by (simp add: tag_defs)
  have r: "rawData demo_subscriber = []" "list_all wire_ok ?rs"
    by (simp_all add: demo_subscriber_def CompactASN1Subscriber_def)
  obtain s' where "commitAll strict_conversion (\<lambda>_. 0) demo_subscriber [[0x41, 0x44, 0], [0, 1, 2]] = Some (Inr s')"
      "parser_state (\<lambda>_. 0) s' =
        foldl (feed strict_conversion (\<lambda>_. 0) (subPorts demo_subscriber)) (parser_state (\<lambda>_. 0) demo_subscriber) ?rs"
    using chunks_refine_values [OF strict.value_conversion_axioms demo_subscriber_ok r c, of "\<lambda>_. 0"] by blast
  moreover have "parser_state (\<lambda>_. 0) demo_subscriber = ([], PartialEvent 0 ?ports [] 0)"
    by (simp add: parser_state_def demo_subscriber_def CompactASN1Subscriber_def current_event_def newPartialEvent_def)
  ultimately show ?thesis
    by (auto simp: parser_state_def feed_def absorb_def pushNextValue_def strict_conversion_def
        demo_subscriber_def CompactASN1Subscriber_def)
qed



end
