(* ===== verification/Network.thy ===== *)
theory Network
  imports CSV_Logger ASN1_Publisher ASN1_Subscriber
begin

text \<open>
  The network: \<open>network/NetworkManager\<close>, \<open>network/ConcurrentSubscriber\<close>, the two publishers on TCP and
  UDP and the subscriber on TCP. The sockets of the library boost asio are a parameter: the record
  \<open>asio_ops\<close> has the outcome of each call, by its number on the socket where it may differ from call to
  call. An error of the library is a \<open>system_error\<close>, which is a \<open>std::runtime_error\<close>.

  The protocol tables of the network manager are filled in by the build and are a parameter, too.
\<close>

section \<open>Sockets\<close>

text \<open>
  An attempt to connect: the address does not resolve, or no endpoint accepts, where the flag tells
  that the socket is open afterwards, or the socket is connected. A result of \<open>send\<close> is the text of the
  error or the number of bytes that were taken.
\<close>

datatype connect_outcome = ResolveFailed | ConnectFailed bool | Connected

record asio_ops =
  resolve_error :: "string \<Rightarrow> string \<Rightarrow> string option"
  connect_error :: "string \<Rightarrow> string \<Rightarrow> string option"
  open_error :: "string \<Rightarrow> string \<Rightarrow> string option"
  send_result :: "nat \<Rightarrow> byte list \<Rightarrow> string + nat"
  connect_attempt :: "nat \<Rightarrow> string \<Rightarrow> string \<Rightarrow> connect_outcome"

definition check_error :: "string option \<Rightarrow> unit res" where
  "check_error e = (case e of None \<Rightarrow> Inr () | Some msg \<Rightarrow> Inl (RuntimeError msg))"

section \<open>Publishers\<close>

datatype transport = TCP | UDP

record net_publisher =
  encoder :: publisher
  transport :: transport
  destination :: "(string \<times> string) option"
  transferred :: "byte list list"

fun PUBLISHER_ID :: "transport \<Rightarrow> string" where
  "PUBLISHER_ID TCP = ''CompactASN.1-TCP''"
| "PUBLISHER_ID UDP = ''CompactASN.1-UDP''"

definition PROP_ADDR :: string where "PROP_ADDR = ''addr''"

definition new_publisher :: "transport \<Rightarrow> net_publisher" where
  "new_publisher tr = \<lparr>encoder = CompactASN1Publisher, transport = tr, destination = None, transferred = []\<rparr>"

text \<open>The host and the port of the address property; both have to be there.\<close>

definition publisher_address :: "'p ptree_ops \<Rightarrow> 'p transmission_channel \<Rightarrow> (string \<times> string) res" where
  "publisher_address P channel =
     (case get_child_optional P (getChannelConfig channel) PROP_ADDR of
        None \<Rightarrow> Inl (SystemConfigurationException ''Address property of ASN.1 publisher not found'' None)
      | Some t \<Rightarrow>
          let addr = data_of P t; sepPos = find_index (\<lambda>c. c = CHR '':'') addr in
          (case sepPos of
             None \<Rightarrow> Inl (SystemConfigurationException ''Invalid address format. Expected <addr>:<port>'' (Some (PROP_ADDR, addr)))
           | Some k \<Rightarrow>
               if k = length addr - 1 \<or> k = 0
               then Inl (SystemConfigurationException ''Invalid address format. Expected <addr>:<port>'' (Some (PROP_ADDR, addr)))
               else Inr (take k addr, drop (Suc k) addr)))"

definition TCPClientPublisher_init ::
    "asio_ops \<Rightarrow> 'p ptree_ops \<Rightarrow> net_publisher \<Rightarrow> 'p transmission_channel \<Rightarrow> net_publisher res" where
  "TCPClientPublisher_init N P p channel =
     rbind (publisher_init P (encoder p) channel) (\<lambda>e.
     rbind (publisher_address P channel) (\<lambda>(host, port).
     rbind (check_error (resolve_error N host port)) (\<lambda>_.
     rbind (check_error (connect_error N host port)) (\<lambda>_.
       Inr (p\<lparr>encoder := e, destination := Some (host, port)\<rparr>)))))"

definition UDPPublisher_init ::
    "asio_ops \<Rightarrow> 'p ptree_ops \<Rightarrow> net_publisher \<Rightarrow> 'p transmission_channel \<Rightarrow> net_publisher res" where
  "UDPPublisher_init N P p channel =
     rbind (publisher_init P (encoder p) channel) (\<lambda>e.
     rbind (publisher_address P channel) (\<lambda>(host, port).
     rbind (check_error (resolve_error N host port)) (\<lambda>_.
     rbind (check_error (open_error N host port)) (\<lambda>_.
       Inr (p\<lparr>encoder := e, destination := Some (host, port)\<rparr>)))))"

definition net_publisher_init ::
    "asio_ops \<Rightarrow> 'p ptree_ops \<Rightarrow> net_publisher \<Rightarrow> 'p transmission_channel \<Rightarrow> net_publisher res" where
  "net_publisher_init N P p channel =
     (case transport p of TCP \<Rightarrow> TCPClientPublisher_init N P p channel | UDP \<Rightarrow> UDPPublisher_init N P p channel)"

text \<open>\<open>sendData\<close>: what the socket does not take is lost; the code only logs it.\<close>

definition sendData :: "asio_ops \<Rightarrow> net_publisher \<Rightarrow> byte list \<Rightarrow> net_publisher res" where
  "sendData N p buffer =
     (case send_result N (length (transferred p)) buffer of
        Inl msg \<Rightarrow> Inl (RuntimeError msg)
      | Inr trSize \<Rightarrow> Inr (p\<lparr>transferred := transferred p @ [take trSize buffer]\<rparr>))"

text \<open>An event: the packet the encoder composed, if any, goes to the socket.\<close>

definition net_publisher_eventTriggered :: "asio_ops \<Rightarrow> net_publisher \<Rightarrow> variable list \<Rightarrow> net_publisher res" where
  "net_publisher_eventTriggered N p xs =
     rbind (publisher_eventTriggered (encoder p) xs) (\<lambda>e.
       if sentPackets e = sentPackets (encoder p) then Inr (p\<lparr>encoder := e\<rparr>)
       else sendData N (p\<lparr>encoder := e\<rparr>) (last (sentPackets e)))"

section \<open>Subscribers\<close>

text \<open>
  \<open>joinable\<close> tells that the thread was started and not joined, \<open>reported\<close> the exceptions the thread gave
  to the error callback. \<open>thread\<close> is the position of the thread: \<open>Idle\<close> in \<open>run\<close> between two handlers, \<open>Handling\<close> behind
  \<open>commitData\<close> in \<open>handleReceive\<close>, with the flag that the end of the stream was reached, \<open>Ended\<close> behind \<open>run\<close>.
  \<open>handed\<close> counts the events of the parser that the queue has already taken.
\<close>

datatype thread_phase = NotStarted | Idle | Handling bool | Ended

record tcp_subscriber =
  parser :: subscriber
  joinable :: bool
  terminationRequest :: bool
  reported :: "exn list"
  socket_open :: bool
  attempts :: nat
  reconnectionTimeout :: "64 word"
  reconnectionRetries :: int32
  sub_channel :: "(string \<times> string) res"
  receiving :: bool
  thread :: thread_phase
  handed :: nat

definition SUBSCRIBER_ID :: string where "SUBSCRIBER_ID = ''CompactASN.1-TCP''"
definition PROP_RECON_INTERVALL :: string where "PROP_RECON_INTERVALL = ''reconnectionInterval''"
definition PROP_RETRY_COUNT :: string where "PROP_RETRY_COUNT = ''reconnectionRetryCount''"

definition new_subscriber :: tcp_subscriber where
  "new_subscriber = \<lparr>parser = CompactASN1Subscriber, joinable = False, terminationRequest = False, reported = [],
     socket_open = False, attempts = 0, reconnectionTimeout = 0, reconnectionRetries = 0,
     sub_channel = Inl AssertionFailed, receiving = False, thread = NotStarted, handed = 0\<rparr>"

definition getHostAndPortName :: "'p ptree_ops \<Rightarrow> 'p transmission_channel \<Rightarrow> (string \<times> string) res" where
  "getHostAndPortName P chn =
     (case get_optional P Some (getChannelConfig chn) PROP_ADDR of
        None \<Rightarrow> Inl (SystemConfigurationException ''No addr property set.'' None)
      | Some addr \<Rightarrow>
          (case find_index (\<lambda>c. c = CHR '':'') addr of
             None \<Rightarrow> Inl (SystemConfigurationException ''Invalid address, no port separator ':' found.'' (Some (PROP_ADDR, addr)))
           | Some k \<Rightarrow> Inr (take k addr, drop (Suc k) addr)))"

definition initConfigVariables ::
    "'p ptree_ops \<Rightarrow> 'p transmission_channel \<Rightarrow> tcp_subscriber \<Rightarrow> tcp_subscriber" where
  "initConfigVariables P chn s = s\<lparr>
     reconnectionTimeout := get_default P (parse_uint64 P) (getChannelConfig chn) PROP_RECON_INTERVALL 500,
     reconnectionRetries := get_default P (parse_uint32 P) (getChannelConfig chn) PROP_RETRY_COUNT 4\<rparr>"

text \<open>
  One attempt changes the socket even when it fails, so that the result is the state and the
  exception. \<open>sub_channel\<close> is what \<open>getHostAndPortName\<close> gives for the channel of the subscriber.
\<close>

definition connection_error :: "string \<Rightarrow> string \<Rightarrow> string \<Rightarrow> exn" where
  "connection_error msg host port = SystemConfigurationException msg (Some (PROP_ADDR, host @ '':'' @ port))"

definition syncConnect :: "asio_ops \<Rightarrow> tcp_subscriber \<Rightarrow> exn option \<times> tcp_subscriber" where
  "syncConnect N s =
     (case sub_channel s of
        Inl e \<Rightarrow> (Some e, s)
      | Inr (host, port) \<Rightarrow>
          let s' = s\<lparr>attempts := Suc (attempts s)\<rparr> in
          (case connect_attempt N (attempts s) host port of
             ResolveFailed \<Rightarrow> (Some (connection_error ''Couldn't resolve address'' host port), s')
           | ConnectFailed op \<Rightarrow> (Some (connection_error ''Couldn't connect to server'' host port), s'\<lparr>socket_open := op\<rparr>)
           | Connected \<Rightarrow> (None, s'\<lparr>socket_open := True\<rparr>)))"

text \<open>The loop over the remaining retries; the exceptions of the attempts are logged only.\<close>

fun reconnect_loop :: "asio_ops \<Rightarrow> nat \<Rightarrow> tcp_subscriber \<Rightarrow> tcp_subscriber" where
  "reconnect_loop N 0 s = s"
| "reconnect_loop N (Suc n) s =
     (let (err, s') = syncConnect N s in if socket_open s' then s' else reconnect_loop N n s')"

definition syncReconnect :: "asio_ops \<Rightarrow> tcp_subscriber \<Rightarrow> tcp_subscriber res" where
  "syncReconnect N s =
     (let s' = reconnect_loop N (unat (reconnectionRetries s)) s in
      if \<not> socket_open s' then Inl (RuntimeError ''Couldn't successfully re-connect to the TCP server'') else Inr s')"

definition initiateAsyncReceiving :: "tcp_subscriber \<Rightarrow> tcp_subscriber" where
  "initiateAsyncReceiving s = s\<lparr>receiving := True\<rparr>"

definition initNetwork ::
    "asio_ops \<Rightarrow> 'p ptree_ops \<Rightarrow> 'p transmission_channel \<Rightarrow> tcp_subscriber \<Rightarrow> tcp_subscriber res" where
  "initNetwork N P chn s =
     (let (err, s') = syncConnect N (initConfigVariables P chn (s\<lparr>socket_open := False\<rparr>)) in
      case err of Some e \<Rightarrow> Inl e | None \<Rightarrow> Inr (initiateAsyncReceiving s'))"

definition isTerminationRequestPending :: "tcp_subscriber \<Rightarrow> bool" where
  "isTerminationRequestPending s = terminationRequest s"

definition terminateNetworkConnection :: "tcp_subscriber \<Rightarrow> tcp_subscriber" where
  "terminateNetworkConnection s = s\<lparr>socket_open := False\<rparr>"

text \<open>\<open>handleReceive\<close>: the received bytes are parsed, then the connection is renewed where necessary and the next read started.\<close>

definition continueReceiving :: "asio_ops \<Rightarrow> tcp_subscriber \<Rightarrow> bool \<Rightarrow> tcp_subscriber res" where
  "continueReceiving N s eof =
     (if isTerminationRequestPending s then Inr s
      else rbind (if \<not> socket_open s \<or> eof then syncReconnect N s else Inr s) (\<lambda>s'.
        Inr (initiateAsyncReceiving s')))"

definition handleReceive ::
    "asio_ops \<Rightarrow> conversion \<Rightarrow> (nat \<Rightarrow> double) \<Rightarrow> tcp_subscriber \<Rightarrow> bool \<Rightarrow> byte list \<Rightarrow> tcp_subscriber res option" where
  "handleReceive N conv stamp s eof chunk =
     map_option (\<lambda>r. rbind r (\<lambda>p. continueReceiving N (s\<lparr>parser := p, receiving := False\<rparr>) eof))
       (commitData conv stamp (parser s) chunk)"

text \<open>\<open>ConcurrentSubscriber\<close>: starting the thread, its body with the result of \<open>run\<close>, and its end.\<close>

definition initAndStart ::
    "asio_ops \<Rightarrow> 'p ptree_ops \<Rightarrow> int \<Rightarrow> 'p transmission_channel \<Rightarrow> tcp_subscriber \<Rightarrow> tcp_subscriber res" where
  "initAndStart N P t chn s =
     rbind (subscriber_init P (parser s) chn t) (\<lambda>p.
     rbind (initNetwork N P chn (s\<lparr>terminationRequest := False, parser := p, sub_channel := getHostAndPortName P chn\<rparr>)) (\<lambda>s'.
       Inr (s'\<lparr>joinable := True, thread := Idle\<rparr>)))"

definition executeRun :: "unit res \<Rightarrow> tcp_subscriber \<Rightarrow> tcp_subscriber" where
  "executeRun r s =
     (case r of Inl e \<Rightarrow> s\<lparr>reported := reported s @ [e]\<rparr> | Inr _ \<Rightarrow> s)\<lparr>terminationRequest := False, thread := Ended\<rparr>"

text \<open>
  \<open>terminate\<close>: unless the thread has ended before, it finishes its handler, with the result \<open>r\<close>; when that is no
  exception, it runs the handler of the request, which closes the connection and makes \<open>run\<close> return. The caller
  waits for the end of the thread.
\<close>

definition terminate_handler :: "tcp_subscriber \<Rightarrow> tcp_subscriber" where
  "terminate_handler s = executeRun (Inr ()) (terminateNetworkConnection (s\<lparr>parser := handleTermination (parser s)\<rparr>))"

definition terminate :: "unit res \<Rightarrow> tcp_subscriber \<Rightarrow> tcp_subscriber res" where
  "terminate r s =
     rbind (assert_that (joinable s)) (\<lambda>_.
       let s1 = s\<lparr>terminationRequest := True\<rparr>;
           s2 = (if thread s1 = Ended then s1
                 else case r of Inl e \<Rightarrow> executeRun (Inl e) s1 | Inr _ \<Rightarrow> terminate_handler s1) in
       Inr (s2\<lparr>joinable := False\<rparr>))"

section \<open>The network manager\<close>

definition PROP_PROTOCOL :: string where "PROP_PROTOCOL = ''protocol''"

text \<open>The publishers of the manager are listeners of the dispatcher, which holds their state.\<close>

record network_manager =
  subscribers :: "tcp_subscriber list"
  pendingException :: "exn option"

text \<open>The channels of a mapping, with the instantiation and initialization of one type of entity.\<close>

definition add_channel ::
    "'p ptree_ops \<Rightarrow> (string \<Rightarrow> 'e option) \<Rightarrow> ('e \<Rightarrow> 'p transmission_channel \<Rightarrow> 'e res) \<Rightarrow> 'p transmission_channel \<Rightarrow> 'e res" where
  "add_channel P inst ini channel =
     (case get_optional P Some (getChannelConfig channel) PROP_PROTOCOL of
        None \<Rightarrow> Inl (SystemConfigurationException ''A channel's protocol identifier is not set'' None)
      | Some protocol \<Rightarrow>
          (case inst protocol of
             None \<Rightarrow> Inl (SystemConfigurationException ''Unknown Protocol'' (Some (PROP_PROTOCOL, protocol)))
           | Some pub \<Rightarrow> ini pub channel))"

fun addChannels_from ::
    "'p ptree_ops \<Rightarrow> (string \<Rightarrow> 'e option) \<Rightarrow> ('e \<Rightarrow> 'p transmission_channel \<Rightarrow> 'e res) \<Rightarrow> 'p channel_mapping \<Rightarrow>
     nat list \<Rightarrow> 'e list \<Rightarrow> 'e list res" where
  "addChannels_from P inst ini m [] dest = Inr dest"
| "addChannels_from P inst ini m (i # is) dest =
     rbind (getTransmissionChannel m (int i)) (\<lambda>channel.
     rbind (add_channel P inst ini channel) (\<lambda>pub. addChannels_from P inst ini m is (dest @ [pub])))"

definition net_addChannels ::
    "'p ptree_ops \<Rightarrow> (string \<Rightarrow> 'e option) \<Rightarrow> ('e \<Rightarrow> 'p transmission_channel \<Rightarrow> 'e res) \<Rightarrow> 'p channel_mapping \<Rightarrow>
     'e list res" where
  "net_addChannels P inst ini m = addChannels_from P inst ini m [0..<nat (sint (getNumberOfChannels m))] []"

definition instantiatePublisher :: "(string \<times> transport) list \<Rightarrow> string \<Rightarrow> net_publisher option" where
  "instantiatePublisher table i = map_option new_publisher (map_of table i)"

definition instantiateSubscriber :: "string list \<Rightarrow> string \<Rightarrow> tcp_subscriber option" where
  "instantiateSubscriber table i = (if i \<in> set table then Some new_subscriber else None)"

definition handleException :: "exn \<Rightarrow> network_manager \<Rightarrow> network_manager" where
  "handleException e n = n\<lparr>pendingException := Some e\<rparr>"

definition hasPendingException :: "network_manager \<Rightarrow> bool" where
  "hasPendingException n \<longleftrightarrow> pendingException n \<noteq> None"

text \<open>The exception is cleared before it is thrown, the new state and the exception are returned.\<close>

definition throwPendingException :: "network_manager \<Rightarrow> exn option \<times> network_manager" where
  "throwPendingException n =
     (if hasPendingException n then (pendingException n, n\<lparr>pendingException := None\<rparr>) else (None, n))"

text \<open>
  \<open>terminateSubscribers\<close>: every subscriber is terminated, the last exception is thrown at the end. \<open>rs\<close> is
  the result of the thread of each subscriber.
\<close>

fun terminate_all :: "(tcp_subscriber \<Rightarrow> unit res) \<Rightarrow> tcp_subscriber list \<Rightarrow> exn option \<Rightarrow> exn option" where
  "terminate_all rs [] exc = exc"
| "terminate_all rs (s # ss) exc = terminate_all rs ss (case terminate (rs s) s of Inl e \<Rightarrow> Some e | Inr _ \<Rightarrow> exc)"

definition terminateSubscribers :: "(tcp_subscriber \<Rightarrow> unit res) \<Rightarrow> network_manager \<Rightarrow> exn option \<times> network_manager" where
  "terminateSubscribers rs n = (terminate_all rs (subscribers n) None, n\<lparr>subscribers := []\<rparr>)"

section \<open>Publishers as listeners\<close>

fun is_runtime_error :: "exn \<Rightarrow> bool" where
  "is_runtime_error (RuntimeError _) = True"
| "is_runtime_error _ = False"

definition net_publisher_ok :: "net_publisher \<Rightarrow> bool" where
  "net_publisher_ok p \<longleftrightarrow> publisher_ok (encoder p)"

lemma sendData_outcome:
  "net_publisher_ok p \<Longrightarrow> outcome is_runtime_error net_publisher_ok (sendData N p buffer)"
  by (simp add: sendData_def net_publisher_ok_def split: sum.splits)

lemma net_publisher_event_outcome:
  assumes "net_publisher_ok p" and "list_all var_isValid xs"
  shows "outcome is_runtime_error net_publisher_ok (net_publisher_eventTriggered N p xs)"
proof -
  obtain e where e: "publisher_eventTriggered (encoder p) xs = Inr e" "publisher_ok e"
    using publisher_event_state [of "encoder p" xs] assms by (simp add: net_publisher_ok_def publisher_ok_def)
  show ?thesis using sendData_outcome e(2)
    by (simp add: net_publisher_eventTriggered_def e(1) net_publisher_ok_def)
qed

text \<open>Initialization of a publisher on ports of known type: it fails only with a configuration error.\<close>

lemma getDefaultType_castable: "ty \<noteq> fmiTypeUnknown \<Longrightarrow> \<exists>dt. getDefaultType ty = Inr dt \<and> CASTABLE ty dt"
  by (cases ty) simp_all

lemma portOutputType_outcome:
  assumes "fst port \<noteq> fmiTypeUnknown"
  shows "outcome is_invalid_argument (CASTABLE (fst port)) (portOutputType P i port cfg)"
  using getDefaultType_castable [OF assms]
  by (auto simp: portOutputType_def cast_error_def split: option.splits)

lemma initOutputTypes_outcome:
  assumes "\<forall>p\<in>set ports. fst p \<noteq> fmiTypeUnknown" and "length ports = length cfgs"
  shows "outcome is_invalid_argument (\<lambda>dts. \<exists>ds. dts = types @ ds \<and> list_all2 (\<lambda>p dt. CASTABLE (fst p) dt) ports ds)
    (initOutputTypes P i ports cfgs types)"
  using assms(2,1)
proof (induction ports cfgs arbitrary: i types rule: list_induct2)
  case (Cons p ps c cs)
  show ?case unfolding initOutputTypes.simps
  proof (rule outcome_bind [OF portOutputType_outcome])
    fix dt
    assume "CASTABLE (fst p) dt"
    with Cons show "outcome is_invalid_argument (\<lambda>dts. \<exists>ds. dts = types @ ds \<and> list_all2 (\<lambda>p dt. CASTABLE (fst p) dt) (p # ps) ds)
        (initOutputTypes P (Suc i) ps cs (types @ [dt]))"
      by (intro outcome_mono [OF Cons.IH]) auto
  qed (use Cons in simp)
qed simp

lemma publisher_init_outcome:
  assumes "\<forall>p\<in>set (portIDs channel). fst p \<noteq> fmiTypeUnknown" and "length (portConfig channel) = length (portIDs channel)"
  shows "outcome is_invalid_argument publisher_ok (publisher_init P CompactASN1Publisher channel)"
proof -
  obtain xs where xs: "initOutputVariables (portIDs channel) = Inr xs" "map var_id xs = portIDs channel" "list_all var_isValid xs"
    using initOutputVariables_ok [OF assms(1)] by blast
  have ok: "publisher_ok \<lparr>outputVariables = xs, outputTypes = ds, sentPackets = []\<rparr>"
    if "list_all2 (\<lambda>p dt. CASTABLE (fst p) dt) (portIDs channel) ds" for ds
    using that xs(3) unfolding xs(2) [symmetric] publisher_ok_def
    by (auto simp: slot_ok_def list_all2_conv_all_nth list_all_length)
  have "publisher_init P CompactASN1Publisher channel = rbind (initOutputTypes P 0 (portIDs channel) (portConfig channel) [])
      (\<lambda>ds. Inr \<lparr>outputVariables = xs, outputTypes = ds, sentPackets = []\<rparr>)"
    using xs(1) assms(2) by (simp add: publisher_init_def getPortIDs_def getPortConfig_def CompactASN1Publisher_def)
  also have "outcome is_invalid_argument publisher_ok \<dots>"
    by (rule outcome_bind [OF initOutputTypes_outcome [OF assms(1)]]) (use assms(2) ok in auto)
  finally show ?thesis .
qed

definition known_channel :: "'p transmission_channel \<Rightarrow> bool" where
  "known_channel ch \<longleftrightarrow> (\<forall>p\<in>set (portIDs ch). fst p \<noteq> fmiTypeUnknown) \<and> length (portConfig ch) = length (portIDs ch)"

lemma net_publisher_init_outcome:
  assumes "known_channel channel"
  shows "outcome (\<lambda>e. is_invalid_argument e \<or> is_runtime_error e) net_publisher_ok
    (net_publisher_init N P (new_publisher tr) channel)"
proof -
  let ?E = "\<lambda>e. is_invalid_argument e \<or> is_runtime_error e"
  have b: "outcome ?E publisher_ok (publisher_init P CompactASN1Publisher channel)"
    using assms by (intro outcome_raises [OF publisher_init_outcome]) (simp_all add: known_channel_def)
  have a: "outcome ?E (\<lambda>_. True) (publisher_address P channel)"
    by (simp add: publisher_address_def Let_def split: option.splits)
  have c: "outcome ?E (\<lambda>_. True) (check_error x)" for x by (simp add: check_error_def split: option.splits)
  have "outcome ?E net_publisher_ok (TCPClientPublisher_init N P (new_publisher tr) channel)"
    unfolding TCPClientPublisher_init_def
    by (rule outcome_bind, simp add: new_publisher_def, rule b, rule outcome_bind [OF a], clarify,
        rule outcome_bind [OF c], rule outcome_bind [OF c]) (simp add: net_publisher_ok_def)
  moreover have "outcome ?E net_publisher_ok (UDPPublisher_init N P (new_publisher tr) channel)"
    unfolding UDPPublisher_init_def
    by (rule outcome_bind, simp add: new_publisher_def, rule b, rule outcome_bind [OF a], clarify,
        rule outcome_bind [OF c], rule outcome_bind [OF c]) (simp add: net_publisher_ok_def)
  ultimately show ?thesis by (simp add: net_publisher_init_def split: transport.splits)
qed

section \<open>Channels\<close>

text \<open>A mapping without ports of unknown type has only known channels.\<close>

lemma mapping_channels_known:
  assumes "mapping_ok d m" and "variableIDs m ! 4 = []" and "ch \<in> set (channels m)"
  shows "known_channel ch"
proof -
  have ch: "length (portConfig ch) = length (portIDs ch)" "set (portIDs ch) \<subseteq> ran (port_of m)"
    using assms(1,3) by (auto simp: mapping_ok_def channel_ok_def)
  have "fst i \<noteq> fmiTypeUnknown" if "i \<in> set (portIDs ch)" for i
  proof
    assume u: "fst i = fmiTypeUnknown"
    have "i \<in> ran (port_of m)" using ch(2) that by blast
    then obtain n t where p: "port_of m (n, t) = Some i" by (auto simp: ran_def)
    then have i: "i \<in> set (variableIDs m ! type_code t)"
      unfolding port_of_def prod.case by (metis map_of_SomeD set_zip_rightD)
    then have "t = fmiTypeUnknown" using assms(1) u by (auto simp: mapping_ok_def row_ok_def)
    with i assms(2) show False by simp
  qed
  with ch(1) show ?thesis by (simp add: known_channel_def)
qed

lemma add_channel_outcome:
  assumes "\<And>e pr. inst pr = Some e \<Longrightarrow> outcome (\<lambda>e. is_invalid_argument e \<or> is_runtime_error e) Q (ini e channel)"
  shows "outcome (\<lambda>e. is_invalid_argument e \<or> is_runtime_error e) Q (add_channel P inst ini channel)"
  using assms by (auto simp: add_channel_def split: option.splits)

lemma net_addChannels_outcome:
  assumes "\<And>ch e pr. ch \<in> set (channels m) \<Longrightarrow> inst pr = Some e \<Longrightarrow>
      outcome (\<lambda>e. is_invalid_argument e \<or> is_runtime_error e) Q (ini e ch)"
  shows "outcome (\<lambda>e. is_invalid_argument e \<or> is_runtime_error e) (list_all Q) (net_addChannels P inst ini m)"
proof -
  have "outcome (\<lambda>e. is_invalid_argument e \<or> is_runtime_error e) (list_all Q) (addChannels_from P inst ini m is dest)"
    if "\<forall>i\<in>set is. i < length (channels m)" "list_all Q dest" for "is" dest
    using that
  proof (induction "is" arbitrary: dest)
    case (Cons i "is")
    then have "getTransmissionChannel m (int i) = Inr (channels m ! i)" "channels m ! i \<in> set (channels m)"
      by (simp_all add: getTransmissionChannel_def)
    then show ?case using assms Cons
      by (auto intro!: outcome_bind [OF add_channel_outcome] Cons.IH)
  qed simp
  moreover have "nat (sint (getNumberOfChannels m)) \<le> length (channels m)"
  proof -
    have "take_bit 32 (uint w) = uint w" for w :: int32 using take_bit_int_eq_self [of "uint w" 32] uint_lt2p [of w] by simp
    then have "sint (getNumberOfChannels m) \<le> uint (getNumberOfChannels m)"
      by (simp add: sint_uint signed_take_bit_eq_take_bit_minus)
    also have "\<dots> \<le> int (length (channels m))" by (simp add: getNumberOfChannels_def uint_nat unat_of_nat)
    finally show ?thesis by simp
  qed
  ultimately show ?thesis by (simp add: net_addChannels_def)
qed

section \<open>Reconnection\<close>

text \<open>A closed socket is retried as often as configured; the result is an error unless one attempt opens it.\<close>

lemma reconnect_closed_socket:
  assumes "syncReconnect N s = Inr s'" and "\<not> socket_open s"
  shows "socket_open s' \<and> attempts s < attempts s' \<and> attempts s' \<le> attempts s + unat (reconnectionRetries s)"
proof -
  have loop: "attempts (reconnect_loop N n s) \<le> attempts s + n \<and> attempts s \<le> attempts (reconnect_loop N n s) \<and>
      (attempts (reconnect_loop N n s) = attempts s \<longrightarrow> socket_open (reconnect_loop N n s) = socket_open s)" for n s
  proof (induction n arbitrary: s)
    case (Suc n)
    obtain err s1 where s1: "syncConnect N s = (err, s1)" by fastforce
    have "attempts s1 \<le> Suc (attempts s) \<and> attempts s \<le> attempts s1 \<and> (attempts s1 = attempts s \<longrightarrow> socket_open s1 = socket_open s)"
      using s1 by (auto simp: syncConnect_def Let_def split: sum.splits prod.splits connect_outcome.splits)
    with Suc.IH [of s1] s1 show ?case by auto
  qed simp
  have "s' = reconnect_loop N (unat (reconnectionRetries s)) s" "socket_open s'"
    using assms(1) by (auto simp: syncReconnect_def Let_def split: if_splits)
  with loop [of "unat (reconnectionRetries s)" s] assms(2) show ?thesis by (auto simp: less_le)
qed

section \<open>Termination\<close>

text \<open>A started subscriber is terminated whatever its thread returned: the manager throws nothing.\<close>

lemma terminate_started: "joinable s \<Longrightarrow> \<exists>s'. terminate r s = Inr s' \<and> \<not> joinable s' \<and> thread s' = Ended"
  by (auto simp: terminate_def terminate_handler_def executeRun_def Let_def split: sum.splits)

lemma terminateSubscribers_clean:
  assumes "list_all joinable (subscribers n)"
  shows "fst (terminateSubscribers rs n) = None"
proof -
  have "terminate_all rs ss exc = exc" if "list_all joinable ss" for ss exc
    using that
  proof (induction ss arbitrary: exc)
    case (Cons s ss)
    then obtain s' where "terminate (rs s) s = Inr s'" using terminate_started by fastforce
    with Cons show ?case by simp
  qed simp
  with assms show ?thesis by (simp add: terminateSubscribers_def)
qed

section \<open>Properties\<close>

text \<open>
  C32: reconnection after the end of the stream. The socket of a connection that the server closed is still
  open. When the address does not resolve at the first attempt to reconnect, the remaining attempts are
  not made, however many are configured: the loop takes the open socket for a connection and
  receiving goes on with a socket that is not connected.
\<close>

theorem reconnect_open_socket:
  assumes "value_conversion conv" and "subscriber_ok (parser s)" and "\<not> terminationRequest s" and "socket_open s"
    and "sub_channel s = Inr (host, port)" and "reconnectionRetries s \<noteq> 0"
    and "connect_attempt N (attempts s) host port = ResolveFailed"
  shows "\<exists>s'. handleReceive N conv stamp s True chunk = Some (Inr s') \<and> attempts s' = Suc (attempts s) \<and> socket_open s' \<and> receiving s'"
proof -
  obtain p where p: "commitData conv stamp (parser s) chunk = Some (Inr p)"
    by (rule commitData_keeps [OF assms(1,2)])
  let ?s = "s\<lparr>parser := p, receiving := False\<rparr>"
  obtain k where "unat (reconnectionRetries s) = Suc k" using assms(6) by (cases "unat (reconnectionRetries s)") (auto simp: unat_eq_0)
  then have "syncReconnect N ?s = Inr (?s\<lparr>attempts := Suc (attempts s)\<rparr>)"
    using assms(4-7) by (simp add: syncReconnect_def syncConnect_def)
  then show ?thesis using assms(3,4)
    by (simp add: handleReceive_def continueReceiving_def isTerminationRequestPending_def p initiateAsyncReceiving_def)
qed

theorem reconnect_open_socket_witness:
  "\<exists>s'. handleReceive \<lparr>resolve_error = (\<lambda>_ _. None), connect_error = (\<lambda>_ _. None), open_error = (\<lambda>_ _. None),
       send_result = (\<lambda>_ bs. Inr (length bs)), connect_attempt = (\<lambda>k _ _. if k = 1 then ResolveFailed else Connected)\<rparr>
       strict_conversion (\<lambda>_. 0) (new_subscriber\<lparr>parser := demo_subscriber, socket_open := True, attempts := 1,
         reconnectionRetries := 4, sub_channel := Inr (''plc'', ''4001'')\<rparr>) True [] = Some (Inr s') \<and>
     attempts s' = 2 \<and> receiving s'"
proof -
  let ?N = "\<lparr>resolve_error = (\<lambda>_ _. None), connect_error = (\<lambda>_ _. None), open_error = (\<lambda>_ _. None),
       send_result = (\<lambda>_ bs. Inr (length bs)), connect_attempt = (\<lambda>k _ _. if k = 1 then ResolveFailed else Connected)\<rparr>"
  let ?s = "new_subscriber\<lparr>parser := demo_subscriber, socket_open := True, attempts := 1,
         reconnectionRetries := 4, sub_channel := Inr (''plc'', ''4001'')\<rparr>"
  have "subscriber_ok (parser ?s)" "\<not> terminationRequest ?s" "socket_open ?s" "sub_channel ?s = Inr (''plc'', ''4001'')"
      "reconnectionRetries ?s \<noteq> 0" "connect_attempt ?N (attempts ?s) ''plc'' ''4001'' = ResolveFailed"
    by (simp_all add: demo_subscriber_ok new_subscriber_def)
  from reconnect_open_socket [OF strict.value_conversion_axioms this, of "\<lambda>_. 0" "[]"] show ?thesis by auto
qed

end
