(* ===== verification/Subscriber_Thread.thy ===== *)
theory Subscriber_Thread
  imports Network Event_Dispatcher
begin

text \<open>
  The thread of a subscriber: \<open>ConcurrentSubscriber::executeRun\<close> with the service loop of
  \<open>CompactASN1Subscriber::run\<close> and the handlers of \<open>CompactASN1TCPClientSubscriber\<close>. One step of \<open>tstep\<close> is a
  handler up to the point where the thread hands an event to the queue, one such event, the rest of the
  handler, or a request to terminate from the main thread. The action of a step is what the other threads
  notice of it. Section \<open>Properties\<close> shows that the thread keeps the contract the main loop relies on:
  the events it pushes are valid external events and the only exceptions it reports are runtime errors.
\<close>

section \<open>The step relation\<close>

datatype action = Silent | Push event | Report exn

definition all_handed :: "tcp_subscriber \<Rightarrow> bool" where
  "all_handed s \<longleftrightarrow> handed s = length (pushedEvents (parser s))"

text \<open>
  The time stamps a handler gets from the queue. \<open>getTimeStampNow\<close> reads the clock before it waits for the start of
  the loop, so that the reading may lie before the epoch of the queue.
\<close>

definition stamps :: "queue_state \<Rightarrow> (nat \<Rightarrow> double) \<Rightarrow> bool" where
  "stamps q stamp \<longleftrightarrow> (\<forall>k. \<exists>t. localEpoch q \<le> t + 2 ^ 62 \<and> stamp k = getTimeStampNow q t)"

text \<open>
  A read takes at most the 128 bytes that \<open>prepareData\<close> provides. The timer's handler runs once for a wait.
  The handler of a request stops the service, so that no other handler runs after it.
\<close>

inductive tstep ::
    "asio_ops \<Rightarrow> conversion \<Rightarrow> queue_state \<Rightarrow> int \<Rightarrow> tcp_subscriber \<Rightarrow> action \<Rightarrow> tcp_subscriber \<Rightarrow> bool"
  for N conv q t0 where
  receive: "thread s = Idle \<Longrightarrow> all_handed s \<Longrightarrow> receiving s \<Longrightarrow> length chunk \<le> 128 \<Longrightarrow> stamps q stamp \<Longrightarrow>
    commitData conv stamp (parser s) chunk = Some (Inr p) \<Longrightarrow>
    tstep N conv q t0 s Silent (s\<lparr>parser := p, receiving := False, thread := Handling eof\<rparr>)"
| receive_fails: "thread s = Idle \<Longrightarrow> all_handed s \<Longrightarrow> receiving s \<Longrightarrow> length chunk \<le> 128 \<Longrightarrow> stamps q stamp \<Longrightarrow>
    commitData conv stamp (parser s) chunk = Some (Inl e) \<Longrightarrow> tstep N conv q t0 s (Report e) (executeRun (Inl e) s)"
| push: "handed s < length (pushedEvents (parser s)) \<Longrightarrow>
    tstep N conv q t0 s (Push (pushedEvents (parser s) ! handed s)) (s\<lparr>handed := Suc (handed s)\<rparr>)"
| proceed: "thread s = Handling eof \<Longrightarrow> all_handed s \<Longrightarrow> continueReceiving N s eof = Inr s' \<Longrightarrow>
    tstep N conv q t0 s Silent (s'\<lparr>thread := Idle\<rparr>)"
| fail: "thread s = Handling eof \<Longrightarrow> all_handed s \<Longrightarrow> continueReceiving N s eof = Inl e \<Longrightarrow>
    tstep N conv q t0 s (Report e) (executeRun (Inl e) s)"
| timeout: "thread s = Idle \<Longrightarrow> all_handed s \<Longrightarrow> timer_due (parser s) t0 \<Longrightarrow>
    handlePacketTimeout (parser s) False = Inr p \<Longrightarrow>
    tstep N conv q t0 s Silent (s\<lparr>parser := p\<lparr>waitPending := False\<rparr>\<rparr>)"
| timeout_fails: "thread s = Idle \<Longrightarrow> all_handed s \<Longrightarrow> timer_due (parser s) t0 \<Longrightarrow>
    handlePacketTimeout (parser s) False = Inl e \<Longrightarrow> tstep N conv q t0 s (Report e) (executeRun (Inl e) s)"
| request: "tstep N conv q t0 s Silent (s\<lparr>terminationRequest := True\<rparr>)"
| terminated: "thread s = Idle \<Longrightarrow> all_handed s \<Longrightarrow> terminationRequest s \<Longrightarrow>
    tstep N conv q t0 s Silent (terminate_handler s)"

inductive_cases tstepE: "tstep N conv q t0 s a s'"

section \<open>The invariant\<close>

text \<open>
  Between two handlers a read is pending on an open socket, unless the thread was asked to terminate. A
  thread that ended has handed over all its events.
\<close>

definition thread_ok :: "tcp_subscriber \<Rightarrow> bool" where
  "thread_ok s \<longleftrightarrow> joinable s \<and> subscriber_ok (parser s) \<and> stamped valid_time (parser s) \<and>
     handed s \<le> length (pushedEvents (parser s)) \<and>
     (case thread s of
        NotStarted \<Rightarrow> False
      | Idle \<Rightarrow> terminationRequest s \<or> receiving s \<and> socket_open s
      | Handling eof \<Rightarrow> True
      | Ended \<Rightarrow> all_handed s)"

definition good_action :: "tcp_subscriber \<Rightarrow> action \<Rightarrow> bool" where
  "good_action s a = (case a of
     Silent \<Rightarrow> True
   | Push ev \<Rightarrow> external_ok ev
   | Report e \<Rightarrow> is_runtime_error e \<and> thread s = Ended)"

lemma reconnect_loop_keeps:
  "parser (reconnect_loop N n s) = parser s \<and> joinable (reconnect_loop N n s) = joinable s \<and>
   handed (reconnect_loop N n s) = handed s \<and> terminationRequest (reconnect_loop N n s) = terminationRequest s"
proof (induction n arbitrary: s)
  case (Suc n)
  obtain err s1 where s1: "syncConnect N s = (err, s1)" by fastforce
  then have "parser s1 = parser s \<and> joinable s1 = joinable s \<and> handed s1 = handed s \<and>
      terminationRequest s1 = terminationRequest s"
    by (auto simp: syncConnect_def Let_def split: sum.splits prod.splits connect_outcome.splits)
  with Suc.IH [of s1] s1 show ?case by simp
qed simp

lemma continueReceiving_outcome:
  "outcome is_runtime_error (\<lambda>s'. parser s' = parser s \<and> joinable s' = joinable s \<and> handed s' = handed s \<and>
     terminationRequest s' = terminationRequest s \<and> (terminationRequest s \<or> receiving s' \<and> socket_open s'))
   (continueReceiving N s eof)"
  using reconnect_loop_keeps [of N "unat (reconnectionRetries s)" s]
  by (simp add: continueReceiving_def isTerminationRequestPending_def syncReconnect_def initiateAsyncReceiving_def Let_def)

lemma pushed_external:
  assumes "thread_ok s" and "ev \<in> set (pushedEvents (parser s))"
  shows "external_ok ev"
proof -
  have "partial_ok ev" "valid_time (getTime ev)"
    using assms by (auto simp: thread_ok_def subscriber_ok_def open_event_def stamped_def)
  then show ?thesis by (cases ev) simp_all
qed

lemma stamps_valid: "stamps q stamp \<Longrightarrow> valid_time (stamp k)"
  using getTimeStampNow_valid [of q] by (metis stamps_def)

lemma stamped_restart [simp]: "stamped T (restartPacketTimer s) = stamped T s"
  by (simp add: stamped_def restartPacketTimer_def)

lemma keeps_stamped: "keeps_channel stamp s s' \<Longrightarrow> (\<And>k. T (stamp k)) \<Longrightarrow> stamped T s \<Longrightarrow> stamped T s'"
  by (simp add: keeps_channel_def)

lemma packet_timeout_ok:
  assumes "subscriber_ok p" and "stamped T p"
  obtains p' where "handlePacketTimeout p False = Inr p'" "subscriber_ok p'" "stamped T p'"
    "\<exists>evs. pushedEvents p' = pushedEvents p @ evs"
  using assms by (cases "partialData p")
    (auto simp: handlePacketTimeout_def pushPartialEvent_def subscriber_ok_def stamped_def clearUnprocessedData_def)

lemma thread_ok_ended: "thread_ok s \<Longrightarrow> all_handed s \<Longrightarrow> thread_ok (executeRun r s)"
  by (cases r) (simp_all add: thread_ok_def executeRun_def all_handed_def)

lemma receive_ok:
  assumes "value_conversion conv" and "thread_ok s" and "stamps q stamp" and "commitData conv stamp (parser s) chunk = Some r"
  obtains p where "r = Inr p" "subscriber_ok p" "stamped valid_time p" "\<exists>evs. pushedEvents p = pushedEvents (parser s) @ evs"
proof -
  obtain p where p: "commitData conv stamp (parser s) chunk = Some (Inr p)" "keeps_channel stamp (restartPacketTimer (parser s)) p"
    by (rule commitData_keeps [OF assms(1)]) (use assms(2) in \<open>auto simp: thread_ok_def\<close>)
  have "stamped valid_time p"
    by (rule keeps_stamped [where T = valid_time, OF p(2) stamps_valid [OF assms(3)]])
      (use assms(2) in \<open>simp add: thread_ok_def\<close>)
  moreover have "subscriber_ok p" "\<exists>evs. pushedEvents p = pushedEvents (parser s) @ evs"
    using p(2) by (auto simp: keeps_channel_def restartPacketTimer_def simp del: all_simps)
  ultimately show thesis using that p(1) assms(4) by simp
qed

lemma tstep_ok:
  assumes "tstep N conv q t0 s a s'" and "value_conversion conv" and "thread_ok s"
  shows "thread_ok s' \<and> good_action s' a"
  using assms(1)
proof cases
  case (receive chunk stamp p eof)
  have "subscriber_ok p \<and> stamped valid_time p \<and> (\<exists>evs. pushedEvents p = pushedEvents (parser s) @ evs)"
    by (rule receive_ok [OF assms(2,3) receive(7,8)]) simp
  then show ?thesis using receive assms(3) by (auto simp: thread_ok_def good_action_def)
next
  case (receive_fails chunk stamp e)
  show ?thesis by (rule receive_ok [OF assms(2,3) receive_fails(7,8)]) simp
next
  case push
  then show ?thesis using assms(3) pushed_external [OF assms(3)]
    by (auto simp: thread_ok_def good_action_def all_handed_def split: thread_phase.splits)
next
  case (proceed eof s1)
  then show ?thesis using assms(3) continueReceiving_outcome [of s N eof]
    by (auto simp: thread_ok_def good_action_def)
next
  case (fail eof e)
  then show ?thesis using thread_ok_ended [OF assms(3), of "Inl e"] continueReceiving_outcome [of s N eof]
    by (simp add: good_action_def) (simp add: executeRun_def)
next
  case (timeout p)
  obtain p' where "handlePacketTimeout (parser s) False = Inr p'" "subscriber_ok p'" "stamped valid_time p'"
      "\<exists>evs. pushedEvents p' = pushedEvents (parser s) @ evs"
    by (rule packet_timeout_ok [of "parser s" valid_time]) (use assms(3) in \<open>auto simp: thread_ok_def\<close>)
  then show ?thesis using timeout assms(3)
    by (auto simp: thread_ok_def good_action_def subscriber_ok_def stamped_def)
next
  case (timeout_fails e)
  obtain p' where "handlePacketTimeout (parser s) False = Inr p'"
    by (rule packet_timeout_ok [of "parser s" valid_time]) (use assms(3) in \<open>auto simp: thread_ok_def\<close>)
  with timeout_fails show ?thesis by simp
next
  case request
  then show ?thesis using assms(3) by (auto simp: thread_ok_def good_action_def all_handed_def split: thread_phase.splits)
next
  case terminated
  then show ?thesis using assms(3)
    by (auto simp: terminate_handler_def thread_ok_def good_action_def executeRun_def all_handed_def
        terminateNetworkConnection_def handleTermination_def clearUnprocessedData_def subscriber_ok_def stamped_def)
qed

section \<open>Runs of a thread\<close>

text \<open>A run from \<open>s0\<close> with its actions.\<close>

inductive thread_run ::
    "asio_ops \<Rightarrow> conversion \<Rightarrow> queue_state \<Rightarrow> tcp_subscriber \<Rightarrow> action list \<Rightarrow> tcp_subscriber \<Rightarrow> bool"
  for N conv q s0 where
  start: "thread_run N conv q s0 [] s0"
| step: "thread_run N conv q s0 as s \<Longrightarrow> tstep N conv q t0 s a s' \<Longrightarrow>
    thread_run N conv q s0 (as @ [a]) s'"

definition pushes :: "action list \<Rightarrow> event list" where
  "pushes as = concat (map (\<lambda>a. case a of Push ev \<Rightarrow> [ev] | _ \<Rightarrow> []) as)"

definition reports :: "action list \<Rightarrow> exn list" where
  "reports as = concat (map (\<lambda>a. case a of Report e \<Rightarrow> [e] | _ \<Rightarrow> []) as)"

lemma actions_append [simp]:
  "pushes [] = []" "reports [] = []"
  "pushes (as @ [a]) = pushes as @ (case a of Push ev \<Rightarrow> [ev] | _ \<Rightarrow> [])"
  "reports (as @ [a]) = reports as @ (case a of Report e \<Rightarrow> [e] | _ \<Rightarrow> [])"
  by (simp_all add: pushes_def reports_def)

text \<open>The events of the parser only grow, and a push is the next one that was not handed over.\<close>

lemma tstep_events:
  assumes "tstep N conv q t0 s a s'" and "value_conversion conv" and "thread_ok s"
  shows "take (handed s') (pushedEvents (parser s')) =
    take (handed s) (pushedEvents (parser s)) @ (case a of Push ev \<Rightarrow> [ev] | _ \<Rightarrow> [])"
  using assms(1)
proof cases
  case (receive chunk stamp p eof)
  have "\<exists>evs. pushedEvents p = pushedEvents (parser s) @ evs" by (rule receive_ok [OF assms(2,3) receive(7,8)]) simp
  then show ?thesis using receive by (auto simp: all_handed_def)
next
  case push
  then show ?thesis by (simp add: take_Suc_conv_app_nth)
next
  case (proceed eof s1)
  then show ?thesis using continueReceiving_outcome [of s N eof] by simp
next
  case (timeout p)
  obtain p' where "handlePacketTimeout (parser s) False = Inr p'" "\<exists>evs. pushedEvents p' = pushedEvents (parser s) @ evs"
    by (rule packet_timeout_ok [of "parser s" valid_time]) (use assms(3) in \<open>auto simp: thread_ok_def\<close>)
  with timeout show ?thesis by (auto simp: all_handed_def)
qed (simp_all add: executeRun_def terminate_handler_def terminateNetworkConnection_def handleTermination_def
    clearUnprocessedData_def)

lemma tstep_ended: "tstep N conv q t0 s a s' \<Longrightarrow> thread_ok s \<Longrightarrow> thread s = Ended \<Longrightarrow> a = Silent \<and> thread s' = Ended"
  by (erule tstepE) (auto simp: thread_ok_def all_handed_def)

lemma thread_run_ok:
  assumes "thread_run N conv q s0 as s" and "value_conversion conv" and "thread_ok s0" and "handed s0 = 0"
  shows "thread_ok s \<and> pushes as = take (handed s) (pushedEvents (parser s)) \<and>
    (reports as = [] \<or> (\<exists>e. reports as = [e] \<and> is_runtime_error e \<and> thread s = Ended))"
  using assms(1)
proof induction
  case start
  then show ?case using assms(3,4) by simp
next
  case (step as s t0 a s')
  note ok = tstep_ok [OF step.hyps(2) assms(2)]
  show ?case using step ok tstep_events [OF step.hyps(2) assms(2)] tstep_ended [OF step.hyps(2)]
    by (cases a) (auto simp: good_action_def)
qed

lemma initAndStart_ok:
  assumes "initAndStart N P t ch new_subscriber = Inr s" and "known_ports (portIDs ch)"
  shows "thread_ok s" "handed s = 0" "pushedEvents (parser s) = []"
proof -
  obtain ports where p: "getPortIDs ch = Inr ports" "ports \<noteq> []"
      "thread s = Idle" "receiving s" "socket_open s" "joinable s" "handed s = 0" "subPorts (parser s) = ports"
      "partialData (parser s) = None" "pushedEvents (parser s) = []"
    using assms(1) by (auto simp: initAndStart_def subscriber_init_def initNetwork_def syncConnect_def initConfigVariables_def
        initiateAsyncReceiving_def new_subscriber_def CompactASN1Subscriber_def clearUnprocessedData_def res_simps Let_def
        split: if_splits sum.splits prod.splits option.splits connect_outcome.splits)
  have "ports = portIDs ch" using p(1) by (auto simp: getPortIDs_def res_simps)
  with p assms(2) show "thread_ok s" "handed s = 0" "pushedEvents (parser s) = []"
    by (simp_all add: thread_ok_def subscriber_ok_def stamped_def)
qed

text \<open>
  The types have to be known: \<open>init\<close> accepts a port of unknown type, and the first byte that arrives for it makes the
  parser fail an assertion. The multi-step predictor refuses such an input beforehand, the single-step predictor does not.
\<close>

lemma unknown_input_aborts:
  assumes "initAndStart N P t ch new_subscriber = Inr s" and "portIDs ch = (fmiTypeUnknown, k) # ports" and "chunk \<noteq> []"
  shows "commitData conv stamp (parser s) chunk = Some (Inl AssertionFailed)"
proof -
  have "subPorts (parser s) = portIDs ch \<and> partialData (parser s) = None \<and> rawData (parser s) = []"
    using assms(1) by (auto simp: initAndStart_def subscriber_init_def initNetwork_def syncConnect_def initConfigVariables_def
        initiateAsyncReceiving_def new_subscriber_def CompactASN1Subscriber_def clearUnprocessedData_def getPortIDs_def res_simps
        Let_def split: if_splits sum.splits prod.splits option.splits connect_outcome.splits)
  then have e: "current_event stamp ((restartPacketTimer (parser s))\<lparr>rawData := chunk\<rparr>) =
      newPartialEvent (stamp (length (pushedEvents (parser s)))) ((fmiTypeUnknown, k) # ports)"
    using assms(2) by (simp add: current_event_def restartPacketTimer_def)
  have "processRawDataToEvent conv (newPartialEvent u ((fmiTypeUnknown, k) # ports)) chunk status_ok = Inl AssertionFailed" for u
    by (subst processRawDataToEvent.simps) (simp add: assms(3) newPartialEvent_def getNextPortType_def status_ok_def)
  with e \<open>_ \<and> _ \<and> _\<close> show ?thesis
    unfolding commitData_def by (subst commit_loop.simps) (simp add: assms(3))
qed

section \<open>The end of a thread\<close>

text \<open>
  What a thread that was asked to terminate has left to do: a pending read, a wait for the timer, the rest of
  its handler and the events it has to hand over.
\<close>

fun phase_rank :: "thread_phase \<Rightarrow> nat" where
  "phase_rank (Handling _) = 2"
| "phase_rank Idle = 1"
| "phase_rank _ = 0"

definition remaining_work :: "(tcp_subscriber \<times> tcp_subscriber) set" where
  "remaining_work = measures [\<lambda>s. of_bool (receiving s), \<lambda>s. of_bool (waitPending (parser s)), \<lambda>s. phase_rank (thread s),
     \<lambda>s. length (pushedEvents (parser s)) - handed s]"

lemma handlePacketTimeout_waiting: "handlePacketTimeout p b = Inr p' \<Longrightarrow> waitPending p' = waitPending p"
  by (auto simp: handlePacketTimeout_def pushPartialEvent_def clearUnprocessedData_def res_simps split: if_splits option.splits)

lemma tstep_work:
  assumes "tstep N conv q t0 s a s'" and "terminationRequest s" and "s' \<noteq> s"
  shows "(s', s) \<in> remaining_work"
  using assms(1)
proof cases
  case (fail eof e)
  then show ?thesis using assms(2) by (simp add: continueReceiving_def isTerminationRequestPending_def)
qed (use assms(2,3) in \<open>auto simp: remaining_work_def continueReceiving_def isTerminationRequestPending_def executeRun_def
    terminate_handler_def terminateNetworkConnection_def handleTermination_def clearUnprocessedData_def timer_due_def
    dest: handlePacketTimeout_waiting\<close>)

lemma requested_progress:
  assumes "thread_ok s" and "terminationRequest s" and "thread s \<noteq> Ended"
  shows "\<exists>a s'. tstep N conv q t0 s a s' \<and> s' \<noteq> s"
proof (cases "all_handed s")
  case False
  then have h: "handed s < length (pushedEvents (parser s))" using assms(1) by (simp add: thread_ok_def all_handed_def)
  have "handed (s\<lparr>handed := Suc (handed s)\<rparr>) \<noteq> handed s" by simp
  then have "s\<lparr>handed := Suc (handed s)\<rparr> \<noteq> s" by metis
  then show ?thesis using tstep.push [OF h] by blast
next
  case True
  consider "thread s = Idle" | eof where "thread s = Handling eof" using assms(1,3) by (cases "thread s") (auto simp: thread_ok_def)
  then show ?thesis
  proof cases
    case 1
    have "thread (terminate_handler s) \<noteq> thread s" using 1 by (simp add: terminate_handler_def executeRun_def)
    then have "terminate_handler s \<noteq> s" by metis
    then show ?thesis using tstep.terminated [OF 1 True assms(2)] by blast
  next
    case (2 eof)
    then have "tstep N conv q t0 s Silent (s\<lparr>thread := Idle\<rparr>)"
      using assms(2) by (intro tstep.proceed [OF 2 True]) (simp add: continueReceiving_def isTerminationRequestPending_def)
    moreover have "thread (s\<lparr>thread := Idle\<rparr>) \<noteq> thread s" using 2 by simp
    then have "s\<lparr>thread := Idle\<rparr> \<noteq> s" by metis
    ultimately show ?thesis by blast
  qed
qed

section \<open>Properties\<close>


text \<open>A channel with two ports on a server that accepts every connection, and the bytes of one event.\<close>

definition wired_channel :: "ptree transmission_channel" where
  "wired_channel = \<lparr>channelConfig = PNode [] [(''addr'', PNode ''plc:4001'' [])],
     portIDs = [(fmiTypeBoolean, 0), (fmiTypeInteger, 0)], portConfig = [PNode ''b'' [], PNode ''i'' []]\<rparr>"

definition wired_network :: asio_ops where
  "wired_network = \<lparr>resolve_error = (\<lambda>_ _. None), connect_error = (\<lambda>_ _. None), open_error = (\<lambda>_ _. None),
     send_result = (\<lambda>_ bs. Inr (length bs)), connect_attempt = (\<lambda>_ _ _. Connected)\<rparr>"

definition wired_event :: "double \<Rightarrow> event" where
  "wired_event t = PartialEvent t [(fmiTypeBoolean, 0), (fmiTypeInteger, 0)]
     [Variable (fmiTypeBoolean, 0) (AnyBool 1), Variable (fmiTypeInteger, 0) (AnyInt 258)] 2"

lemma commit_values:
  assumes "subscriber_ok p" and "rawData p = []" and "list_all wire_ok rs"
  obtains p' where "commitData strict_conversion stamp p (concat (map wire rs)) = Some (Inr p')"
    "parser_state stamp p' = foldl (feed strict_conversion stamp (subPorts p)) (parser_state stamp p) rs"
proof -
  have c: "rawData p @ concat [concat (map wire rs)] = concat (map wire rs)" "partial_value (rawData p)"
    using assms(2) by (simp_all add: partial_value_def)
  obtain p' where p': "commitAll strict_conversion stamp p [concat (map wire rs)] = Some (Inr p')"
      "parser_state stamp p' = foldl (feed strict_conversion stamp (subPorts p)) (parser_state stamp p) rs"
    using commitAll_refines [OF strict.value_conversion_axioms assms(1,3) c(1,2), of stamp] by blast
  have "commitData strict_conversion stamp p (concat (map wire rs)) = Some (Inr p')"
    using p'(1) by (auto split: option.splits sum.splits)
  then show thesis using p'(2) by (rule that)
qed

lemma wired_commit:
  assumes "subscriber_ok p" and "subPorts p = portIDs wired_channel" and "rawData p = []" and "partialData p = None"
    and "pushedEvents p = []"
  obtains p' where "commitData strict_conversion stamp p [0x41, 0x44, 0, 0, 1, 2] = Some (Inr p')"
    "pushedEvents p' = [wired_event (stamp 0)]"
proof -
  let ?rs = "[RawBoolean 1, RawInt 258]"
  have "be_bytes 4 (258 :: int32) = [0, 0, 1, 2]" by code_simp
  then have c: "concat (map wire ?rs) = [0x41, 0x44, 0, 0, 1, 2]" by (simp add: tag_defs)
  obtain p' where p': "commitData strict_conversion stamp p [0x41, 0x44, 0, 0, 1, 2] = Some (Inr p')"
      "parser_state stamp p' = foldl (feed strict_conversion stamp (subPorts p)) (parser_state stamp p) ?rs"
    by (rule commit_values [OF assms(1,3), of ?rs stamp]) (simp_all only: c, simp_all)
  have "pushedEvents p' = [wired_event (stamp 0)]"
    using p'(2) assms(2,4,5)
    by (auto simp: parser_state_def feed_def absorb_def pushNextValue_def strict_conversion_def current_event_def
        newPartialEvent_def wired_channel_def wired_event_def)
  with p'(1) show thesis by (rule that)
qed

definition wired_subscriber :: tcp_subscriber where
  "wired_subscriber = new_subscriber\<lparr>parser := CompactASN1Subscriber\<lparr>subPorts := portIDs wired_channel, packetExpiry := 500000\<rparr>,
     joinable := True, socket_open := True, attempts := 1, reconnectionTimeout := 500, reconnectionRetries := 4,
     sub_channel := Inr (''plc'', ''4001''), receiving := True, thread := Idle\<rparr>"

lemma wired_start: "initAndStart wired_network (tree_ops (\<lambda>_. 0)) 0 wired_channel new_subscriber = Inr wired_subscriber"
  by (simp add: initAndStart_def subscriber_init_def getPortIDs_def initNetwork_def syncConnect_def initConfigVariables_def
      getHostAndPortName_def get_optional_def get_default_def getChannelConfig_def wired_network_def wired_channel_def tree_ops_def
      path_of_def PROP_ADDR_def PROP_PACKET_TIMEOUT_def PROP_RECON_INTERVALL_def PROP_RETRY_COUNT_def
      initiateAsyncReceiving_def clearUnprocessedData_def wired_subscriber_def new_subscriber_def CompactASN1Subscriber_def)

lemma wired_known: "known_ports (portIDs wired_channel)"
  by (simp add: known_ports_def wired_channel_def)




end
