(* ===== verification/Logging.thy ===== *)
theory Logging
  imports Event_Queue CSV_Logger Solver_Configuration
begin

text \<open>
  The set-up of the log and the trace of events: \<open>base/CLILoggingConfigurator\<close> and \<open>timing/EventLogger\<close>. The
  library boost log distributes records to sinks; of it the model has the filter of the console sink
  and, per event file sink, the lines that were written. The text of the time stamp attribute, which
  the library formats, is an argument, as is the text of an event, which for predicted events depends
  on the predictor. The stages of an event and the order in which the queue and the dispatcher log
  them are in the theories of these components.
\<close>

section \<open>The console\<close>

datatype severity = trace | debug | info | warning | error | fatal

fun severity_code :: "severity \<Rightarrow> nat" where
  "severity_code trace = 0"
| "severity_code debug = 1"
| "severity_code info = 2"
| "severity_code warning = 3"
| "severity_code error = 4"
| "severity_code fatal = 5"

record cli_logging =
  stdout_level :: severity

definition PROP_LOG_LEVEL :: string where "PROP_LOG_LEVEL = ''app.logLevel''"

definition CLILoggingConfigurator :: cli_logging where
  "CLILoggingConfigurator = \<lparr>stdout_level = info\<rparr>"

definition configureLogger :: "'p ptree_ops \<Rightarrow> 'p application_context \<Rightarrow> cli_logging \<Rightarrow> cli_logging res" where
  "configureLogger P c l =
     rbind (getPropertyOr P as_string c PROP_LOG_LEVEL ''debug'') (\<lambda>logLevel.
     rbind (if logLevel = ''trace'' then Inr trace
            else if logLevel = ''debug'' then Inr debug
            else if logLevel = ''info'' then Inr info
            else if logLevel = ''warning'' then Inr warning
            else if logLevel = ''error'' then Inr error
            else rbind (getPropertyOr P as_string c PROP_LOG_LEVEL ''debug'') (\<lambda>v.
              Inl (SystemConfigurationException ''Unknown log level.'' (Some (PROP_LOG_LEVEL, v))))) (\<lambda>level.
       Inr (l\<lparr>stdout_level := level\<rparr>)))"

text \<open>The filter of the console: \<open>timed\<close> tells that the record has the event time attribute.\<close>

definition console_shows :: "cli_logging \<Rightarrow> bool \<Rightarrow> severity \<Rightarrow> bool" where
  "console_shows l timed s \<longleftrightarrow> \<not> timed \<and> severity_code (stdout_level l) \<le> severity_code s"

section \<open>The event trace\<close>

record event_sink =
  sink_file :: string
  sink_lines :: "string list"

record event_logger =
  eventTimeAttribute :: double
  recordTimeAttribute :: double

definition PROP_FILE_NAME :: string where "PROP_FILE_NAME = ''app.timingFile''"

definition minus_one :: double where "minus_one = 0xBFF0000000000000"

definition EventLogger :: event_logger where
  "EventLogger = \<lparr>eventTimeAttribute = minus_one, recordTimeAttribute = minus_one\<rparr>"

text \<open>The stream of a sink is not checked: the lines of a file that does not open are lost.\<close>

definition addEventFileSink ::
    "'p ptree_ops \<Rightarrow> 'p application_context \<Rightarrow> event_sink list \<Rightarrow> event_sink list res" where
  "addEventFileSink P c sinks =
     rbind (getPropertyOr P as_string c PROP_FILE_NAME []) (\<lambda>filename.
       Inr (if filename \<noteq> [] then sinks @ [\<lparr>sink_file = filename, sink_lines = []\<rparr>] else sinks))"

definition getRelativeRecodTimeNow :: "int \<Rightarrow> int \<Rightarrow> double" where
  "getRelativeRecodTimeNow epoch t = fdiv (of_int64 (t - epoch)) million"

definition trace_line :: "string \<Rightarrow> double \<Rightarrow> processing_stage \<Rightarrow> double \<Rightarrow> string \<Rightarrow> string" where
  "trace_line stamp eventTime stage recordTime msg =
     stamp @ SEPARATOR # show_fixed 8 eventTime @ SEPARATOR # show_int (stage_code stage) @
     SEPARATOR # show_fixed 8 recordTime @ SEPARATOR # QUOTE # msg @ [QUOTE]"

text \<open>
  \<open>logEvent\<close> at the instant \<open>t\<close>: the record is opened only when a sink takes it, and only then the event
  is turned into a text.
\<close>

definition EventLogger_logEvent ::
    "(event \<Rightarrow> string res) \<Rightarrow> string \<Rightarrow> int \<Rightarrow> int \<Rightarrow> event \<Rightarrow> processing_stage \<Rightarrow> event_logger \<times> event_sink list \<Rightarrow>
     (event_logger \<times> event_sink list) res" where
  "EventLogger_logEvent toString stamp epoch t ev stage = (\<lambda>(l, sinks).
     let recordTime = getRelativeRecodTimeNow epoch t;
         l' = l\<lparr>eventTimeAttribute := getTime ev, recordTimeAttribute := recordTime\<rparr> in
     if sinks = [] then Inr (l', sinks)
     else rbind (toString ev) (\<lambda>msg. Inr (l', map (\<lambda>s. s\<lparr>sink_lines := sink_lines s @
       [trace_line stamp (eventTimeAttribute l') stage (recordTimeAttribute l') msg]\<rparr>) sinks)))"

section \<open>Outcomes\<close>

lemma configureLogger_outcome: "outcome is_invalid_argument (\<lambda>_. True) (configureLogger P c l)"
  unfolding configureLogger_def
  by (intro outcome_bind [OF getPropertyOr_outcome] outcome_bind [where R = "\<lambda>_. True"])
    (auto intro!: outcome_bind [OF getPropertyOr_outcome])

lemma addEventFileSink_outcome: "outcome is_invalid_argument (\<lambda>_. True) (addEventFileSink P c sinks)"
  unfolding addEventFileSink_def by (rule outcome_bind [OF getPropertyOr_outcome]) simp

text \<open>What the console shows is monotone in the severity, and an event record is never shown there.\<close>

lemma console_monotone:
  "console_shows l timed s \<Longrightarrow> severity_code s \<le> severity_code s' \<Longrightarrow> console_shows l timed s'"
  by (simp add: console_shows_def)

lemma fatal_shown: "console_shows l False fatal"
  by (cases "stdout_level l") (simp_all add: console_shows_def)

section \<open>The fields of a trace line\<close>

text \<open>
  The message is not escaped, but the fields in front of it are found at the separators whatever it holds:
  the four of the time stamp, the time of the event, its stage and the time of the record.
\<close>

lemma split_at_field:
  "c \<notin> set f \<Longrightarrow> split_at c (f @ c # rest) = f # split_at c rest"
  by (induction f) auto

lemma fixed_chars: "set (show_fixed p t) \<subseteq> number_chars"
proof -
  have "set (fixed_digits p m n) \<subseteq> number_chars" for m n
    by (simp add: fixed_digits_def point_chars pad_chars digits_chars)
  then show ?thesis by (auto simp: show_fixed_def special_def number_chars_def)
qed

lemma trace_line_fields:
  assumes "list_all (\<lambda>f. SEPARATOR \<notin> set f) [wd, hh, mm, ss]"
  shows "take 7 (split_at SEPARATOR (trace_line (wd @ SEPARATOR # hh @ SEPARATOR # mm @ SEPARATOR # ss) t stage rt msg)) =
    [wd, hh, mm, ss, show_fixed 8 t, show_int (stage_code stage), show_fixed 8 rt]"
proof -
  have "SEPARATOR \<notin> set (show_fixed 8 x)" "SEPARATOR \<notin> set (show_int i)" for x i
    using fixed_chars [of 8 x] show_int_chars [of i] number_chars_plain by blast+
  then show ?thesis using assms by (simp add: trace_line_def split_at_field)
qed

lemma stage_text_inject: "show_int (stage_code a) = show_int (stage_code b) \<Longrightarrow> a = b"
  by (cases a; cases b; simp add: show_int_def show_nat_digit digit_char_eval)

end
