(* ===== verification/Program.thy ===== *)
theory Program
  imports OneStep_Run Subscriber_Thread Logging
begin

text \<open>
  The program: \<open>main.cpp\<close> and \<open>model/EventPredictorFactory\<close>. The two predictors are joined to the class
  \<open>AbstractEventPredictor\<close>, the listeners of the dispatcher are the publishers, the exception tester of
  the network manager and the data logger, in the order in which \<open>main\<close> registers them. \<open>startup\<close> is the
  part of \<open>main\<close> between the creation of the predictor and the loop (\<open>t0\<close> and \<open>t1\<close> are the instants at which the
  objects are created and the loop starts), \<open>exit_code\<close> its handlers of exceptions, and \<open>process_exit\<close> the end
  of the process behind the loop.
\<close>

section \<open>The predictors\<close>

datatype ('m, 'n, 'p) any_predictor =
    MultiStep "'m event_predictor"
  | SingleStep "('n, 'p) onestep_predictor"

record ('m, 'n) fmu_library =
  incremental :: "'m incremental_fmu_ops"
  model_exchange :: "'n me_fmu_ops"
  model_loader :: model_manager
  with_sundials :: bool
  unset_properties :: simulation_properties

definition PROP_EVENT_PREDICTOR :: string where "PROP_EVENT_PREDICTOR = ''app.simulationMethod''"

definition makeEventPredictor ::
    "('m, 'n) fmu_library \<Rightarrow> 'p ptree_ops \<Rightarrow> 'p application_context \<Rightarrow> ('m, 'n, 'p) any_predictor res" where
  "makeEventPredictor L P c =
     rbind (getPropertyOr P as_string c PROP_EVENT_PREDICTOR ''multistep-prediction'') (\<lambda>predictorName.
       if predictorName = ''multistep-prediction''
       then rbind (EventPredictor (incremental L) (model_loader L) (with_sundials L) P c) (\<lambda>s. Inr (MultiStep s))
       else if predictorName = ''singlestep-delayed''
       then rbind (OneStepEventPredictor (model_exchange L) (model_loader L) (with_sundials L) (unset_properties L) P c)
         (\<lambda>s. Inr (SingleStep s))
       else Inl (SystemConfigurationException ''Invalid simulation method property''
         (Some (PROP_EVENT_PREDICTOR, predictorName))))"

fun any_configure ::
    "('m, 'n) fmu_library \<Rightarrow> 'p ptree_ops \<Rightarrow> ('m, 'n, 'p) any_predictor \<Rightarrow> 'p application_context \<Rightarrow> 'p application_context" where
  "any_configure L P (MultiStep s) c = configureDefaultApplicationContext (incremental L) P s c"
| "any_configure L P (SingleStep s) c = onestep_configureDefaultApplicationContext (model_exchange L) P s c"

fun any_init ::
    "('m, 'n) fmu_library \<Rightarrow> 'p ptree_ops \<Rightarrow> 'p application_context \<Rightarrow> ('m, 'n, 'p) any_predictor \<Rightarrow>
     (('m, 'n, 'p) any_predictor \<times> 'p application_context) res option" where
  "any_init L P c (MultiStep s) =
     map_option (\<lambda>r. rbind r (\<lambda>(s', c'). Inr (MultiStep s', c'))) (predictor_init (incremental L) P c s)"
| "any_init L P c (SingleStep s) =
     map_option (\<lambda>r. rbind r (\<lambda>(s', c'). Inr (SingleStep s', c'))) (onestep_init (model_exchange L) P c s)"

fun any_predictNext ::
    "('m, 'n) fmu_library \<Rightarrow> ('m, 'n, 'p) any_predictor \<Rightarrow> (event \<times> ('m, 'n, 'p) any_predictor) res option" where
  "any_predictNext L (MultiStep s) = Some (rbind (predictNext (incremental L) s) (\<lambda>(ev, s'). Inr (ev, MultiStep s')))"
| "any_predictNext L (SingleStep s) =
     map_option (\<lambda>r. rbind r (\<lambda>(ev, s'). Inr (ev, SingleStep s'))) (onestep_predictNext (model_exchange L) s)"

fun any_getVariables ::
    "('m, 'n) fmu_library \<Rightarrow> ('m, 'n, 'p) any_predictor \<Rightarrow> event \<Rightarrow> (variable list \<times> ('m, 'n, 'p) any_predictor) res" where
  "any_getVariables L (MultiStep s) ev = rbind (getVariables (incremental L) s ev) (\<lambda>(xs, s'). Inr (xs, MultiStep s'))"
| "any_getVariables L (SingleStep s) ev = rbind (onestep_getVariables s ev) (\<lambda>(xs, s'). Inr (xs, SingleStep s'))"

fun any_eventTriggered ::
    "('m, 'n) fmu_library \<Rightarrow> ('m, 'n, 'p) any_predictor \<Rightarrow> event \<Rightarrow> ('m, 'n, 'p) any_predictor res" where
  "any_eventTriggered L (MultiStep s) ev = rbind (predictor_eventTriggered (incremental L) s ev) (\<lambda>s'. Inr (MultiStep s'))"
| "any_eventTriggered L (SingleStep s) ev = rbind (onestep_eventTriggered (model_exchange L) s ev) (\<lambda>s'. Inr (SingleStep s'))"

section \<open>The listeners\<close>

datatype listener = Publisher net_publisher | ExceptionBomb network_manager | DataLogger csv_logger

text \<open>\<open>ExceptionBomb::eventTriggered\<close> throws the pending exception of the network manager.\<close>

fun listener_eventTriggered :: "asio_ops \<Rightarrow> listener \<Rightarrow> double \<Rightarrow> variable list \<Rightarrow> listener res" where
  "listener_eventTriggered N (Publisher p) t xs = rbind (net_publisher_eventTriggered N p xs) (\<lambda>p'. Inr (Publisher p'))"
| "listener_eventTriggered N (ExceptionBomb n) t xs =
     (case throwPendingException n of (Some e, n') \<Rightarrow> Inl e | (None, n') \<Rightarrow> Inr (ExceptionBomb n'))"
| "listener_eventTriggered N (DataLogger s) t xs = rbind (csv_eventTriggered s t xs) (\<lambda>s'. Inr (DataLogger s'))"

text \<open>
  What the threads of the subscribers may change in the network manager between two steps of the main thread:
  their own state, but not that they can be joined, and the pending exception, which is a runtime error.
\<close>

definition listener_change :: "listener \<Rightarrow> listener \<Rightarrow> bool" where
  "listener_change l l' \<longleftrightarrow> l' = l \<or>
     (\<exists>n n'. l = ExceptionBomb n \<and> l' = ExceptionBomb n' \<and> map joinable (subscribers n') = map joinable (subscribers n) \<and>
       (pendingException n' = pendingException n \<or> (\<exists>e. is_runtime_error e \<and> pendingException n' = Some e)))"

lemma joinable_map: "map joinable xs = map joinable ys \<Longrightarrow> list_all joinable xs \<Longrightarrow> list_all joinable ys"
  by (induction xs arbitrary: ys) auto

definition any_ops :: "('m, 'n) fmu_library \<Rightarrow> asio_ops \<Rightarrow> (('m, 'n, 'p) any_predictor, listener) dispatch_ops" where
  "any_ops L N = \<lparr>predict_next = any_predictNext L, read_variables = any_getVariables L,
     predictor_triggered = any_eventTriggered L, listener_triggered = listener_eventTriggered N,
     listener_async = listener_change\<rparr>"

section \<open>Start-up\<close>

definition obind :: "'a res option \<Rightarrow> ('a \<Rightarrow> 'b res option) \<Rightarrow> 'b res option" where
  "obind m f = Option.bind m (\<lambda>r. case r of Inl e \<Rightarrow> Some (Inl e) | Inr x \<Rightarrow> f x)"

record protocols =
  publisher_table :: "(string \<times> transport) list"
  subscriber_table :: "string list"

text \<open>
  An exception of a later channel destroys the subscribers that were started before, outside of the
  destructor of the manager: \<open>~ConcurrentSubscriber\<close> finds its thread running, calls the \<open>terminationRequest\<close>
  of its own class, which does nothing, and waits for a thread that nobody stopped. This has no result.
\<close>

definition start_subscribers ::
    "asio_ops \<Rightarrow> string list \<Rightarrow> 'p ptree_ops \<Rightarrow> int \<Rightarrow> 'p channel_mapping \<Rightarrow> tcp_subscriber list res option" where
  "start_subscribers N table P t0 inp =
     (let start = (\<lambda>s ch. initAndStart N P t0 ch s) in
      case net_addChannels P (instantiateSubscriber table) start inp of
        Inr subs \<Rightarrow> Some (Inr subs)
      | Inl e \<Rightarrow>
          if channels inp \<noteq> [] \<and> \<not> isl (add_channel P (instantiateSubscriber table) start (hd (channels inp)))
          then None else Some (Inl e))"

definition NetworkManager ::
    "asio_ops \<Rightarrow> protocols \<Rightarrow> 'p ptree_ops \<Rightarrow> int \<Rightarrow> 'p application_context \<Rightarrow> ('s, listener) dispatcher \<Rightarrow>
     ('p application_context \<times> ('s, listener) dispatcher) res option" where
  "NetworkManager N tab P t0 c d =
     obind (getOutputChannelMapping P c) (\<lambda>(out, c1).
     obind (Some (net_addChannels P (instantiatePublisher (publisher_table tab)) (net_publisher_init N P) out)) (\<lambda>pubs.
     obind (getInputChannelMapping P c1) (\<lambda>(inp, c2).
     obind (start_subscribers N (subscriber_table tab) P t0 inp) (\<lambda>subs.
       Some (Inr (c2, addEventListener (foldl addEventListener d (map Publisher pubs))
         (ExceptionBomb \<lparr>subscribers = subs, pendingException = None\<rparr>)))))))"

definition start_state :: "('s, 'l) dispatcher \<Rightarrow> int \<Rightarrow> ('s, 'l) run_state" where
  "start_state d t = \<lparr>disp = d, now = t, rphase = Looping Predicting, pending = LazyEvent 0, pushed = [], processed = []\<rparr>"

definition startup ::
    "('m, 'n) fmu_library \<Rightarrow> asio_ops \<Rightarrow> csv_io \<Rightarrow> protocols \<Rightarrow> 'p ptree_ops \<Rightarrow> int \<Rightarrow> int \<Rightarrow>
     'p application_context \<Rightarrow> ('m, 'n, 'p) any_predictor \<Rightarrow> (('m, 'n, 'p) any_predictor, listener) run_state res option" where
  "startup L N io tab P t0 t1 c s =
     obind (Some (addEventFileSink P c [])) (\<lambda>_.
     obind (any_init L P c s) (\<lambda>(s', c1).
     obind (Some (EventDispatcher P c1 t0 s')) (\<lambda>d.
     obind (NetworkManager N tab P t0 c1 d) (\<lambda>(c2, d1).
     obind (CSVDataLogger io P c2) (\<lambda>(csv, c3).
     Some (rbind (dispatcher_initStartTimeNow P c3 t1 (addEventListener d1 (DataLogger csv))) (\<lambda>d2.
       Inr (start_state d2 t1))))))))"

definition main ::
    "('m, 'n) fmu_library \<Rightarrow> asio_ops \<Rightarrow> csv_io \<Rightarrow> protocols \<Rightarrow> 'p ptree_ops \<Rightarrow> int \<Rightarrow> int \<Rightarrow> string option list \<Rightarrow>
     (('m, 'n, 'p) any_predictor, listener) run_state res option" where
  "main L N io tab P t0 t1 argv =
     obind (Some (addCommandlineProperties P (ApplicationContext P) argv)) (\<lambda>c.
     obind (Some (configureLogger P c CLILoggingConfigurator)) (\<lambda>_.
     obind (Some (makeEventPredictor L P c)) (\<lambda>s.
       startup L N io tab P t0 t1 (any_configure L P s c) s)))"

text \<open>The exit code of an exception; a failed assertion aborts the process.\<close>

fun exit_code :: "exn \<Rightarrow> int option" where
  "exit_code (SystemConfigurationException _ _) = Some 2"
| "exit_code (SolverException _ _) = Some 4"
| "exit_code (InvalidArgument _) = Some 1"
| "exit_code (RuntimeError _) = Some 3"
| "exit_code BadAnyCast = Some 125"
| "exit_code AssertionFailed = None"

text \<open>
  The end of the process after \<open>run\<close> returned or threw: the destructor of the network manager terminates
  the subscribers, whose threads end with the results \<open>rs\<close>. An exception that leaves it aborts the process.
\<close>

fun destructor_throws :: "(tcp_subscriber \<Rightarrow> unit res) \<Rightarrow> listener \<Rightarrow> bool" where
  "destructor_throws rs (ExceptionBomb n) \<longleftrightarrow> fst (terminateSubscribers rs n) \<noteq> None"
| "destructor_throws rs _ \<longleftrightarrow> False"

definition process_exit :: "(tcp_subscriber \<Rightarrow> unit res) \<Rightarrow> ('s, listener) run_state \<Rightarrow> int option" where
  "process_exit rs r =
     (if list_ex (destructor_throws rs) (listeners (disp r)) then None
      else case rphase r of Failed e \<Rightarrow> exit_code e | _ \<Rightarrow> Some 0)"

section \<open>The contracts\<close>

fun listener_ok :: "listener \<Rightarrow> bool" where
  "listener_ok (Publisher p) = net_publisher_ok p"
| "listener_ok (ExceptionBomb n) = ((\<forall>e. pendingException n = Some e \<longrightarrow> is_runtime_error e) \<and> list_all joinable (subscribers n))"
| "listener_ok (DataLogger s) = True"

interpretation program_listener: listener_contract "listener_eventTriggered N" listener_change listener_ok is_runtime_error for N
proof unfold_locales
  fix l l' xs t
  show "outcome is_runtime_error listener_ok (listener_eventTriggered N l t xs)"
    if l: "listener_ok l" and xs: "list_all var_isValid xs"
  proof (cases l)
    case (Publisher p)
    then show ?thesis using l by (auto intro!: outcome_bind [OF net_publisher_event_outcome] simp: xs)
  next
    case (ExceptionBomb n)
    then show ?thesis using l
      by (auto simp: throwPendingException_def hasPendingException_def split: option.splits)
  next
    case (DataLogger s)
    then show ?thesis by (simp add: csv_event_result [OF xs])
  qed
  show "listener_ok l \<Longrightarrow> listener_change l l' \<Longrightarrow> listener_ok l'"
    by (auto simp: listener_change_def intro: joinable_map [OF sym])
qed

fun any_ready ::
    "('m \<Rightarrow> double \<Rightarrow> bool) \<Rightarrow> ('m \<Rightarrow> fmi_type \<Rightarrow> bool) \<Rightarrow> 'n me_fmu_ops \<Rightarrow> ('m, 'n, 'p) any_predictor \<Rightarrow> bool" where
  "any_ready covers supplies M (MultiStep s) = predictor_ready covers supplies s"
| "any_ready covers supplies M (SingleStep s) = onestep_ready M s"

fun any_offers ::
    "('m \<Rightarrow> double \<Rightarrow> bool) \<Rightarrow> ('m \<Rightarrow> fmi_type \<Rightarrow> bool) \<Rightarrow> 'n me_fmu_ops \<Rightarrow> ('m, 'n, 'p) any_predictor \<Rightarrow> event \<Rightarrow> bool" where
  "any_offers covers supplies M (MultiStep s) ev = predictor_offers covers supplies s ev"
| "any_offers covers supplies M (SingleStep s) ev = onestep_offers M s ev"

definition loop_fails :: "exn \<Rightarrow> bool" where
  "loop_fails e \<longleftrightarrow> onestep_fails e \<or> is_runtime_error e"

lemma loop_failsI: "predictor_fails e \<Longrightarrow> loop_fails e" "onestep_fails e \<Longrightarrow> loop_fails e" "is_runtime_error e \<Longrightarrow> loop_fails e"
  by (cases e; simp add: loop_fails_def)+

lemma outcome_map:
  assumes "outcome E Q r" and "\<And>x. Q x \<Longrightarrow> R (f x)" and "\<And>e. E e \<Longrightarrow> F e"
  shows "outcome F R (rbind r (\<lambda>x. Inr (f x)))"
  using assms by (cases r) simp_all

lemma outcome_map_pair:
  assumes "outcome E (\<lambda>(x, y). Q x y) r" and "\<And>x y. Q x y \<Longrightarrow> R (x, f y)" and "\<And>e. E e \<Longrightarrow> F e"
  shows "outcome F R (rbind r (\<lambda>(x, y). Inr (x, f y)))"
  using assms by (cases r) auto

locale program_library =
  multi: incremental_fmu "incremental L" covers supplies + single: me_fmu "model_exchange L"
  for L :: "('m, 'n) fmu_library" and covers :: "'m \<Rightarrow> double \<Rightarrow> bool" and supplies :: "'m \<Rightarrow> fmi_type \<Rightarrow> bool"
begin

abbreviation "pready \<equiv> any_ready covers supplies (model_exchange L)"
abbreviation "poffers \<equiv> any_offers covers supplies (model_exchange L)"

lemma any_predict:
  assumes "pready s" and "any_predictNext L s = Some r"
  shows "outcome loop_fails (\<lambda>(ev, s'). poffers s' ev \<and> valid_time (getTime ev)) r"
proof (cases s)
  case (MultiStep m)
  then show ?thesis using assms
    by (auto intro!: outcome_map_pair [OF multi.predictNext_outcome] loop_failsI(1))
next
  case (SingleStep o')
  then obtain r' where "onestep_predictNext (model_exchange L) o' = Some r'"
      "outcome onestep_fails (\<lambda>(ev, s'). onestep_offers (model_exchange L) s' ev \<and> valid_time (getTime ev)) r'"
    using assms(1) single.predictNext_outcome by fastforce
  then show ?thesis using assms(2) SingleStep by (auto elim!: outcome_map_pair intro: loop_failsI(2))
qed

lemma any_read:
  assumes "poffers s ev"
  shows "outcome loop_fails (\<lambda>(xs, s'). poffers s' ev \<and> list_all var_isValid xs) (any_getVariables L s ev)"
proof (cases s)
  case (MultiStep m)
  with assms show ?thesis
    by (auto intro!: outcome_map_pair [OF multi.read_outcome] loop_failsI(1) simp: output_vars_def)
next
  case (SingleStep o')
  with assms show ?thesis using single.read_outcome [of o' ev] by simp
qed

lemma any_read_external:
  assumes "pready s" and "external_ok ev"
  shows "outcome loop_fails (\<lambda>(xs, s'). pready s' \<and> list_all var_isValid xs) (any_getVariables L s ev)"
proof (cases s)
  case (MultiStep m)
  with assms show ?thesis using multi.read_external_outcome [OF assms(2), of m] by auto
next
  case (SingleStep o')
  with assms show ?thesis using getVariables_external [OF assms(2), of o'] by simp
qed

lemma any_notify_prediction:
  assumes "poffers s ev"
  shows "outcome loop_fails (\<lambda>s'. poffers s' ev) (any_eventTriggered L s ev)"
proof (cases s)
  case (MultiStep m)
  with assms show ?thesis
    by (auto intro!: outcome_map [OF multi.notify_prediction_outcome] loop_failsI(1))
next
  case (SingleStep o')
  with assms show ?thesis
    by (auto intro!: outcome_map [OF single.notify_prediction_outcome] loop_failsI(2))
qed

lemma any_notify_external:
  assumes "poffers s p" and "external_ok ev" and "fle (getTime ev) (getTime p)"
  shows "outcome loop_fails pready (any_eventTriggered L s ev)"
proof (cases s)
  case (MultiStep m)
  with assms show ?thesis using multi.notify_external_result [of m p ev] by simp
next
  case (SingleStep o')
  with assms show ?thesis
    by (auto intro!: outcome_map [OF single.notify_external_outcome] loop_failsI(2))
qed

lemma any_contract: "predictor_contract (any_ops L N) pready poffers listener_ok loop_fails"
proof unfold_locales
  fix s ev p xs l l' t r
  show "poffers s ev \<Longrightarrow> pready s"
    by (cases s) (simp_all add: multi.offers_ready onestep_offers_def)
  show "listener_ok l \<Longrightarrow> list_all var_isValid xs \<Longrightarrow> outcome loop_fails listener_ok (listener_triggered (any_ops L N) l t xs)"
    by (simp add: any_ops_def, rule outcome_raises [OF program_listener.notify_listener]) (auto intro: loop_failsI)
  show "listener_ok l \<Longrightarrow> listener_async (any_ops L N) l l' \<Longrightarrow> listener_ok l'"
    using program_listener.listener_changes by (simp add: any_ops_def)
qed (simp_all add: any_ops_def any_predict any_read any_read_external any_notify_prediction any_notify_external)

lemmas program_failure = predictor_contract.run_failure [OF any_contract]
lemmas program_front = predictor_contract.run_front [OF any_contract]
lemmas program_refines = predictor_contract.run_refines [OF any_contract]

end

section \<open>Start-up\<close>

fun any_fresh :: "('m, 'n, 'p) any_predictor \<Rightarrow> bool" where
  "any_fresh (MultiStep s) \<longleftrightarrow> outputIDs s = replicate 5 [] \<and> inputIDs s = replicate 5 []"
| "any_fresh (SingleStep s) \<longleftrightarrow> onestep_fresh s"

lemma EventPredictor_fresh: "EventPredictor F mgr sundials P c = Inr s \<Longrightarrow> outputIDs s = replicate 5 [] \<and> inputIDs s = replicate 5 []"
  by (auto simp: EventPredictor_def res_simps case_prod_beta Let_def split: if_splits)

lemma makeEventPredictor_fresh:
  assumes "makeEventPredictor L P c = Inr s"
  shows "any_fresh s"
  using assms
  by (auto simp: makeEventPredictor_def res_simps split: if_splits dest: EventPredictor_fresh OneStepEventPredictor_fresh)

text \<open>The step sizes that are taken by default do not underflow.\<close>

definition default_steps_ok :: "'p ptree_ops \<Rightarrow> 'p application_context \<Rightarrow> bool" where
  "default_steps_ok P c \<longleftrightarrow> step_sizes P c \<noteq> Inl AssertionFailed \<and> default_step_positive P c"

fun start_fails :: "exn \<Rightarrow> bool" where
  "start_fails (RuntimeError _) = True"
| "start_fails e = is_invalid_argument e"

lemma start_failsI: "is_invalid_argument e \<or> is_runtime_error e \<Longrightarrow> start_fails e" "init_fails e \<Longrightarrow> start_fails e"
  by (cases e; simp)+

lemma start_outcome: "outcome is_invalid_argument Q r \<Longrightarrow> outcome start_fails Q r"
  by (rule outcome_raises, assumption, rule start_failsI(1)) simp

text \<open>A result that is optional and may be an exception: it returns, and satisfies a contract.\<close>

definition returns :: "(exn \<Rightarrow> bool) \<Rightarrow> ('a \<Rightarrow> bool) \<Rightarrow> 'a res option \<Rightarrow> bool" where
  "returns E Q m \<longleftrightarrow> (\<exists>r. m = Some r \<and> outcome E Q r)"

lemma returns_bind:
  assumes "returns E R m" and "\<And>x. m = Some (Inr x) \<Longrightarrow> R x \<Longrightarrow> returns E Q (f x)"
  shows "returns E Q (obind m f)"
  using assms by (auto simp: returns_def obind_def split: sum.splits)

lemma returns_Some [simp]: "returns E Q (Some r) = outcome E Q r"
  by (simp add: returns_def)

text \<open>The context after the initialization: both mappings are there, and no output has an unknown type.\<close>

definition mapped_context :: "'p application_context \<Rightarrow> bool" where
  "mapped_context c \<longleftrightarrow> context_ok c \<and> inputChannelMap c \<noteq> None \<and>
     (\<exists>out. outputChannelMap c = Some out \<and> variableIDs out ! 4 = [])"

text \<open>At most one input channel is configured.\<close>

definition single_input :: "'p ptree_ops \<Rightarrow> 'p application_context \<Rightarrow> bool" where
  "single_input P c \<longleftrightarrow> (\<forall>out c1 inp c2. getOutputChannelMapping P c = Some (Inr (out, c1)) \<longrightarrow>
     getInputChannelMapping P c1 = Some (Inr (inp, c2)) \<longrightarrow> length (channels inp) \<le> 1)"

fun the_multi :: "('m, 'n, 'p) any_predictor \<Rightarrow> 'm event_predictor" where
  "the_multi (MultiStep s) = s"

lemma map_option_bind_Some:
  "map_option (\<lambda>r. rbind r f) m = Some (Inr x) \<longleftrightarrow> (\<exists>y. m = Some (Inr y) \<and> f y = Inr x)"
  by (cases m) (auto simp: res_simps)

lemma bind_case_Some:
  "Option.bind m (\<lambda>r. case h r of Inl e \<Rightarrow> Some (Inl e) | Inr x \<Rightarrow> g x) = Some (Inr y) \<longleftrightarrow>
     (\<exists>r x. m = Some r \<and> h r = Inr x \<and> g x = Some (Inr y))"
  by (cases m) (auto split: sum.splits)

lemma case_Some: "(case m of Inl e \<Rightarrow> Some (Inl e) | Inr x \<Rightarrow> g x) = Some (Inr y) \<longleftrightarrow> (\<exists>x. m = Inr x \<and> g x = Some (Inr y))"
  by (cases m) auto

lemma any_init_inputs:
  assumes "any_init L P c s = Some (Inr (s', c'))"
  shows "\<exists>out c1 inp. getOutputChannelMapping P c = Some (Inr (out, c1)) \<and> getInputChannelMapping P c1 = Some (Inr (inp, c'))"
proof (cases s)
  case (MultiStep m)
  then have "predictor_init (incremental L) P c m = Some (Inr (the_multi s', c'))"
    using assms unfolding MultiStep any_init.simps map_option_bind_Some by auto
  then show ?thesis
    by (cases "init_settings P c (modelIdentifier (lowLevelFMU m))")
      (auto simp: predictor_init_def bind_case_Some [where h = "\<lambda>x. x"] case_Some res_simps Let_def)
next
  case (SingleStep o')
  then show ?thesis using assms
    by (auto simp: map_option_bind_Some onestep_init_def bind_case_Some res_simps split: sum.splits)
qed

lemma getInputChannelMapping_stored: "getInputChannelMapping P c = Some (Inr (m, c')) \<Longrightarrow> inputChannelMap c' = Some m"
  by (cases "inputChannelMap c") (auto simp: getInputChannelMapping_def res_simps)

lemma single_inputD:
  assumes "single_input P c" and "any_init L P c s = Some (Inr (s', c'))" and "getInputChannelMapping P c' = Some (Inr (inp, c''))"
  shows "length (channels inp) \<le> 1"
proof -
  obtain out c1 inp' where m: "getOutputChannelMapping P c = Some (Inr (out, c1))" "getInputChannelMapping P c1 = Some (Inr (inp', c'))"
    using any_init_inputs [OF assms(2)] by blast
  then have "inp = inp'" using getInputChannelMapping_stored [OF m(2)] assms(3) by (simp add: getInputChannelMapping_def)
  then show ?thesis using assms(1) m by (auto simp: single_input_def)
qed

context program_library
begin

lemma any_init_returns:
  assumes "any_fresh s" and "channels_ok P c" and "finite_numbers P" and "default_steps_ok P c"
  shows "returns start_fails (\<lambda>(s', c'). pready s' \<and> mapped_context c') (any_init L P c s)"
proof (cases s)
  case (MultiStep m)
  obtain r where r: "predictor_init (incremental L) P c m = Some r" "outcome init_fails (init_result covers supplies) r"
    using multi.predictor_init_outcome [OF assms(2,3), of m] assms(1,4) MultiStep by (auto simp: default_steps_ok_def)
  then show ?thesis using MultiStep start_failsI(2)
    by (cases r) (auto simp: returns_def init_result_def mapped_context_def)
next
  case (SingleStep o')
  obtain r where r: "onestep_init (model_exchange L) P c o' = Some r"
      "outcome is_invalid_argument (onestep_init_result (model_exchange L)) r"
    using single.onestep_init_outcome [OF _ assms(2,3)] assms(1,4) SingleStep by (auto simp: default_steps_ok_def)
  then show ?thesis using SingleStep start_failsI(1)
    by (cases r) (auto simp: returns_def onestep_init_result_def mapped_context_def onestep_ready_def outputs_ok_def)
qed

end

lemma mapped_lookup:
  assumes "mapped_context c"
  obtains out inp where "getOutputChannelMapping P c = Some (Inr (out, c))" "getInputChannelMapping P c = Some (Inr (inp, c))"
    "mapping_ok (portIDSource c) out" "variableIDs out ! 4 = []" "mapping_ok (portIDSource c) inp"
  using assms by (auto simp: mapped_context_def context_ok_def getOutputChannelMapping_def getInputChannelMapping_def)

lemma subscriber_init_outcome:
  assumes "length (portConfig ch) = length (portIDs ch)"
  shows "outcome is_invalid_argument (\<lambda>_. True) (subscriber_init P s ch t)"
  using assms by (simp add: subscriber_init_def getPortIDs_def)

text \<open>A subscriber that was just started; its thread is in order unless a port has an unknown type.\<close>

definition fresh_subscriber :: "tcp_subscriber \<Rightarrow> bool" where
  "fresh_subscriber s \<longleftrightarrow> joinable s \<and> thread s = Idle \<and> \<not> terminationRequest s \<and> handed s = 0 \<and>
     pushedEvents (parser s) = [] \<and> (known_ports (subPorts (parser s)) \<longrightarrow> thread_ok s)"

lemma initAndStart_fresh:
  assumes "initAndStart N P t ch new_subscriber = Inr s"
  shows "fresh_subscriber s"
proof -
  have "joinable s \<and> thread s = Idle \<and> \<not> terminationRequest s \<and> handed s = 0 \<and> pushedEvents (parser s) = [] \<and>
      subPorts (parser s) = portIDs ch"
    using assms by (auto simp: initAndStart_def subscriber_init_def getPortIDs_def initNetwork_def syncConnect_def
        initConfigVariables_def initiateAsyncReceiving_def new_subscriber_def CompactASN1Subscriber_def clearUnprocessedData_def
        res_simps Let_def split: if_splits sum.splits prod.splits option.splits connect_outcome.splits)
  then show ?thesis using initAndStart_ok(1) [OF assms] by (simp add: fresh_subscriber_def)
qed

lemma initAndStart_outcome:
  assumes "length (portConfig ch) = length (portIDs ch)"
  shows "outcome (\<lambda>e. is_invalid_argument e \<or> is_runtime_error e) fresh_subscriber (initAndStart N P t ch new_subscriber)"
proof -
  have h: "outcome is_invalid_argument (\<lambda>_. True) (getHostAndPortName P ch)"
    by (simp add: getHostAndPortName_def split: option.splits)
  have "outcome is_invalid_argument (\<lambda>_. True) (initNetwork N P ch s')" if "sub_channel s' = getHostAndPortName P ch" for s'
    using h that by (auto simp: initNetwork_def syncConnect_def initConfigVariables_def connection_error_def Let_def
        split: sum.splits prod.splits option.splits connect_outcome.splits)
  note n = outcome_raises [OF this]
  have "outcome (\<lambda>e. is_invalid_argument e \<or> is_runtime_error e) (\<lambda>_. True) (initAndStart N P t ch new_subscriber)"
    unfolding initAndStart_def
    by (rule outcome_bind [OF outcome_raises [OF subscriber_init_outcome [OF assms]]], simp, rule outcome_bind [OF n]) simp_all
  then show ?thesis using initAndStart_fresh by (cases "initAndStart N P t ch new_subscriber") auto
qed

lemma foldl_addEventListener:
  "listeners (foldl addEventListener d ls) = listeners d @ ls" "predictor (foldl addEventListener d ls) = predictor d"
  "dqueue (foldl addEventListener d ls) = dqueue d"
  by (induction ls arbitrary: d) (simp_all add: addEventListener_def)

lemma start_subscribers_returns:
  assumes "length (channels inp) \<le> 1" and "\<And>ch. ch \<in> set (channels inp) \<Longrightarrow> length (portConfig ch) = length (portIDs ch)"
  shows "returns start_fails (list_all fresh_subscriber) (start_subscribers N table P t inp)"
proof -
  let ?start = "\<lambda>s ch. initAndStart N P t ch s"
  let ?all = "net_addChannels P (instantiateSubscriber table) ?start inp"
  have all: "outcome start_fails (list_all fresh_subscriber) ?all"
    by (rule outcome_raises [OF net_addChannels_outcome]) (use initAndStart_outcome [OF assms(2)] start_failsI(1) in \<open>auto simp: instantiateSubscriber_def split: if_splits\<close>)
  have one: "isl ?all \<longleftrightarrow> isl (add_channel P (instantiateSubscriber table) ?start (hd (channels inp)))" if "channels inp \<noteq> []"
  proof -
    have "length (channels inp) = 1" using that assms(1) by (cases "channels inp") auto
    then have "nat (sint (getNumberOfChannels inp)) = 1" "getTransmissionChannel inp 0 = Inr (hd (channels inp))"
      using that by (simp_all add: getNumberOfChannels_def getTransmissionChannel_def hd_conv_nth)
    then show ?thesis
      by (cases "add_channel P (instantiateSubscriber table) ?start (hd (channels inp))") (simp_all add: net_addChannels_def)
  qed
  show ?thesis
  proof (cases ?all)
    case (Inl e)
    then show ?thesis using all one by (auto simp: start_subscribers_def Let_def)
  next
    case (Inr subs)
    then show ?thesis using all by (simp add: start_subscribers_def Let_def)
  qed
qed

fun listener_fresh :: "listener \<Rightarrow> bool" where
  "listener_fresh (ExceptionBomb n) = (pendingException n = None \<and> list_all fresh_subscriber (subscribers n))"
| "listener_fresh l = listener_ok l"

lemma listener_fresh_ok: "listener_fresh l \<Longrightarrow> listener_ok l"
  by (cases l) (auto simp: list_all_iff fresh_subscriber_def)

lemma NetworkManager_returns:
  assumes "mapped_context c" and "list_all listener_fresh (listeners d)"
    and "\<And>inp. getInputChannelMapping P c = Some (Inr (inp, c)) \<Longrightarrow> length (channels inp) \<le> 1"
  shows "returns start_fails (\<lambda>(c', d'). c' = c \<and> list_all listener_fresh (listeners d') \<and> predictor d' = predictor d \<and>
    dqueue d' = dqueue d) (NetworkManager N tab P t c d)"
proof -
  obtain out inp where m: "getOutputChannelMapping P c = Some (Inr (out, c))" "getInputChannelMapping P c = Some (Inr (inp, c))"
      "mapping_ok (portIDSource c) out" "variableIDs out ! 4 = []" "mapping_ok (portIDSource c) inp"
    using mapped_lookup [OF assms(1)] by metis
  have pubs: "outcome start_fails (list_all net_publisher_ok)
      (net_addChannels P (instantiatePublisher (publisher_table tab)) (net_publisher_init N P) out)"
    by (rule outcome_raises [OF net_addChannels_outcome [where Q = net_publisher_ok]])
      (use net_publisher_init_outcome [OF mapping_channels_known [OF m(3,4)]] start_failsI(1) in
        \<open>auto simp: instantiatePublisher_def\<close>)
  have l: "length (portConfig ch) = length (portIDs ch)" if "ch \<in> set (channels inp)" for ch
    using m(5) that by (simp add: mapping_ok_def channel_ok_def)
  have subs: "returns start_fails (list_all fresh_subscriber) (start_subscribers N (subscriber_table tab) P t inp)"
    by (rule start_subscribers_returns [OF assms(3) [OF m(2)] l])
  show ?thesis
    unfolding NetworkManager_def
    by (rule returns_bind [where R = "\<lambda>x. x = (out, c)"], simp add: m(1), clarify,
        rule returns_bind [where R = "list_all net_publisher_ok"], simp add: pubs,
        rule returns_bind [where R = "\<lambda>x. x = (inp, c)"], simp add: m(2), clarify,
        rule returns_bind [OF subs])
      (use assms(2) in \<open>auto simp: addEventListener_def foldl_addEventListener list_all_iff elim: outcome_mono\<close>)
qed

lemma openFileStream_outcome:
  "outcome is_invalid_argument (\<lambda>s. csv_header s = [] \<and> csv_stream s \<noteq> None) (openFileStream io no_csv name)"
  by (simp add: openFileStream_def no_csv_def)

lemma initHeader_outcome:
  "csv_header s = [] \<Longrightarrow> csv_stream s \<noteq> None \<Longrightarrow> outcome is_invalid_argument (\<lambda>_. True) (initHeader io inp out s)"
  by (simp add: initHeader_def Let_def)

lemma CSVDataLogger_returns:
  assumes "mapped_context c"
  shows "returns start_fails (\<lambda>(_, c'). c' = c) (CSVDataLogger io P c)"
proof (cases "hasProperty P c PROP_CSV_FILE_NAME")
  case True
  obtain out inp where m: "getOutputChannelMapping P c = Some (Inr (out, c))" "getInputChannelMapping P c = Some (Inr (inp, c))"
    using mapped_lookup [OF assms] by metis
  let ?open = "rbind (getProperty P as_string c PROP_CSV_FILE_NAME) (openFileStream io no_csv)"
  have o: "outcome is_invalid_argument (\<lambda>s. csv_header s = [] \<and> csv_stream s \<noteq> None) ?open"
    by (rule outcome_bind [OF getProperty_outcome], rule openFileStream_outcome)
  show ?thesis
  proof (cases ?open)
    case (Inl e)
    then show ?thesis using o True start_failsI(1) by (simp add: CSVDataLogger_def)
  next
    case (Inr s)
    have "outcome is_invalid_argument (\<lambda>(_, c'). c' = c) (rbind (initHeader io inp out s) (\<lambda>s. Inr (s, c)))"
      by (rule outcome_bind [OF initHeader_outcome]) (use o Inr in simp_all)
    then show ?thesis using Inr True m start_failsI(1)
      by (simp add: CSVDataLogger_def with_mappings_def outcome_raises)
  qed
qed (simp add: CSVDataLogger_def)

text \<open>The state in which the loop starts.\<close>

definition start_ok ::
    "('m \<Rightarrow> double \<Rightarrow> bool) \<Rightarrow> ('m \<Rightarrow> fmi_type \<Rightarrow> bool) \<Rightarrow> 'n me_fmu_ops \<Rightarrow> (('m, 'n, 'p) any_predictor, listener) run_state \<Rightarrow> bool" where
  "start_ok covers supplies M r \<longleftrightarrow> run_started r \<and> any_ready covers supplies M (predictor (disp r)) \<and>
     list_all listener_fresh (listeners (disp r)) \<and> localEpoch (dqueue (disp r)) \<le> now r"

lemma getPositive_start:
  assumes "getPositiveDoubleProperty P c path = Inr start"
  shows "getProperty P (as_double P) c path = Inr start" "fle 0 start"
  using assms by (auto simp: getPositiveDoubleProperty_def getPositiveDoublePropertyOr_def getPropertyOr_def hasProperty_def
      getProperty_def get_optional_def bad_property_def res_simps split: if_splits option.splits)

lemma loop_start_outcome:
  assumes "queue (dqueue d) = []" and "\<not> initialized (dqueue d)" and "list_all listener_fresh (listeners d)"
    and "any_ready covers supplies M (predictor d)"
    and "getPositiveDoubleProperty P c PROP_START_TIME = Inr start" and "isfin start"
  shows "outcome start_fails (start_ok covers supplies M)
    (rbind (dispatcher_initStartTimeNow P c t (addEventListener d (DataLogger csv))) (\<lambda>d'. Inr (start_state d' t)))"
  using assms(1-4) getPositive_start(1) [OF assms(5)] getRelativeTime_nonneg [OF assms(6) getPositive_start(2) [OF assms(5)]]
  by (simp add: dispatcher_initStartTimeNow_def addEventListener_def initStartTimeNow_def notifyInitialized_def Let_def
      start_ok_def start_state_def run_started_def)

text \<open>The initialization of the predictor has read the start time, and leaves the configuration as it is.\<close>

lemma mapping_config:
  "getOutputChannelMapping P c = Some (Inr (m, c')) \<Longrightarrow> config c' = config c"
  "getInputChannelMapping P c = Some (Inr (m, c')) \<Longrightarrow> config c' = config c"
  by (auto simp: getOutputChannelMapping_def getInputChannelMapping_def res_simps split: option.splits)

lemma any_init_start:
  assumes "any_init L P c s = Some (Inr (s', c'))"
  shows "\<exists>start. getPositiveDoubleProperty P c PROP_START_TIME = Inr start"
proof (cases s)
  case (MultiStep m)
  then have "predictor_init (incremental L) P c m = Some (Inr (the_multi s', c'))"
    using assms unfolding MultiStep any_init.simps map_option_bind_Some by auto
  then show ?thesis
    by (cases "init_settings P c (modelIdentifier (lowLevelFMU m))") (auto simp: predictor_init_def dest: init_settings_start)
next
  case (SingleStep o')
  then show ?thesis using assms
    by (auto simp: map_option_bind_Some onestep_init_def res_simps split: sum.splits)
qed

lemma any_init_start_kept:
  assumes "any_init L P c s = Some (Inr (s', c'))" and "finite_numbers P"
  obtains start where "getPositiveDoubleProperty P c' PROP_START_TIME = Inr start" "isfin start"
proof -
  obtain out c1 inp where "getOutputChannelMapping P c = Some (Inr (out, c1))" "getInputChannelMapping P c1 = Some (Inr (inp, c'))"
    using any_init_inputs [OF assms(1)] by blast
  then have c: "config c' = config c" using mapping_config by metis
  obtain start where st: "getPositiveDoubleProperty P c PROP_START_TIME = Inr start" using any_init_start [OF assms(1)] by blast
  moreover have "getPositiveDoubleProperty P c' PROP_START_TIME = getPositiveDoubleProperty P c PROP_START_TIME"
    unfolding getPositiveDoubleProperty_def getPositiveDoublePropertyOr_def getPropertyOr_def hasProperty_def getProperty_def
      bad_property_def c by (rule refl)
  ultimately have "getPositiveDoubleProperty P c' PROP_START_TIME = Inr start" by simp
  then show thesis using that start_finite [OF assms(2)] by blast
qed

context program_library
begin

lemma startup_returns:
  fixes P :: "'p ptree_ops"
  assumes "any_fresh s" and "channels_ok P c" and "finite_numbers P" and "default_steps_ok P c" and "single_input P c"
  shows "returns start_fails (start_ok covers supplies (model_exchange L)) (startup L N io tab P t0 t1 c s)"
  unfolding startup_def
proof (rule returns_bind [where R = "\<lambda>_. True"], goal_cases)
  case 1
  show ?case by (simp add: start_outcome [OF addEventFileSink_outcome])
next
  case 2
  show ?case
  proof (rule returns_bind [OF any_init_returns [OF assms(1-4)]], clarify)
    fix s' :: "('m, 'n, 'p) any_predictor" and c1 :: "'p application_context"
    assume i: "any_init L P c s = Some (Inr (s', c1))" and s': "pready s'" "mapped_context c1"
    let ?cont = "\<lambda>d. obind (NetworkManager N tab P t0 c1 d) (\<lambda>(c2, d1). obind (CSVDataLogger io P c2) (\<lambda>(csv, c3).
      Some (rbind (dispatcher_initStartTimeNow P c3 t1 (addEventListener d1 (DataLogger csv))) (\<lambda>d2. Inr (start_state d2 t1)))))"
    have d: "outcome start_fails (\<lambda>d. predictor d = s' \<and> dqueue d = TimedEventQueue t0 \<and> listeners d = []) (EventDispatcher P c1 t0 s')"
      unfolding EventDispatcher_def
      by (rule outcome_bind [OF outcome_raises [OF getPropertyOr_outcome start_failsI(1)]]) simp_all
    obtain start where st: "getPositiveDoubleProperty P c1 PROP_START_TIME = Inr start" "isfin start"
      by (rule any_init_start_kept [OF i assms(3)])
    have "returns start_fails (start_ok covers supplies (model_exchange L)) (?cont d)"
      if "predictor d = s'" "dqueue d = TimedEventQueue t0" "listeners d = []" for d
      by (rule returns_bind [OF NetworkManager_returns [OF s'(2)]], simp add: that, erule single_inputD [OF assms(5) i], clarify,
          rule returns_bind [OF CSVDataLogger_returns], simp add: s'(2), clarify, simp only: returns_Some,
          rule loop_start_outcome [where start = start]) (simp_all add: that s' st TimedEventQueue_def)
    then show "returns start_fails (start_ok covers supplies (model_exchange L)) (obind (Some (EventDispatcher P c1 t0 s')) ?cont)"
      by (intro returns_bind [where R = "\<lambda>d. predictor d = s' \<and> dqueue d = TimedEventQueue t0 \<and> listeners d = []"])
        (simp_all add: d)
  qed
qed

end

text \<open>The subscribers of the network manager stay joinable while the loop runs.\<close>

lemma notify_listeners_keep:
  assumes "\<And>l l' t xs. I l \<Longrightarrow> listener_triggered D l t xs = Inr l' \<Longrightarrow> I l'"
    and "list_all I ls" and "notify_listeners D ev ls s = Inr (ls', s')"
  shows "list_all I ls'"
  using assms(2,3) by (induction ls arbitrary: s ls' s') (auto simp: res_simps intro: assms(1))

lemma processEvent_listeners:
  "processEvent D d ev = Inr d' \<Longrightarrow> \<exists>s s'. notify_listeners D ev (listeners d) s = Inr (listeners d', s')"
  unfolding processEvent_def by (clarsimp simp: log_timing_def res_simps) (intro exI, assumption)

lemma listeners_keep:
  assumes "\<And>l l' t xs. I l \<Longrightarrow> listener_triggered D l t xs = Inr l' \<Longrightarrow> I l'"
    and "\<And>l l'. I l \<Longrightarrow> listener_async D l l' \<Longrightarrow> I l'"
    and "run_reachable D r0 r" and "list_all I (listeners (disp r0))"
  shows "list_all I (listeners (disp r))"
  using assms(3,4)
proof (induction rule: run_reachable.induct)
  case (step r r')
  then have i: "list_all I (listeners (disp r))" by simp
  from step.hyps(2) show ?case
  proof cases
    case (async ls)
    then show ?thesis using i assms(2) by (auto simp: list_all_length list_all2_conv_all_nth)
  next
    case (predict ev d)
    then show ?thesis using i by (auto elim!: predict_and_addE simp: log_timing_def)
  next
    case (process ev q d)
    obtain s s' where "notify_listeners D ev (listeners (disp r)) s = Inr (listeners d, s')"
      using processEvent_listeners [OF process(4)] by auto
    from notify_listeners_keep [OF assms(1) i this] show ?thesis using process(1) by simp
  qed (use i in simp_all)
qed simp

fun bomb_ok :: "listener \<Rightarrow> bool" where
  "bomb_ok (ExceptionBomb n) = list_all joinable (subscribers n)"
| "bomb_ok _ = True"

lemma listener_bomb_ok: "listener_ok l \<Longrightarrow> bomb_ok l" by (cases l) simp_all

lemma bomb_ok_event: "bomb_ok l \<Longrightarrow> listener_eventTriggered N l t xs = Inr l' \<Longrightarrow> bomb_ok l'"
proof (cases l)
  case (ExceptionBomb n)
  then show "bomb_ok l \<Longrightarrow> listener_eventTriggered N l t xs = Inr l' \<Longrightarrow> bomb_ok l'"
    by (cases "pendingException n") (auto simp: throwPendingException_def hasPendingException_def)
qed (auto simp: res_simps)

lemma bomb_ok_change: "bomb_ok l \<Longrightarrow> listener_change l l' \<Longrightarrow> bomb_ok l'"
  by (auto simp: listener_change_def intro: joinable_map [OF sym])

lemma bombs_keep:
  assumes "run_reachable (any_ops L N) r0 r" and "list_all listener_ok (listeners (disp r0))"
  shows "list_all bomb_ok (listeners (disp r))"
proof (rule listeners_keep [OF _ _ assms(1)])
  show "bomb_ok l'" if "bomb_ok l" "listener_triggered (any_ops L N) l t xs = Inr l'" for l l' t xs
    using bomb_ok_event [of l N t xs l'] that by (simp add: any_ops_def)
  show "bomb_ok l'" if "bomb_ok l" "listener_async (any_ops L N) l l'" for l l'
    using bomb_ok_change [of l l'] that by (simp add: any_ops_def)
qed (use assms(2) in \<open>auto simp: list_all_iff intro: listener_bomb_ok\<close>)

lemma bomb_ok_destructor: "bomb_ok l \<Longrightarrow> \<not> destructor_throws rs l"
  by (cases l) (simp_all add: terminateSubscribers_clean)

lemma exit_code_start: "start_fails e \<Longrightarrow> exit_code e \<in> {Some 1, Some 2, Some 3, Some 4}"
  by (cases e) simp_all

lemma exit_code_loop: "loop_fails e \<Longrightarrow> exit_code e \<in> {Some 3, Some 4}"
  by (cases e) (simp_all add: loop_fails_def)

section \<open>The whole start-up\<close>

lemma addCommandlineOption_outcome: "outcome is_invalid_argument (\<lambda>_. True) (addCommandlineOption P c opt i)"
  by (auto simp: addCommandlineOption_def option_error_def Let_def split: option.splits
      intro!: outcome_bind [OF getProperty_outcome])

lemma addArguments_outcome: "outcome is_invalid_argument (\<lambda>_. True) (addArguments P c args i)"
  by (induction P c args i rule: addArguments.induct) (auto intro!: outcome_bind [OF addCommandlineOption_outcome])

lemma addCommandlineProperties_outcome: "outcome is_invalid_argument (\<lambda>_. True) (addCommandlineProperties P c argv)"
  by (auto simp: addCommandlineProperties_def addArguments_outcome split: list.splits option.splits)

lemma EventPredictor_outcome: "outcome is_invalid_argument (\<lambda>_. True) (EventPredictor F mgr sundials P c)"
  unfolding EventPredictor_def
  by (intro outcome_bind [OF ManagedLowLevelFMU_outcome] outcome_bind [OF SolverConfiguration_outcome])
    (simp add: Let_def split: prod.splits)

lemma loadModel_outcome: "outcome is_invalid_argument (\<lambda>_. True) (loadModel M sundials P c low)"
  unfolding loadModel_def
  by (intro outcome_bind [OF SolverConfiguration_outcome] outcome_bind [where R = "\<lambda>_. True"])
    (simp_all add: Let_def split: prod.splits)

lemma OneStepEventPredictor_outcome:
  "outcome is_invalid_argument (\<lambda>_. True) (OneStepEventPredictor M mgr sundials props P c)"
  unfolding OneStepEventPredictor_def instantiateModel_def
  by (intro outcome_bind [OF ManagedLowLevelFMU_outcome] outcome_bind [OF loadModel_outcome]
      outcome_bind [OF getPropertyOr_outcome]) (simp add: Let_def status_error_def split: prod.splits)

lemma makeEventPredictor_outcome: "outcome is_invalid_argument (\<lambda>_. True) (makeEventPredictor L P c)"
  unfolding makeEventPredictor_def
  by (intro outcome_bind [OF getPropertyOr_outcome])
    (auto intro!: outcome_bind [OF EventPredictor_outcome] outcome_bind [OF OneStepEventPredictor_outcome])

text \<open>
  The options are consistent: when they are accepted and a predictor is made of them, the channels it
  finds have named variables of known type codes, not more than there are port identifiers, at most one of
  them is an input channel, and no default of a step size underflows.
\<close>

definition options_consistent :: "('m, 'n) fmu_library \<Rightarrow> 'p ptree_ops \<Rightarrow> string option list \<Rightarrow> bool" where
  "options_consistent L P argv \<longleftrightarrow> (\<forall>c s. addCommandlineProperties P (ApplicationContext P) argv = Inr c \<longrightarrow>
     makeEventPredictor L P c = Inr s \<longrightarrow>
     channels_ok P (any_configure L P s c) \<and> default_steps_ok P (any_configure L P s c) \<and> single_input P (any_configure L P s c))"

lemma main_returns:
  fixes P :: "'p ptree_ops"
  assumes "program_library L covers supplies" and "options_consistent L P argv" and "finite_numbers P"
  shows "returns start_fails (start_ok covers supplies (model_exchange L)) (main L N io tab P t0 t1 argv)"
  unfolding main_def
proof (rule returns_bind [where R = "\<lambda>_. True"], goal_cases)
  case 1
  show ?case by (simp add: start_outcome [OF addCommandlineProperties_outcome])
next
  case c: (2 c)
  have l: "outcome start_fails (\<lambda>_. True) (configureLogger P c CLILoggingConfigurator)"
    by (rule start_outcome [OF configureLogger_outcome])
  have p: "outcome start_fails (\<lambda>_. True) (makeEventPredictor L P c)" by (rule start_outcome [OF makeEventPredictor_outcome])
  show ?case
  proof (rule returns_bind [where R = "\<lambda>_. True"], simp add: l, rule returns_bind [where R = "\<lambda>_. True"], simp add: p)
    fix s assume s: "Some (makeEventPredictor L P c) = Some (Inr s)"
    then have "channels_ok P (any_configure L P s c)" "default_steps_ok P (any_configure L P s c)" "single_input P (any_configure L P s c)"
      using assms(2) c by (simp_all add: options_consistent_def)
    then show "returns start_fails (start_ok covers supplies (model_exchange L))
        (startup L N io tab P t0 t1 (any_configure L P s c) s)"
      using program_library.startup_returns [OF assms(1) makeEventPredictor_fresh] s assms(3) by blast
  qed
qed

end
