(* ===== verification/Program_Run.thy ===== *)
theory Program_Run
  imports Program
begin

text \<open>
  The program from its command line to its exit code. The first part runs \<open>main\<close> on concrete options: a
  clock model with an output that is published over UDP and an input that is received over TCP; the
  options are accepted, both channels are set up and the loop starts. The second part has the properties of
  \<open>main\<close> and of the network manager.
\<close>

section \<open>A run of the program\<close>

text \<open>The options of a clock model with an output and an input.\<close>

definition clock_library :: "(unit, double) fmu_library" where
  "clock_library = \<lparr>incremental = clock_model, model_exchange = ramp_model, model_loader = ramp_manager,
     with_sundials = False, unset_properties = \<lparr>lookAheadStepSize = 0, integratorStepSize = 0,
       variableStepSizeOnModelEvent = False, timingPrecision = 0\<rparr>\<rparr>"

interpretation clock_library: program_library clock_library "\<lambda>_. isfin" "\<lambda>_ _. True"
  unfolding program_library_def clock_library_def
  by (simp add: clock_model.incremental_fmu_axioms ramp_model.me_fmu_axioms)

definition clock_argv :: "string option list" where
  "clock_argv = [Some ''FMITerminalBlock'', Some ''fmu.path=ramp'', Some ''out.0.0=x'', Some ''out.0.0.type=0'',
     Some ''out.0.protocol=CompactASN.1-UDP'', Some ''out.0.addr=hmi:4000'', Some ''in.0.0=y'', Some ''in.0.0.type=0'',
     Some ''in.0.protocol=CompactASN.1-TCP'', Some ''in.0.addr=plc:4001'', Some ''app.lookAheadTime=1'', Some ''app.startTime=0'']"

definition clock_channel :: "string \<Rightarrow> string \<Rightarrow> string \<Rightarrow> ptree" where
  "clock_channel name protocol addr = PNode [] [(''0'', var_node name ''0''), (''protocol'', PNode protocol []),
     (''addr'', PNode addr [])]"

abbreviation out_channel :: ptree where "out_channel \<equiv> clock_channel ''x'' ''CompactASN.1-UDP'' ''hmi:4000''"
abbreviation in_channel :: ptree where "in_channel \<equiv> clock_channel ''y'' ''CompactASN.1-TCP'' ''plc:4001''"

definition clock_context :: "ptree application_context" where
  "clock_context = \<lparr>config = PNode [] [(''app'', PNode [] [(''name'', PNode ''FMITerminalBlock'' []),
       (''lookAheadTime'', PNode ''1'' []), (''startTime'', PNode ''0'' [])]),
       (''fmu'', PNode [] [(''path'', PNode ''ramp'' [])]),
       (''out'', PNode [] [(''0'', out_channel)]), (''in'', PNode [] [(''0'', in_channel)])],
     portIDSource = new_drawer, outputChannelMap = None, inputChannelMap = None\<rparr>"

lemma clock_accepted: "addCommandlineProperties demo_ops (ApplicationContext demo_ops) clock_argv = Inr clock_context"
  by (simp add: addCommandlineProperties_def clock_argv_def addCommandlineOption_def put_config_def demo_ops_def tree_ops_def
    path_of_def PROP_PROGRAM_NAME_def hasProperty_def ApplicationContext_def clock_context_def clock_channel_def var_node_def)

lemma clock_children:
  "get_child_optional demo_ops (config clock_context) PROP_OUT = Some (PNode [] [(''0'', out_channel)])"
  "get_child_optional demo_ops (config clock_context) PROP_IN = Some (PNode [] [(''0'', in_channel)])"
  "get_child_optional demo_ops (config clock_context) PROP_LOOK_AHEAD_TIME = Some (PNode ''1'' [])"
  "get_child_optional demo_ops (config clock_context) PROP_LOOK_AHEAD_STEP_SIZE = None"
  "get_child_optional demo_ops (config clock_context) PROP_INTEGRATOR_STEP_SIZE = None"
  "get_child_optional demo_ops (config clock_context) PROP_START_TIME = Some (PNode ''0'' [])"
  "get_child_optional demo_ops (config clock_context) PROP_FMU_PATH = Some (PNode ''ramp'' [])"
  "p \<in> {PROP_FMU_NAME, PROP_FMU_DEBUGGING, PROP_EVENT_SEARCH_PRECISION, PROP_INTEGRATOR_TYPE, PROP_ABSOLUTE_TOLERANCE,
     PROP_RELATIVE_TOLERANCE, PROP_INTEGRATION_ORDER, PROP_FMU_INSTANCE_NAME, PROP_EVENT_PREDICTOR, PROP_DIRECT_DEPENDENCY,
     PROP_STOP_TIME, PROP_CSV_FILE_NAME, PROP_LOG_LEVEL, PROP_FILE_NAME, PROP_DEFAULT_INPUT @ ''y''} \<Longrightarrow>
     get_child_optional demo_ops (config clock_context) p = None"
  by (auto simp: demo_ops_def clock_context_def tree_ops_def path_of_def PROP_FMU_PATH_def PROP_FMU_NAME_def
      PROP_FMU_DEBUGGING_def PROP_EVENT_SEARCH_PRECISION_def PROP_INTEGRATOR_TYPE_def PROP_ABSOLUTE_TOLERANCE_def
      PROP_RELATIVE_TOLERANCE_def PROP_INTEGRATION_ORDER_def PROP_FMU_INSTANCE_NAME_def PROP_OUT_def PROP_IN_def
      PROP_LOOK_AHEAD_TIME_def PROP_LOOK_AHEAD_STEP_SIZE_def PROP_INTEGRATOR_STEP_SIZE_def PROP_EVENT_PREDICTOR_def
      PROP_DIRECT_DEPENDENCY_def PROP_STOP_TIME_def PROP_CSV_FILE_NAME_def PROP_LOG_LEVEL_def PROP_FILE_NAME_def PROP_DEFAULT_INPUT_def PROP_START_TIME_def)

lemma clock_steps:
  "step_sizes demo_ops clock_context = Inr (double_one, 0x3FB999999999999A, 0x3F847AE147AE147B)"
  "default_steps_ok demo_ops clock_context"
proof -
  have h: "getRealPositiveDoubleProperty demo_ops clock_context PROP_LOOK_AHEAD_TIME = Inr double_one"
    by (simp add: getRealPositiveDoubleProperty_def hasProperty_def clock_children
     getRealPositiveDoublePropertyOr_def getPositiveDoublePropertyOr_def getPropertyOr_def getProperty_def
     get_optional_def demo_one tenths_pos)
  have "getRealPositiveDoublePropertyOr demo_ops clock_context p d = Inr d"
    if "p = PROP_LOOK_AHEAD_STEP_SIZE \<or> p = PROP_INTEGRATOR_STEP_SIZE" "flt 0 d" "fle 0 d" for p d
    using that by (auto simp: getRealPositiveDoublePropertyOr_def getPositiveDoublePropertyOr_def getPropertyOr_def hasProperty_def clock_children)
  then show s: "step_sizes demo_ops clock_context = Inr (double_one, 0x3FB999999999999A, 0x3F847AE147AE147B)"
    by (simp add: step_sizes_def h tenths tenths_pos)
  show "default_steps_ok demo_ops clock_context" by (simp add: s default_steps_ok_def default_step_positive_def h tenths tenths_pos)
qed

lemma clock_numbered:
  "numbered demo_ops (PNode [] [(''0'', clock_channel n pr ad)]) [clock_channel n pr ad]"
  "numbered demo_ops (clock_channel n pr ad) [var_node n ''0'']"
  "n \<noteq> [] \<Longrightarrow> var_valid demo_ops (var_node n ''0'')"
  by (simp_all add: demo_ops_def tree_eval clock_channel_def)

lemma clock_channels: "channels_ok demo_ops clock_context"
proof -
  have "tree_ok demo_ops clock_context p 1"
    if "get_child_optional demo_ops (config clock_context) p = Some (PNode [] [(''0'', clock_channel n pr ad)])" "n \<noteq> []" for p n pr ad
    using that clock_numbered [of n] unfolding tree_ok_def
    by (auto intro!: exI [of _ "[clock_channel n pr ad]"] exI [of _ "[[var_node n ''0'']]"])
  then have "tree_ok demo_ops clock_context PROP_OUT 1" "tree_ok demo_ops clock_context PROP_IN 1"
    using clock_children(1,2) by blast+
  moreover have "context_ok clock_context" "room (2 ^ 31) (portIDSource clock_context) (1 + 1)"
    by (simp_all add: context_ok_def clock_context_def room_new)
  ultimately show ?thesis unfolding channels_ok_def by blast
qed

lemma clock_absent:
  assumes "get_child_optional demo_ops (config c) p = None"
  shows "\<not> hasProperty demo_ops c p" "getPropertyOr demo_ops ty c p d = Inr d"
  using assms by (simp_all add: hasProperty_def getPropertyOr_def)

lemma clock_made: "\<exists>m. makeEventPredictor clock_library demo_ops clock_context = Inr (MultiStep m)"
proof -
  have data: "data_of demo_ops (PNode x cs) = x" for x cs by (simp add: demo_ops_def tree_ops_def)
  have low: "ManagedLowLevelFMU ramp_manager demo_ops clock_context =
      Inr \<lparr>modelIdentifier = ''ramp'', fmu_path = ''ramp'', fmu_kind = fmi_2_0_me\<rparr>"
    by (simp add: ManagedLowLevelFMU_def initVarsAndLoadFMU_def getProperty_def get_optional_def clock_children
        clock_absent ramp_manager_def lockFMU_def as_string_def data)
  have "fle 0 ten_to_minus_4" using flt_constants(2) by (simp add: fcmp_defs)
  then obtain cfg where cfg: "SolverConfiguration False demo_ops clock_context = Inr cfg" using flt_constants(2)
    by (simp add: SolverConfiguration_def makeIntegratorProperties_def getRealPositiveDoublePropertyOr_def
        getPositiveDoublePropertyOr_def clock_absent clock_children toIntegratorType_def)
  have "getDiffString p p = []" for p
    by (simp add: getDiffString_def getDiffString_double_def feq_def)
  then show ?thesis
    by (simp add: makeEventPredictor_def clock_absent clock_children clock_library_def EventPredictor_def low cfg clock_model_def fmiOK_def)
qed

lemma clock_settings: "init_settings demo_ops clock_context n = Inr (n, 0, double_one, 0x3FB999999999999A, 0x3F847AE147AE147B, False)"
proof -
  have "data_of demo_ops (PNode x cs) = x" for x cs by (simp add: demo_ops_def tree_ops_def)
  moreover have "parse_double demo_ops ''0'' = Some 0" by (simp add: demo_ops_def tree_ops_def digits_conv_def is_digits_def)
  ultimately have "getPositiveDoubleProperty demo_ops clock_context PROP_START_TIME = Inr 0"
    by (simp add: getPositiveDoubleProperty_def getPositiveDoublePropertyOr_def getPropertyOr_def getProperty_def
      hasProperty_def clock_children get_optional_def demo_one fle_zero)
  moreover have "\<not> flt double_one 0x3FB999999999999A" "\<not> flt 0x3FB999999999999A 0x3F847AE147AE147B"
    by (simp_all add: double_one_def fp_eval)
  ultimately show ?thesis
    by (simp add: init_settings_def clock_absent clock_children clock_steps(1) check_step_sizes_def)
qed

lemma fold_one: "fold_body body [x] s = body x s"
  by (cases "body x s") (auto split: sum.splits)

lemma clock_mapping:
  assumes "d = \<lparr>nextPortID = [k, 0, 0, 0, 0]\<rparr>" "n \<noteq> []"
  shows "ChannelMapping demo_ops d (PNode [] [(''0'', clock_channel n pr ad)]) =
    Some (Inr (\<lparr>variableNames = [[n], [], [], [], []], variableIDs = [[(fmiTypeReal, k)], [], [], [], []],
      channels = [\<lparr>channelConfig = clock_channel n pr ad, portIDs = [(fmiTypeReal, k)], portConfig = [var_node n ''0'']\<rparr>]\<rparr>,
      \<lparr>nextPortID = [k + 1, 0, 0, 0, 0]\<rparr>))"
  by (simp add: ChannelMapping_def addChannels_def numbered_loop_fold [OF clock_numbered(1)] fold_one addChannel_def
    addVariables_def numbered_loop_fold [OF clock_numbered(2)] empty_mapping_def,
      simp add: addVariable_def assms demo_ops_def tree_eval get_optional_def getID_def getNextPortID_def pushBackPort_def TransmissionChannel_def all_types_def,
      simp add: eval_nat_numeral)

definition clock_map :: "string \<Rightarrow> string \<Rightarrow> string \<Rightarrow> int32 \<Rightarrow> ptree channel_mapping" where
  "clock_map n pr ad k = \<lparr>variableNames = [[n], [], [], [], []], variableIDs = [[(fmiTypeReal, k)], [], [], [], []],
     channels = [\<lparr>channelConfig = clock_channel n pr ad, portIDs = [(fmiTypeReal, k)], portConfig = [var_node n ''0'']\<rparr>]\<rparr>"

abbreviation out_map :: "ptree channel_mapping" where "out_map \<equiv> clock_map ''x'' ''CompactASN.1-UDP'' ''hmi:4000'' 0"
abbreviation in_map :: "ptree channel_mapping" where "in_map \<equiv> clock_map ''y'' ''CompactASN.1-TCP'' ''plc:4001'' 1"

definition clock_mapped :: "ptree application_context" where
  "clock_mapped = clock_context\<lparr>portIDSource := \<lparr>nextPortID = [2, 0, 0, 0, 0]\<rparr>, outputChannelMap := Some out_map,
     inputChannelMap := Some in_map\<rparr>"

lemma clock_lookup:
  "getOutputChannelMapping demo_ops clock_context = Some (Inr (out_map,
     clock_context\<lparr>portIDSource := \<lparr>nextPortID = [1, 0, 0, 0, 0]\<rparr>, outputChannelMap := Some out_map\<rparr>))"
  "getInputChannelMapping demo_ops (clock_context\<lparr>portIDSource := \<lparr>nextPortID = [1, 0, 0, 0, 0]\<rparr>, outputChannelMap := Some out_map\<rparr>) =
     Some (Inr (in_map, clock_mapped))"
proof -
  have r: "new_drawer = \<lparr>nextPortID = [0, 0, 0, 0, 0]\<rparr>" by (simp add: new_drawer_def eval_nat_numeral)
  have d: "portIDSource clock_context = \<lparr>nextPortID = [0, 0, 0, 0, 0]\<rparr>" "outputChannelMap clock_context = None" "inputChannelMap clock_context = None"
    by (simp_all add: clock_context_def r)
  show "getOutputChannelMapping demo_ops clock_context = Some (Inr (out_map,
     clock_context\<lparr>portIDSource := \<lparr>nextPortID = [1, 0, 0, 0, 0]\<rparr>, outputChannelMap := Some out_map\<rparr>))"
    by (simp add: getOutputChannelMapping_def newChannelMapping_def hasProperty_def getPropertyTree_def clock_children d clock_mapping clock_map_def)
  show "getInputChannelMapping demo_ops (clock_context\<lparr>portIDSource := \<lparr>nextPortID = [1, 0, 0, 0, 0]\<rparr>, outputChannelMap := Some out_map\<rparr>) =
     Some (Inr (in_map, clock_mapped))"
    by (simp add: getInputChannelMapping_def newChannelMapping_def hasProperty_def getPropertyTree_def clock_children d clock_mapping clock_map_def clock_mapped_def)
qed

lemma clock_single: "single_input demo_ops clock_context"
proof -
  have "length (channels in_map) = 1" by (simp add: clock_map_def)
  then show ?thesis by (auto simp: single_input_def clock_lookup)
qed

lemma clock_options: "options_consistent clock_library demo_ops clock_argv"
proof -
  have "any_configure clock_library demo_ops s clock_context = clock_context"
    if "makeEventPredictor clock_library demo_ops clock_context = Inr s" for s
  proof -
    have "rbind (EventPredictor (incremental clock_library) (model_loader clock_library) (with_sundials clock_library)
        demo_ops clock_context) (\<lambda>m. Inr (MultiStep m)) = Inr s"
      using that by (simp add: makeEventPredictor_def getPropertyOr_def hasProperty_def clock_children)
    then obtain m where "s = MultiStep m" by (auto simp: res_simps)
    then show ?thesis
      by (simp add: configureDefaultApplicationContext_def addSensitiveDefaultProperties_def clock_library_def clock_model_def)
  qed
  then show ?thesis by (auto simp: options_consistent_def clock_accepted clock_steps clock_channels clock_single)
qed

lemma clock_rows:
  "getVariableNames (clock_map n pr ad k) t = Inr (if t = fmiTypeReal then [n] else [])"
  "getVariableIDs (clock_map n pr ad k) t = Inr (if t = fmiTypeReal then [(fmiTypeReal, k)] else [])"
  by (cases t; simp add: getVariableNames_def getVariableIDs_def row_assert_def clock_map_def)+

lemma clock_outputs: "\<exists>s'. defineOutputs clock_model out_map s = Inr s'"
  by (simp add: defineOutputs_def defineOutput_def clock_rows)

lemma clock_inputs:
  "\<exists>s'. defineInputs clock_model demo_ops clock_mapped in_map s = Inr s' \<and> length (realInputImage s') = 1 \<and>
     integerInputImage s' = [] \<and> booleanInputImage s' = [] \<and> stringInputImage s' = []"
proof -
  have "config clock_mapped = config clock_context" by (simp add: clock_mapped_def)
  then show ?thesis
    by (simp add: defineInputs_def defineInputs_typed_def clock_rows clock_absent clock_children)
qed

lemma clock_solver:
  assumes "length (realInputImage s) = 1" "integerInputImage s = []" "booleanInputImage s = []" "stringInputImage s = []"
  shows "\<exists>s'. initSolver clock_model in_map name 0 double_one 0x3FB999999999999A 0x3F847AE147AE147B s = Inr s'"
proof -
  have "isfin 0" "fle 0x3FB999999999999A double_one" "fle 0x3F847AE147AE147B 0x3FB999999999999A"
    by (simp_all add: double_one_def fp_eval)
  then show ?thesis using assms by (simp add: initSolver_def clock_rows clock_model_def)
qed

lemma clock_init: "\<exists>s. any_init clock_library demo_ops clock_context (MultiStep m) = Some (Inr (MultiStep s, clock_mapped))"
proof -
  let ?s = "m\<lparr>assumeDirectDependency := False, currentTime := 0, lastPredictedEventTime := 0,
    outputEventVariables := [], outputEventVariablesPopulated := False\<rparr>"
  obtain s1 where s1: "defineOutputs clock_model out_map ?s = Inr s1" using clock_outputs by blast
  obtain s2 where s2: "defineInputs clock_model demo_ops clock_mapped in_map s1 = Inr s2" and
      l: "length (realInputImage s2) = 1" "integerInputImage s2 = []" "booleanInputImage s2 = []" "stringInputImage s2 = []"
    using clock_inputs by blast
  obtain s3 where "initSolver clock_model in_map (modelIdentifier (lowLevelFMU m)) 0 double_one 0x3FB999999999999A 0x3F847AE147AE147B s2 = Inr s3"
    using clock_solver [OF l] by blast
  then have "predictor_init clock_model demo_ops clock_context m = Some (Inr (s3, clock_mapped))"
    by (simp add: predictor_init_def clock_settings clock_lookup s1 s2 Let_def)
  then show ?thesis by (simp add: clock_library_def)
qed

text \<open>A network on which every connection is made, and the protocols of the three transports.\<close>

definition calm_network :: asio_ops where
  "calm_network = \<lparr>resolve_error = (\<lambda>_ _. None), connect_error = (\<lambda>_ _. None), open_error = (\<lambda>_ _. None),
     send_result = (\<lambda>_ bs. Inr (length bs)), connect_attempt = (\<lambda>_ _ _. Connected)\<rparr>"

definition all_protocols :: protocols where
  "all_protocols = \<lparr>publisher_table = [(''CompactASN.1-TCP'', TCP), (''CompactASN.1-UDP'', UDP)],
     subscriber_table = [''CompactASN.1-TCP'']\<rparr>"

lemmas network_eval = net_addChannels_def getNumberOfChannels_def clock_map_def getTransmissionChannel_def add_channel_def
  get_optional_def get_default_def getChannelConfig_def clock_channel_def var_node_def PROP_PROTOCOL_def PROP_ADDR_def demo_ops_def
  tree_ops_def path_of_def instantiatePublisher_def instantiateSubscriber_def all_protocols_def calm_network_def getPortIDs_def
  getPortConfig_def check_error_def

text \<open>The same network with the outcomes \<open>f\<close> of the attempts to connect.\<close>

abbreviation link_network :: "(nat \<Rightarrow> string \<Rightarrow> string \<Rightarrow> connect_outcome) \<Rightarrow> asio_ops" where
  "link_network f \<equiv> calm_network\<lparr>connect_attempt := f\<rparr>"

lemma calm_link: "calm_network = link_network (\<lambda>_ _ _. Connected)"
  by (simp add: calm_network_def)

lemma clock_publishers:
  "\<exists>pubs. net_addChannels demo_ops (instantiatePublisher (publisher_table all_protocols)) (net_publisher_init (link_network f) demo_ops) out_map = Inr pubs"
  by (simp add: network_eval net_publisher_init_def new_publisher_def UDPPublisher_init_def publisher_init_def
    publisher_address_def CompactASN1Publisher_def portOutputType_def PROP_ENCODE_TYPE_def)

lemma clock_subscribers:
  assumes "\<And>h p. f 0 h p = Connected"
  shows "\<exists>s. net_addChannels demo_ops (instantiateSubscriber (subscriber_table all_protocols))
      (\<lambda>s ch. initAndStart (link_network f) demo_ops t ch s) in_map = Inr [s] \<and>
    subPorts (parser s) = [(fmiTypeReal, 1)] \<and> rawData (parser s) = [] \<and> partialData (parser s) = None \<and> receiving s \<and>
    reconnectionRetries s = 4 \<and> attempts s = 1 \<and> sub_channel s = Inr (''plc'', ''4001'')"
  by (simp add: network_eval initAndStart_def new_subscriber_def subscriber_init_def initNetwork_def initConfigVariables_def
    getHostAndPortName_def syncConnect_def Let_def assms initiateAsyncReceiving_def CompactASN1Subscriber_def
    clearUnprocessedData_def PROP_RETRY_COUNT_def PROP_RECON_INTERVALL_def)

text \<open>The program starts its loop on these options.\<close>

lemma clock_starts:
  assumes "\<And>h p. f 0 h p = Connected"
  obtains r0 pubs s csv where "main clock_library (link_network f) io all_protocols demo_ops t0 t1 clock_argv = Some (Inr r0)"
    "listeners (disp r0) = map Publisher pubs @ [ExceptionBomb \<lparr>subscribers = [s], pendingException = None\<rparr>, DataLogger csv]"
    "subPorts (parser s) = [(fmiTypeReal, 1)]" "rawData (parser s) = []" "partialData (parser s) = None" "receiving s"
    "reconnectionRetries s = 4" "attempts s = 1" "sub_channel s = Inr (''plc'', ''4001'')"
proof -
  obtain m where m: "makeEventPredictor clock_library demo_ops clock_context = Inr (MultiStep m)" using clock_made by blast
  obtain s where s: "any_init clock_library demo_ops clock_context (MultiStep m) = Some (Inr (MultiStep s, clock_mapped))"
    using clock_init by blast
  have c: "any_configure clock_library demo_ops (MultiStep m) clock_context = clock_context"
    by (simp add: configureDefaultApplicationContext_def addSensitiveDefaultProperties_def clock_library_def clock_model_def)
  have k: "config clock_mapped = config clock_context" "outputChannelMap clock_mapped = Some out_map" "inputChannelMap clock_mapped = Some in_map"
    by (simp_all add: clock_mapped_def)
  obtain d :: "((unit, double, ptree) any_predictor, listener) dispatcher" where
      d: "EventDispatcher demo_ops clock_mapped t0 (MultiStep s) = Inr d"
    by (simp add: EventDispatcher_def clock_absent clock_children k)
  then have q: "queue (dqueue d) = []" "\<not> initialized (dqueue d)" "listeners d = []"
    by (auto simp: EventDispatcher_def clock_absent clock_children k TimedEventQueue_def)
  obtain pubs where pubs: "net_addChannels demo_ops (instantiatePublisher (publisher_table all_protocols))
      (net_publisher_init (link_network f) demo_ops) out_map = Inr pubs" using clock_publishers by blast
  obtain sub where sub: "net_addChannels demo_ops (instantiateSubscriber (subscriber_table all_protocols))
      (\<lambda>s ch. initAndStart (link_network f) demo_ops t0 ch s) in_map = Inr [sub]"
      "subPorts (parser sub) = [(fmiTypeReal, 1)]" "rawData (parser sub) = []" "partialData (parser sub) = None" "receiving sub"
      "reconnectionRetries sub = 4" "attempts sub = 1" "sub_channel sub = Inr (''plc'', ''4001'')"
    using clock_subscribers [of f t0] assms by blast
  have n: "NetworkManager (link_network f) all_protocols demo_ops t0 clock_mapped d = Some (Inr (clock_mapped,
      addEventListener (foldl addEventListener d (map Publisher pubs)) (ExceptionBomb \<lparr>subscribers = [sub], pendingException = None\<rparr>)))"
    by (simp add: NetworkManager_def start_subscribers_def obind_def getOutputChannelMapping_def getInputChannelMapping_def k pubs sub(1))
  have "data_of demo_ops (PNode x cs) = x" "parse_double demo_ops ''0'' = Some 0" for x cs
    by (simp_all add: demo_ops_def tree_ops_def digits_conv_def is_digits_def)
  then have "getProperty demo_ops (as_double demo_ops) clock_mapped PROP_START_TIME = Inr 0"
    by (simp add: getProperty_def k clock_children get_optional_def demo_one)
  then obtain r0 where "main clock_library (link_network f) io all_protocols demo_ops t0 t1 clock_argv = Some (Inr r0)"
      "listeners (disp r0) = map Publisher pubs @ [ExceptionBomb \<lparr>subscribers = [sub], pendingException = None\<rparr>, DataLogger no_csv]"
    using q by (simp add: main_def startup_def obind_def configureLogger_def addEventFileSink_def clock_accepted m c s d n CSVDataLogger_def clock_absent clock_children k
      dispatcher_initStartTimeNow_def addEventListener_def foldl_addEventListener initStartTimeNow_def Let_def notifyInitialized_def
      start_state_def del: any_configure.simps any_init.simps)
  then show thesis using sub(2-) by (rule that)
qed

section \<open>The loop behind the start-up\<close>

text \<open>What every state of the loop says about the end of the process.\<close>

definition exit_ok :: "(tcp_subscriber \<Rightarrow> unit res) \<Rightarrow> ('s, listener) run_state \<Rightarrow> bool" where
  "exit_ok rs r \<longleftrightarrow> (case rphase r of
     Failed e \<Rightarrow> process_exit rs r \<in> {Some 3, Some 4}
   | Stopped \<Rightarrow> process_exit rs r = Some 0
   | Looping ph \<Rightarrow> ph = Predicting \<or> (\<forall>t. get_iteration (dqueue (disp r)) t \<noteq> WaitForNew))"

lemma loop_exit:
  assumes "program_library L covers supplies" and "start_ok covers supplies (model_exchange L) r0"
    and "run_reachable (any_ops L N) r0 r"
  shows "reachable (view r)" "exit_ok rs r"
proof -
  have s: "run_started r0" "any_ready covers supplies (model_exchange L) (predictor (disp r0))"
      "list_all listener_ok (listeners (disp r0))"
    using assms(2) listener_fresh_ok by (auto simp: start_ok_def list_all_iff)
  show "reachable (view r)" by (rule program_library.program_refines [OF assms(1,3) s])
  have "get_iteration (dqueue (disp r)) t \<noteq> WaitForNew" if "front_ok (pending r) (queue (dqueue (disp r)))" for t
    using that by (cases "queue (dqueue (disp r))") (auto simp: front_ok_def get_iteration_def)
  moreover have "list_all bomb_ok (listeners (disp r))"
    by (rule bombs_keep [OF assms(3) s(3)])
  then have "\<not> list_ex (destructor_throws rs) (listeners (disp r))"
    using bomb_ok_destructor by (auto simp: list_ex_iff list_all_iff)
  ultimately show "exit_ok rs r" unfolding process_exit_def exit_ok_def
    using program_library.program_failure [OF assms(1,3) s]
      program_library.program_front [OF assms(1,3) s] exit_code_loop by (cases "rphase r") auto
qed

section \<open>Properties\<close>




text \<open>The second server does not accept a connection.\<close>

definition half_network :: asio_ops where
  "half_network = calm_network\<lparr>connect_attempt := (\<lambda>_ host _. if host = ''plc'' then Connected else ConnectFailed False)\<rparr>"

definition two_inputs :: "ptree application_context" where
  "two_inputs = clock_mapped\<lparr>inputChannelMap := Some (in_map\<lparr>channels := channels in_map @
     [\<lparr>channelConfig = clock_channel ''y'' ''CompactASN.1-TCP'' ''down:4002'', portIDs = [(fmiTypeReal, 1)],
        portConfig = [var_node ''y'' ''0'']\<rparr>]\<rparr>)\<rparr>"


end
