(* ===== verification/Program_Threads.thy ===== *)
theory Program_Threads
  imports Program_Run
begin

text \<open>
  The program with the threads of its subscribers. Theory Program runs the main loop against any external
  events and any change of the subscribers that \<open>listener_change\<close> allows. Here the events and the changes come
  from the threads of Subscriber\_Thread: a step of \<open>pstep\<close> is a step of the main thread or of the thread of
  one subscriber, with its effects on the queue and on the network manager. The composition refines the loop
  of Program, and its invariant connects what the channels receive with what the loop processes.
\<close>

section \<open>The composition\<close>

fun managers_of :: "listener \<Rightarrow> network_manager list" where
  "managers_of (ExceptionBomb n) = [n]"
| "managers_of _ = []"

definition managers :: "('s, listener) run_state \<Rightarrow> network_manager list" where
  "managers r = concat (map managers_of (listeners (disp r)))"

definition network_subscribers :: "('s, listener) run_state \<Rightarrow> tcp_subscriber list" where
  "network_subscribers r = concat (map subscribers (managers r))"

text \<open>An exception of a thread is kept by the manager, whose \<open>handleException\<close> is the callback of its subscribers.\<close>

fun report :: "action \<Rightarrow> network_manager \<Rightarrow> network_manager" where
  "report (Report e) n = handleException e n"
| "report _ n = n"

text \<open>The main thread alone: the other threads have their own rules below.\<close>

definition main_ops :: "('m, 'n) fmu_library \<Rightarrow> asio_ops \<Rightarrow> (('m, 'n, 'p) any_predictor, listener) dispatch_ops" where
  "main_ops L N = (any_ops L N)\<lparr>listener_async := (=)\<rparr>"

definition looping :: "('s, 'l) run_state \<Rightarrow> bool" where
  "looping r \<longleftrightarrow> (\<exists>ph. rphase r = Looping ph)"

text \<open>
  A step of the thread of subscriber \<open>s\<close> of a manager \<open>n\<close>. The subscribers are asked to terminate by the destructor
  of the manager, after the loop. A push takes the mutex of the queue and wakes the dispatcher; one that fails an
  assertion aborts the process and has no successor. What a thread does before the loop starts, it does
  here as its first steps: without the start time it waits for its first time stamp and pushes nothing.
\<close>

inductive pstep ::
    "('m, 'n) fmu_library \<Rightarrow> asio_ops \<Rightarrow> conversion \<Rightarrow> (('m, 'n, 'p) any_predictor, listener) run_state \<Rightarrow>
     (('m, 'n, 'p) any_predictor, listener) run_state \<Rightarrow> bool"
  for L N conv where
  dispatch: "dstep (main_ops L N) r r' \<Longrightarrow> pushed r' = pushed r \<Longrightarrow> pstep L N conv r r'"
| thread: "listeners (disp r) = ls1 @ ExceptionBomb n # ls2 \<Longrightarrow> subscribers n = ss1 @ s # ss2 \<Longrightarrow>
    tstep N conv (dqueue (disp r)) (now r) s a s' \<Longrightarrow> \<forall>ev. a \<noteq> Push ev \<Longrightarrow>
    looping r \<and> terminationRequest s' \<longrightarrow> terminationRequest s \<Longrightarrow>
    pstep L N conv r (r\<lparr>disp := (disp r)\<lparr>listeners :=
      ls1 @ ExceptionBomb (report a (n\<lparr>subscribers := ss1 @ s' # ss2\<rparr>)) # ls2\<rparr>\<rparr>)"
| push: "listeners (disp r) = ls1 @ ExceptionBomb n # ls2 \<Longrightarrow> subscribers n = ss1 @ s # ss2 \<Longrightarrow>
    tstep N conv (dqueue (disp r)) (now r) s (Push ev) s' \<Longrightarrow>
    pushExternalEvent (dqueue (disp r)) ev = Inr (q, w) \<Longrightarrow>
    pstep L N conv r (r\<lparr>disp := (disp r)\<lparr>dqueue := q, listeners := ls1 @ ExceptionBomb (n\<lparr>subscribers := ss1 @ s' # ss2\<rparr>) # ls2\<rparr>,
      rphase := woken_run w (rphase r), pushed := ev # pushed r\<rparr>)"

inductive_cases pstepE: "pstep L N conv r r'"

inductive program_reachable ::
    "('m, 'n) fmu_library \<Rightarrow> asio_ops \<Rightarrow> conversion \<Rightarrow> (('m, 'n, 'p) any_predictor, listener) run_state \<Rightarrow>
     (('m, 'n, 'p) any_predictor, listener) run_state \<Rightarrow> bool"
  for L N conv r0 where
  start: "program_reachable L N conv r0 r0"
| step: "program_reachable L N conv r0 r \<Longrightarrow> pstep L N conv r r' \<Longrightarrow> program_reachable L N conv r0 r'"

section \<open>The main thread\<close>

lemma notify_listeners_async [simp]:
  "notify_listeners (D\<lparr>listener_async := f\<rparr>) ev ls s = notify_listeners D ev ls s"
  by (induction ls arbitrary: s) simp_all

lemma main_ops_async [simp]:
  "predict_and_add (main_ops L N) d = predict_and_add (any_ops L N) d"
  "processEvent (main_ops L N) d ev = processEvent (any_ops L N) d ev"
  by (simp_all add: main_ops_def predict_and_add_def processEvent_def)

lemma dstep_async:
  assumes "dstep (main_ops L N) r r'"
  shows "dstep (any_ops L N) r r'"
  using assms
proof cases
  case (async ls)
  then have "list_all2 (listener_async (any_ops L N)) (listeners (disp r)) ls"
    by (simp add: main_ops_def any_ops_def listener_change_def list_all2_conv_all_nth)
  then show ?thesis using dstep.async async(1) by blast
qed (auto intro: dstep.intros)

text \<open>An event leaves the network manager alone, or is not processed without exception.\<close>

lemma bomb_event:
  "listener_eventTriggered N (ExceptionBomb n) t xs = Inr l' \<longleftrightarrow> pendingException n = None \<and> l' = ExceptionBomb n"
  by (auto simp: throwPendingException_def hasPendingException_def split: option.splits if_splits)

lemma listener_event_managers: "listener_eventTriggered N l t xs = Inr l' \<Longrightarrow> managers_of l' = managers_of l"
  by (cases l) (auto simp: bomb_event res_simps simp del: listener_eventTriggered.simps(2))

lemma notify_managers:
  assumes "notify_listeners (any_ops L N) ev ls s = Inr (ls', s')"
  shows "map managers_of ls' = map managers_of ls \<and> (\<forall>n. ExceptionBomb n \<in> set ls \<longrightarrow> pendingException n = None)"
  using assms
  by (induction ls arbitrary: s ls' s')
    (auto simp: any_ops_def res_simps listener_event_managers bomb_event simp del: listener_eventTriggered.simps(2))

lemma processEvent_managers:
  assumes "processEvent (any_ops L N) d ev = Inr d'"
  shows "map managers_of (listeners d') = map managers_of (listeners d)"
    and "ExceptionBomb n \<in> set (listeners d) \<Longrightarrow> pendingException n = None"
  using processEvent_listeners [OF assms] notify_managers by blast+

lemma dispatch_managers:
  assumes "dstep (main_ops L N) r r'"
  shows "managers r' = managers r"
  using assms
proof cases
  case (async ls)
  then show ?thesis by (simp add: main_ops_def list.rel_eq managers_def)
next
  case (predict ev d)
  then show ?thesis by (auto simp: managers_def log_timing_def elim!: predict_and_addE)
next
  case (process ev q d)
  then show ?thesis using processEvent_managers(1) [of L N "(disp r)\<lparr>dqueue := q\<rparr>" ev d] by (simp add: managers_def)
qed (simp_all add: managers_def)

lemma dispatch_looping: "dstep D r r' \<Longrightarrow> looping r' \<Longrightarrow> looping r"
  by (erule dstepE) (auto simp: looping_def elim: woken_run.elims)

section \<open>The invariant\<close>

text \<open>
  The events a subscriber has handed to the queue; and while the loop runs, no subscriber was asked to
  terminate, and one whose thread has ended left its exception in the manager.
\<close>

definition handed_events :: "tcp_subscriber \<Rightarrow> event list" where
  "handed_events s = take (handed s) (pushedEvents (parser s))"

definition manager_ok :: "bool \<Rightarrow> network_manager \<Rightarrow> bool" where
  "manager_ok running n \<longleftrightarrow> list_all thread_ok (subscribers n) \<and>
     (running \<longrightarrow> (\<forall>s\<in>set (subscribers n). \<not> terminationRequest s \<and> (thread s = Ended \<longrightarrow> pendingException n \<noteq> None)))"

definition threads_ok :: "('s, listener) run_state \<Rightarrow> bool" where
  "threads_ok r \<longleftrightarrow> list_all (manager_ok (looping r)) (managers r) \<and>
     mset (pushed r) = mset (concat (map handed_events (network_subscribers r)))"

lemma manager_ok_less: "manager_ok b n \<Longrightarrow> (b' \<Longrightarrow> b) \<Longrightarrow> manager_ok b' n"
  by (auto simp: manager_ok_def)

text \<open>A step of a thread, seen from the manager.\<close>

lemma thread_end_reported:
  assumes "tstep N conv q t s a s'" and "thread s' = Ended" and "\<not> terminationRequest s"
  shows "thread s = Ended \<or> (\<exists>e. a = Report e)"
  using assms by (cases rule: tstep.cases) simp_all

lemma manager_ok_step:
  assumes "manager_ok b n" and "subscribers n = ss1 @ s # ss2" and "tstep N conv q t s a s'"
    and "value_conversion conv" and "b \<and> terminationRequest s' \<longrightarrow> terminationRequest s"
  shows "manager_ok b (report a (n\<lparr>subscribers := ss1 @ s' # ss2\<rparr>))" and "good_action s' a"
proof -
  have s: "thread_ok s" using assms(1,2) by (simp add: manager_ok_def)
  note ok = tstep_ok [OF assms(3,4) s]
  show "good_action s' a" using ok by simp
  show "manager_ok b (report a (n\<lparr>subscribers := ss1 @ s' # ss2\<rparr>))"
    using assms(1,2,5) ok thread_end_reported [OF assms(3)]
    by (cases a) (auto simp: manager_ok_def handleException_def)
qed

lemma report_subscribers [simp]: "subscribers (report a n) = subscribers n"
  by (cases a) (simp_all add: handleException_def)

lemma report_change:
  assumes "good_action s' a" and "joinable s' = joinable s" and "subscribers n = ss1 @ s # ss2"
  shows "listener_change (ExceptionBomb n) (ExceptionBomb (report a (n\<lparr>subscribers := ss1 @ s' # ss2\<rparr>)))"
  using assms by (cases a) (auto simp: listener_change_def handleException_def good_action_def)

section \<open>Refinement\<close>

text \<open>A step of a subscriber's thread is an asynchronous step of the loop, behind the external event where it pushes one.\<close>

lemma manager_change:
  assumes "listeners (disp r) = ls1 @ ExceptionBomb n # ls2" and "listener_change (ExceptionBomb n) l"
  shows "dstep (any_ops L N) r (r\<lparr>disp := (disp r)\<lparr>listeners := ls1 @ l # ls2\<rparr>\<rparr>)"
proof (rule dstep.async)
  have "list_all2 listener_change ls ls" for ls by (simp add: list_all2_conv_all_nth listener_change_def)
  then show "list_all2 (listener_async (any_ops L N)) (listeners (disp r)) (ls1 @ l # ls2)"
    using assms by (simp add: any_ops_def list_all2_appendI)
qed

lemma manager_in: "listeners (disp r) = ls1 @ ExceptionBomb n # ls2 \<Longrightarrow> threads_ok r \<Longrightarrow> manager_ok (looping r) n"
  by (simp add: threads_ok_def managers_def)

lemma tstep_joinable: "tstep N conv q t s a s' \<Longrightarrow> value_conversion conv \<Longrightarrow> thread_ok s \<Longrightarrow> joinable s' = joinable s"
  using tstep_ok by (fastforce simp: thread_ok_def)

lemma pstep_refines:
  assumes "pstep L N conv r r'" and "value_conversion conv" and "threads_ok r" and "run_reachable (any_ops L N) r0 r"
  shows "run_reachable (any_ops L N) r0 r'"
proof -
  have change: "good_action s' a" "listener_change (ExceptionBomb n) (ExceptionBomb (report a (n\<lparr>subscribers := ss1 @ s' # ss2\<rparr>)))"
    if "listeners (disp r) = ls1 @ ExceptionBomb n # ls2" "subscribers n = ss1 @ s # ss2"
      "tstep N conv (dqueue (disp r)) (now r) s a s'" for ls1 n ls2 ss1 s ss2 a s'
  proof -
    have s: "thread_ok s" using manager_in [OF that(1) assms(3)] that(2) by (simp add: manager_ok_def)
    show g: "good_action s' a" using tstep_ok [OF that(3) assms(2) s] by simp
    show "listener_change (ExceptionBomb n) (ExceptionBomb (report a (n\<lparr>subscribers := ss1 @ s' # ss2\<rparr>)))"
      by (rule report_change [OF g tstep_joinable [OF that(3) assms(2) s] that(2)])
  qed
  from assms(1) show ?thesis
  proof cases
    case dispatch
    then show ?thesis using run_reachable.step [OF assms(4) dstep_async] by blast
  next
    case (thread ls1 n ls2 ss1 s ss2 a s')
    show ?thesis unfolding thread(1)
      by (rule run_reachable.step [OF assms(4) manager_change [OF thread(2) change(2) [OF thread(2-4)]]])
  next
    case (push ls1 n ls2 ss1 s ss2 ev s' q w)
    let ?r = "r\<lparr>disp := (disp r)\<lparr>dqueue := q\<rparr>, rphase := woken_run w (rphase r), pushed := ev # pushed r\<rparr>"
    have "external_ok ev" using change(1) [OF push(2-4)] by (simp add: good_action_def)
    then have r: "run_reachable (any_ops L N) r0 ?r"
      by (rule run_reachable.step [OF assms(4) dstep.external [OF _ push(5)]])
    have "listeners (disp ?r) = ls1 @ ExceptionBomb n # ls2" using push(2) by simp
    note run_reachable.step [OF r manager_change [OF this change(2) [OF push(2-4)]]]
    moreover have "?r\<lparr>disp := (disp ?r)\<lparr>listeners := ls1 @ ExceptionBomb (report (Push ev) (n\<lparr>subscribers := ss1 @ s' # ss2\<rparr>)) # ls2\<rparr>\<rparr> = r'"
      unfolding push(1) by (rule run_state.equality) simp_all
    ultimately show ?thesis by simp
  qed
qed

lemma subscribers_decomposed:
  assumes "listeners (disp r) = ls1 @ ExceptionBomb n # ls2" and "subscribers n = ss1 @ s # ss2"
  obtains xs ys where "network_subscribers r = xs @ s # ys"
    "\<And>r' a s'. listeners (disp r') = ls1 @ ExceptionBomb (report a (n\<lparr>subscribers := ss1 @ s' # ss2\<rparr>)) # ls2 \<Longrightarrow>
       network_subscribers r' = xs @ s' # ys"
  by (rule that [of "concat (map subscribers (concat (map managers_of ls1))) @ ss1" "ss2 @ concat (map subscribers (concat (map managers_of ls2)))"])
    (simp_all add: network_subscribers_def managers_def assms)

lemma managers_updated:
  assumes "listeners (disp r) = ls1 @ ExceptionBomb n # ls2" and "listeners (disp r') = ls1 @ ExceptionBomb n' # ls2"
    and "list_all (manager_ok b) (managers r)" and "manager_ok b n'"
  shows "list_all (manager_ok b) (managers r')"
  using assms by (simp add: managers_def)

lemma woken_looping: "looping (r\<lparr>disp := d, rphase := woken_run w (rphase r), pushed := p\<rparr>) = looping r"
  by (cases "rphase r") (simp_all add: looping_def)

lemma pstep_threads:
  assumes "pstep L N conv r r'" and "value_conversion conv" and "threads_ok r"
  shows "threads_ok r'"
proof -
  have m: "list_all (manager_ok (looping r)) (managers r)"
    and p: "mset (pushed r) = mset (concat (map handed_events (network_subscribers r)))"
    using assms(3) by (simp_all add: threads_ok_def)
  from assms(1) show ?thesis
  proof cases
    case dispatch
    have "list_all (manager_ok (looping r')) (managers r')"
      using m manager_ok_less dispatch_looping [OF dispatch(1)] unfolding dispatch_managers [OF dispatch(1)] list_all_iff by blast
    then show ?thesis using p dispatch(2) dispatch_managers [OF dispatch(1)]
      by (simp add: threads_ok_def network_subscribers_def)
  next
    case (thread ls1 n ls2 ss1 s ss2 a s')
    let ?n = "report a (n\<lparr>subscribers := ss1 @ s' # ss2\<rparr>)"
    have l: "listeners (disp r') = ls1 @ ExceptionBomb ?n # ls2" "looping r' = looping r" "pushed r' = pushed r"
      using thread(1) by (simp_all add: looping_def)
    note n = manager_in [OF thread(2) assms(3)]
    have "list_all (manager_ok (looping r)) (managers r')"
      by (rule managers_updated [OF thread(2) l(1) m manager_ok_step(1) [OF n thread(3,4) assms(2) thread(6)]])
    moreover have "thread_ok s" using n thread(3) by (simp add: manager_ok_def)
    from tstep_events [OF thread(4) assms(2) this] have "handed_events s' = handed_events s"
      using thread(5) by (cases a) (simp_all add: handed_events_def)
    moreover obtain xs ys where "network_subscribers r = xs @ s # ys" "network_subscribers r' = xs @ s' # ys"
      by (rule subscribers_decomposed [OF thread(2,3)]) (use l(1) in blast)
    ultimately show ?thesis using p l by (simp add: threads_ok_def)
  next
    case (push ls1 n ls2 ss1 s ss2 ev s' q w)
    let ?n = "report (Push ev) (n\<lparr>subscribers := ss1 @ s' # ss2\<rparr>)"
    have l: "listeners (disp r') = ls1 @ ExceptionBomb ?n # ls2" "looping r' = looping r" "pushed r' = ev # pushed r"
      using push(1) by (simp_all add: woken_looping)
    note n = manager_in [OF push(2) assms(3)]
    have t: "looping r \<and> terminationRequest s' \<longrightarrow> terminationRequest s" using push(4) by (auto elim: tstepE)
    have "list_all (manager_ok (looping r)) (managers r')"
      by (rule managers_updated [OF push(2) l(1) m manager_ok_step(1) [OF n push(3,4) assms(2) t]])
    moreover have "thread_ok s" using n push(3) by (simp add: manager_ok_def)
    from tstep_events [OF push(4) assms(2) this] have "handed_events s' = handed_events s @ [ev]" by (simp add: handed_events_def)
    moreover obtain xs ys where "network_subscribers r = xs @ s # ys" "network_subscribers r' = xs @ s' # ys"
      by (rule subscribers_decomposed [OF push(2,3)]) (use l(1) in blast)
    ultimately show ?thesis using p l by (simp add: threads_ok_def)
  qed
qed

section \<open>Reachable states\<close>

text \<open>The inputs of the channels have known types.\<close>

definition inputs_typed :: "('s, listener) run_state \<Rightarrow> bool" where
  "inputs_typed r \<longleftrightarrow> list_all (\<lambda>s. known_ports (subPorts (parser s))) (network_subscribers r)"

lemma start_listeners:
  assumes "start_ok covers supplies M r0"
  shows "run_started r0" "any_ready covers supplies M (predictor (disp r0))" "list_all listener_ok (listeners (disp r0))"
  using assms listener_fresh_ok by (auto simp: start_ok_def list_all_iff)

lemma start_threads:
  assumes "start_ok covers supplies M r0" and "inputs_typed r0"
  shows "threads_ok r0"
proof -
  have fresh: "pendingException n = None \<and> list_all fresh_subscriber (subscribers n)" if n: "n \<in> set (managers r0)" for n
  proof -
    obtain l where l: "l \<in> set (listeners (disp r0))" "n \<in> set (managers_of l)" using n by (auto simp: managers_def)
    then have "listener_fresh l" using assms(1) by (auto simp: start_ok_def list_all_iff)
    then show ?thesis using l(2) by (cases l) simp_all
  qed
  have s: "fresh_subscriber s \<and> thread_ok s" if "s \<in> set (network_subscribers r0)" for s
    using that fresh assms(2) by (auto simp: network_subscribers_def inputs_typed_def fresh_subscriber_def list_all_iff)
  have "list_all (manager_ok True) (managers r0)"
    using s by (fastforce simp: manager_ok_def list_all_iff network_subscribers_def fresh_subscriber_def)
  then have "list_all (manager_ok (looping r0)) (managers r0)" using manager_ok_less by (auto simp: list_all_iff)
  moreover have "handed_events s = []" if "s \<in> set (network_subscribers r0)" for s
    using s [OF that] by (simp add: handed_events_def fresh_subscriber_def)
  then have "concat (map handed_events (network_subscribers r0)) = []" by (simp add: concat_eq_Nil_conv)
  ultimately show ?thesis using assms(1) by (simp add: threads_ok_def start_ok_def run_started_def)
qed

lemma program_invariant:
  assumes "program_library L covers supplies" and "start_ok covers supplies (model_exchange L) r0" and "inputs_typed r0"
    and "value_conversion conv" and "program_reachable L N conv r0 r"
  shows "run_reachable (any_ops L N) r0 r \<and> threads_ok r"
  using assms(5)
proof induction
  case start
  show ?case using run_reachable.start start_threads [OF assms(2,3)] by blast
next
  case (step r r')
  then show ?case using pstep_refines [OF step.hyps(2) assms(4)] pstep_threads [OF step.hyps(2) assms(4)] by blast
qed

section \<open>Progress of the main thread\<close>

text \<open>Steps of the main thread alone, while the clock moves on.\<close>

definition main_run ::
    "('m, 'n) fmu_library \<Rightarrow> asio_ops \<Rightarrow> (('m, 'n, 'p) any_predictor, listener) run_state \<Rightarrow>
     (('m, 'n, 'p) any_predictor, listener) run_state \<Rightarrow> bool" where
  "main_run L N = (\<lambda>r r'. dstep (main_ops L N) r r' \<and> pushed r' = pushed r)\<^sup>*\<^sup>*"

lemma main_run_step: "dstep (main_ops L N) r r1 \<Longrightarrow> pushed r1 = pushed r \<Longrightarrow> main_run L N r1 r2 \<Longrightarrow> main_run L N r r2"
  unfolding main_run_def by (rule converse_rtranclp_into_rtranclp) simp_all

lemma main_run_refl [simp]: "main_run L N r r"
  by (simp add: main_run_def)

lemma main_run_ex: "main_run L N r r' \<Longrightarrow> Q r' \<Longrightarrow> \<exists>r'. main_run L N r r' \<and> Q r'"
  by blast

lemma main_run_program: "main_run L N r r' \<Longrightarrow> program_reachable L N conv r r'"
  unfolding main_run_def
  by (induction rule: rtranclp_induct) (auto intro: program_reachable.intros pstep.dispatch)

text \<open>Inside \<open>get\<close> the dispatcher returns the first entry as soon as it is due, and hands it to the listeners.\<close>

lemma due_processed:
  assumes "rphase r = Looping Running" and "queue (dqueue (disp r)) = e # es"
  shows "\<exists>r'. main_run L N r r' \<and> length (processed r') = Suc (length (processed r))"
proof -
  let ?t = "max (now r) (getSystemTime (dqueue (disp r)) (fst e))" and ?q = "(dqueue (disp r))\<lparr>queue := es\<rparr>"
  let ?r = "r\<lparr>now := ?t\<rparr>"
  have tick: "dstep (main_ops L N) r ?r" by (rule dstep.tick) simp
  have it: "rphase ?r = Looping Running" "get_iteration (dqueue (disp ?r)) (now ?r) = Return (fst e) ?q"
    using assms by (simp_all add: get_iteration_def isFutureEvent_def)
  show ?thesis
  proof (cases "processEvent (main_ops L N) ((disp ?r)\<lparr>dqueue := ?q\<rparr>) (fst e)")
    case (Inl x)
    from main_run_step [OF tick _ main_run_step [OF dstep.process_fails [OF it Inl] _ main_run_refl]] show ?thesis
      by (rule main_run_ex) simp_all
  next
    case (Inr d)
    from main_run_step [OF tick _ main_run_step [OF dstep.process [OF it Inr] _ main_run_refl]] show ?thesis
      by (rule main_run_ex) simp_all
  qed
qed

context program_library
begin

lemma any_predict_total: "pready s \<Longrightarrow> \<exists>r. any_predictNext L s = Some r"
  by (cases s) (auto dest: single.predictNext_outcome)

lemma waiting_advances:
  fixes r0 :: "(('m, 'n, 'p) any_predictor, listener) run_state"
  assumes "run_reachable (any_ops L N) r0 r" and "start_ok covers supplies (model_exchange L) r0"
    and "rphase r = Looping ph" and "ph \<noteq> Predicting"
  shows "\<exists>r'. main_run L N r r' \<and> length (processed r') = Suc (length (processed r))"
proof -
  have "front_ok (pending r) (queue (dqueue (disp r)))"
    using program_front [OF assms(1) start_listeners [OF assms(2)] assms(3,4)] by simp
  then obtain e es where q: "queue (dqueue (disp r)) = e # es" by (cases "queue (dqueue (disp r))") (auto simp: front_ok_def)
  show ?thesis
  proof (cases "ph = Running")
    case True
    then show ?thesis using due_processed [OF _ q] assms(3) by simp
  next
    case False
    let ?r = "r\<lparr>rphase := Looping Running\<rparr>"
    obtain r' where r': "main_run L N ?r r'" "length (processed r') = Suc (length (processed ?r))"
      using due_processed [of ?r e es] q by auto
    obtain t where "rphase r = Looping WaitingNew \<or> rphase r = Looping (WaitingUntil t)"
      using False assms(3,4) by (cases ph) auto
    from main_run_step [OF dstep.spurious [OF this] _ r'(1)] show ?thesis using r'(2) by auto
  qed
qed

lemma loop_advances:
  fixes r0 :: "(('m, 'n, 'p) any_predictor, listener) run_state"
  assumes "run_reachable (any_ops L N) r0 r" and "start_ok covers supplies (model_exchange L) r0" and "looping r"
  shows "\<exists>r'. main_run L N r r' \<and> (length (processed r') = Suc (length (processed r)) \<or> (\<exists>e. rphase r' = Failed e))"
proof -
  obtain ph where ph: "rphase r = Looping ph" using assms(3) by (auto simp: looping_def)
  show ?thesis
  proof (cases "ph = Predicting")
    case False
    then show ?thesis using waiting_advances [OF assms(1,2) ph] by blast
  next
    case True
    with ph have p: "rphase r = Looping Predicting" by simp
    have "pready (predictor (disp r))"
      by (rule predictor_contract.run_ready [OF any_contract assms(1) start_listeners [OF assms(2)] p])
    then obtain z where "any_predictNext L (predictor (disp r)) = Some z" using any_predict_total by blast
    then obtain x where x: "predict_and_add (main_ops L N) (disp r) = Some x"
      by (simp add: predict_and_add_def main_ops_def any_ops_def)
    show ?thesis
    proof (cases x)
      case (Inl e)
      with x have "predict_and_add (main_ops L N) (disp r) = Some (Inl e)" by simp
      from main_run_step [OF dstep.predict_fails [OF p this] _ main_run_refl] show ?thesis
        by (rule main_run_ex) simp_all
    next
      case (Inr y)
      then obtain ev d where "predict_and_add (main_ops L N) (disp r) = Some (Inr (ev, d))" using x by (cases y) simp
      from dstep.predict [OF p this] have st: "dstep (main_ops L N) r (r\<lparr>disp := d, rphase := Looping Running, pending := ev\<rparr>)" .
      obtain r' where "main_run L N (r\<lparr>disp := d, rphase := Looping Running, pending := ev\<rparr>) r'"
          "length (processed r') = Suc (length (processed r))"
        using waiting_advances [OF run_reachable.step [OF assms(1) dstep_async [OF st]] assms(2), of Running] by auto
      then show ?thesis using main_run_step [OF st] by auto
    qed
  qed
qed

end

section \<open>A pending exception\<close>

lemma managers_bomb: "n \<in> set (managers r) \<Longrightarrow> ExceptionBomb n \<in> set (listeners (disp r))"
proof -
  assume "n \<in> set (managers r)"
  then obtain l where l: "l \<in> set (listeners (disp r))" "n \<in> set (managers_of l)" by (auto simp: managers_def)
  have "l = ExceptionBomb n" using l(2) by (cases l rule: managers_of.cases) simp_all
  with l(1) show ?thesis by simp
qed

text \<open>The next event that is processed throws it out of the loop, unless another exception comes first.\<close>

lemma pending_fails:
  assumes "pstep L N conv r r'" and "processed r' \<noteq> processed r" and "n \<in> set (managers r)" and "pendingException n \<noteq> None"
  shows "\<exists>e. rphase r' = Failed e"
  using assms(1)
proof cases
  case dispatch
  from dispatch(1) show ?thesis
  proof cases
    case (process ev q d)
    then show ?thesis using processEvent_managers(2) [of L N "(disp r)\<lparr>dqueue := q\<rparr>" ev d n] managers_bomb [OF assms(3)] assms(4) by simp
  qed (use assms(2) in simp_all)
qed (use assms(2) in simp_all)

lemma pending_kept:
  assumes "pstep L N conv r r'" and "processed r' = processed r" and "\<exists>n\<in>set (managers r). pendingException n \<noteq> None"
  shows "\<exists>n\<in>set (managers r'). pendingException n \<noteq> None"
  using assms(1)
proof cases
  case dispatch
  then show ?thesis using assms(3) dispatch_managers by metis
next
  case (thread ls1 n ls2 ss1 s ss2 a s')
  have "pendingException n \<noteq> None \<Longrightarrow> pendingException (report a (n\<lparr>subscribers := ss1 @ s' # ss2\<rparr>)) \<noteq> None"
    by (cases a) (simp_all add: handleException_def)
  then show ?thesis using assms(3) thread(1,2) by (auto simp: managers_def)
next
  case (push ls1 n ls2 ss1 s ss2 ev s' q w)
  then show ?thesis using assms(3) by (auto simp: managers_def)
qed

lemma failed_kept:
  assumes "pstep L N conv r r'" and "rphase r = Failed e"
  shows "rphase r' = Failed e"
  using assms(1)
proof cases
  case dispatch
  from dispatch(1) show ?thesis by cases (use assms(2) in simp_all)
qed (use assms(2) in simp_all)

lemma pending_ends:
  assumes "program_reachable L N conv r r'" and "n \<in> set (managers r)" and "pendingException n \<noteq> None"
  shows "(processed r' = processed r \<and> (\<exists>n\<in>set (managers r'). pendingException n \<noteq> None)) \<or> (\<exists>e. rphase r' = Failed e)"
  using assms(1)
proof induction
  case start
  then show ?case using assms(2,3) by blast
next
  case (step r' r'')
  show ?case
  proof (cases "(\<exists>e. rphase r' = Failed e) \<or> processed r'' = processed r'")
    case True
    then show ?thesis using step.IH failed_kept [OF step.hyps(2)] pending_kept [OF step.hyps(2)] by metis
  next
    case False
    then show ?thesis using step.IH pending_fails [OF step.hyps(2)] by blast
  qed
qed

lemma program_reachable_trans:
  assumes "program_reachable L N conv r r'" and "program_reachable L N conv r0 r"
  shows "program_reachable L N conv r0 r'"
  using assms by induction (auto intro: program_reachable.step)

section \<open>Sample runs\<close>

text \<open>The clock model of Program\_Run: the start of its loop, and a run in which the input channel receives a value.\<close>

definition open_io :: csv_io where
  "open_io = \<lparr>can_open = (\<lambda>_. True), stream_fails = (\<lambda>_. False)\<rparr>"

lemma main_start_ok:
  assumes "program_library L covers supplies" and "options_consistent L P argv" and "finite_numbers P"
    and "main L N io tab P t0 t1 argv = Some (Inr r0)"
  shows "start_ok covers supplies (model_exchange L) r0"
  using main_returns [OF assms(1-3), of N io tab t0 t1] assms(4) by (simp add: returns_def)

lemmas clock_start_ok = main_start_ok [OF clock_library.program_library_axioms clock_options demo_finite]

lemma start_stamps:
  assumes "start_ok covers supplies M r0"
  shows "stamps (dqueue (disp r0)) (\<lambda>_. getTimeStampNow (dqueue (disp r0)) (now r0))"
proof -
  have "localEpoch (dqueue (disp r0)) \<le> now r0 + 2 ^ 62" using assms by (simp add: start_ok_def)
  then show ?thesis by (auto simp: stamps_def)
qed

lemma clock_channel_started:
  assumes "\<And>h p. f 0 h p = Connected"
  obtains r0 ls1 ls2 s where "main clock_library (link_network f) open_io all_protocols demo_ops 0 1000 clock_argv = Some (Inr r0)"
    "inputs_typed r0" "listeners (disp r0) = ls1 @ ExceptionBomb \<lparr>subscribers = [s], pendingException = None\<rparr> # ls2"
    "concat (map managers_of ls1) = []" "concat (map managers_of ls2) = []" "fresh_subscriber s" "subscriber_ok (parser s)"
    "subPorts (parser s) = [(fmiTypeReal, 1)]" "rawData (parser s) = []" "partialData (parser s) = None" "receiving s"
    "reconnectionRetries s = 4" "attempts s = 1" "sub_channel s = Inr (''plc'', ''4001'')"
proof -
  obtain r0 pubs s csv where r0: "main clock_library (link_network f) open_io all_protocols demo_ops 0 1000 clock_argv = Some (Inr r0)"
    "listeners (disp r0) = map Publisher pubs @ [ExceptionBomb \<lparr>subscribers = [s], pendingException = None\<rparr>, DataLogger csv]"
    "subPorts (parser s) = [(fmiTypeReal, 1)]" "rawData (parser s) = []" "partialData (parser s) = None" "receiving s"
    "reconnectionRetries s = 4" "attempts s = 1" "sub_channel s = Inr (''plc'', ''4001'')"
    by (rule clock_starts [of f open_io 0 1000, OF assms])
  have none: "concat (map managers_of (map Publisher pubs)) = []" "concat (map managers_of [DataLogger csv]) = []" by simp_all
  then have subs: "network_subscribers r0 = [s]" using r0(2) by (simp add: network_subscribers_def managers_def)
  have "fresh_subscriber s" using clock_start_ok [OF r0(1)] r0(2) by (simp add: start_ok_def)
  moreover have "known_ports (subPorts (parser s))" using r0(3) by (simp add: known_ports_def)
  ultimately have "subscriber_ok (parser s)" "inputs_typed r0" by (simp_all add: fresh_subscriber_def thread_ok_def inputs_typed_def subs)
  with \<open>fresh_subscriber s\<close> show thesis using r0(2) none
    by (intro that [OF r0(1), of "map Publisher pubs" s "[DataLogger csv]"]) (simp_all add: r0)
qed

text \<open>The input channel of a started program receives the values \<open>rs\<close> in one packet.\<close>

lemma channel_receives:
  assumes "start_ok covers supplies (model_exchange L) r0"
    and "listeners (disp r0) = ls1 @ ExceptionBomb \<lparr>subscribers = [s], pendingException = None\<rparr> # ls2"
    and "fresh_subscriber s" and "subscriber_ok (parser s)" and "rawData (parser s) = []" and "receiving s"
    and "list_all wire_ok rs" and "length (concat (map wire rs)) \<le> 128"
    and "stamp = (\<lambda>_. getTimeStampNow (dqueue (disp r0)) (now r0))"
  obtains p where
    "parser_state stamp p = foldl (feed strict_conversion stamp (subPorts (parser s))) (parser_state stamp (parser s)) rs"
    "pstep L N strict_conversion r0 (r0\<lparr>disp := (disp r0)\<lparr>listeners := ls1 @ ExceptionBomb
       \<lparr>subscribers = [s\<lparr>parser := p, receiving := False, thread := Handling eof\<rparr>], pendingException = None\<rparr> # ls2\<rparr>\<rparr>)"
proof -
  obtain p where p: "commitData strict_conversion stamp (parser s) (concat (map wire rs)) = Some (Inr p)"
      "parser_state stamp p = foldl (feed strict_conversion stamp (subPorts (parser s))) (parser_state stamp (parser s)) rs"
    by (rule commit_values [OF assms(4,5,7)])
  note f = assms(3) [unfolded fresh_subscriber_def]
  let ?s = "s\<lparr>parser := p, receiving := False, thread := Handling eof\<rparr>"
  have "tstep N strict_conversion (dqueue (disp r0)) (now r0) s Silent ?s"
    by (rule tstep.receive [OF _ _ _ assms(8) _ p(1)]) (use f assms(6,9) start_stamps [OF assms(1)] in \<open>simp_all add: all_handed_def\<close>)
  then have "pstep L N strict_conversion r0 (r0\<lparr>disp := (disp r0)\<lparr>listeners := ls1 @ ExceptionBomb
       \<lparr>subscribers = [?s], pendingException = None\<rparr> # ls2\<rparr>\<rparr>)"
    using pstep.thread [OF assms(2), of "[]" s "[]" N strict_conversion Silent ?s L] f by simp
  with p(2) show thesis by (rule that)
qed

section \<open>Properties\<close>






text \<open>A network whose server accepts the first connection only, and the end of the stream on that connection.\<close>

definition fragile_network :: asio_ops where
  "fragile_network = link_network (\<lambda>k _ _. if k = 0 then Connected else ConnectFailed False)"




end
