(* ===== verification/Spec2Isabelle.thy ===== *)
theory Spec2Isabelle
  imports Program_Threads
begin

text \<open>
  A verification of FMITerminalBlock, a program that couples a simulation model (an FMU) in real time
  with controllers on a network. It predicts the next event of the model, waits in a queue for the time
  of the event or for an event from the network, gives the event that comes first to the model, the
  publishers and the data logger, and starts again.

  \<^bold>\<open>The parts and the theories\<close> (paths under \<open>src/src\<close> and \<open>src/include\<close>)

  \<^item> \<open>FTB_Prelude\<close>: results of fallible code (\<open>exn + 'a\<close>, \<open>Inl\<close> an exception; \<open>rbind\<close>, \<open>assert_that\<close>), the
    exceptions of \<open>base/BaseExceptions.h\<close>, contracts of results (\<open>outcome\<close>) and generic lemmas.
  \<^item> \<open>IEEE_Double\<close> and \<open>Number_Print\<close>: doubles as 64-bit patterns with the arithmetic, comparisons and
    printing of the language; the operations compute, and their order and error lemmas are proved.
  \<^item> \<open>Ports\<close>: \<open>base/PortID\<close>, \<open>base/PortIDDrawer\<close>. \<open>Property_Tree\<close>: the property tree of boost as a record of
    operations, with the laws the program relies on as the locale \<open>property_tree\<close> and a concrete tree
    that satisfies them. \<open>Channel_Mapping\<close>: \<open>base/ChannelMapping\<close>, \<open>base/TransmissionChannel\<close>.
    \<open>Application_Context\<close>: \<open>base/ApplicationContext\<close>.
  \<^item> \<open>Variables\<close>: \<open>timing/Variable\<close>, \<open>Event\<close>, \<open>StaticEvent\<close>, \<open>network/PartialEvent\<close>. An event that is read lazily from
    the model is a constructor of its own.
  \<^item> \<open>Event_Queue\<close>: \<open>timing/TimedEventQueue\<close>, one call one step under the mutex, times in microseconds.
    \<open>Queue_Threads\<close>: the interleavings of the thread that reads the queue with the predictor and the
    threads of the network, as the step relation \<open>qstep\<close>.
  \<^item> \<open>ASN1_Codec\<close>, \<open>ASN1_Publisher\<close>, \<open>ASN1_Subscriber\<close>: the protocol of \<open>network/CompactASN1Publisher\<close> and
    \<open>network/CompactASN1Subscriber\<close> on bytes. The value conversion of boost is the locale \<open>value_conversion\<close>.
  \<^item> \<open>Solver_Configuration\<close>: \<open>model/SolverConfiguration\<close>, \<open>model/ManagedLowLevelFMU\<close>.
  \<^item> \<open>Event_Predictor\<close>: \<open>model/EventPredictor\<close>, \<open>model/LazyEvent\<close>, over an incremental FMU of the library FMI++, the
    locale \<open>incremental_fmu\<close>. \<open>OneStep_Predictor\<close>: \<open>model/OneStepEventPredictor\<close> over a model exchange FMU, the
    locale \<open>me_fmu\<close>.
  \<^item> \<open>Event_Dispatcher\<close>: \<open>timing/EventDispatcher\<close> with its loop as the step relation \<open>dstep\<close>, over any predictor and
    listeners that keep the contract \<open>predictor_contract\<close>. \<open>Multistep_Run\<close> and \<open>OneStep_Run\<close> interpret the contract
    with the two predictors and concrete models.
  \<^item> \<open>CSV_Logger\<close>: \<open>timing/CSVDataLogger\<close>. \<open>Logging\<close>: \<open>base/CLILoggingConfigurator\<close>, \<open>timing/EventLogger\<close>.
  \<^item> \<open>Network\<close>: the transports of \<open>network/CompactASN1TCPClientPublisher\<close>, \<open>CompactASN1UDPPublisher\<close>,
    \<open>CompactASN1TCPClientSubscriber\<close>, \<open>ConcurrentSubscriber\<close>, and \<open>network/NetworkManager\<close>, over outcomes of the
    calls of boost asio (the record \<open>asio_ops\<close>). \<open>Subscriber_Thread\<close>: the thread of a subscriber, with its handlers, its
    timer and the request to terminate, as the step relation \<open>tstep\<close> whose actions the other threads notice.
  \<^item> \<open>Program\<close>: \<open>main.cpp\<close> and \<open>model/EventPredictorFactory\<close>, the parts put together, with the loop against any behaviour of
    the network; \<open>Program_Run\<close>: a run from a command line and the properties of \<open>main\<close>. \<open>Program_Threads\<close>: the loop
    composed with the threads of the subscribers (\<open>pstep\<close>), which refines the loop of \<open>Program\<close>. This theory: what one
    program publishes, another receives.

  \<^bold>\<open>What is shown\<close>

  \<^item> The queue: its invariant, the effect of adding external and predicted events within the tolerance,
    that every external event is delivered once, in order of time, that no notification is lost, and that the
    first event is returned as soon as it is due.
  \<^item> The channel mapping and the context: identifiers are drawn once, ports are shared exactly by equal
    name and type, inputs and outputs are disjoint, options on the command line read back.
  \<^item> The protocol: the parser refines a specification on values for every cut of the bytes into chunks,
    always returns, and inverts the publisher.
  \<^item> The predictors: initialization establishes their invariant, predictions and reads keep it and fail
    only with an exception of the solver, every prediction of the single-step predictor returns.
  \<^item> The loop: with either predictor it refines the threads of the queue, fails no assertion, never waits on
    an empty queue and stops at the first event at or after the stop time.
  \<^item> The program: the start-up of \<open>main\<close> returns, its exit codes are those documented, and its destructors
    throw nothing, for consistent options and at most one input channel; with two, a failure of the second
    does not return (\<open>subscriber_abandoned\<close>).
  \<^item> The threads: whatever a subscriber receives, its thread keeps the invariant of the parser, pushes valid events only
    and ends with at most one exception, a runtime error; asked to terminate it ends. In the whole program every
    event a subscriber handed over is in the queue or was processed, a channel whose thread has ended makes the loop
    fail at the next event, and the main thread always gets to the next event or to a failure without waiting for the network.

  \<^bold>\<open>Modelling choices\<close>

  \<^item> A failed assertion is the exception \<open>AssertionFailed\<close>; every other exception of the code is a constructor.
  \<^item> Loops are structural recursion or have a measure. Four may not end in the code and are partial functions
    to an option, where \<open>None\<close> is a call that does not return: counting the children of a property tree,
    parsing received bytes, the steps of the single-step prediction and the construction of the network
    manager; the theorems show when they return. No fuel is used.
  \<^item> Code that is not part of the repository is a record of operations with its documented behaviour as a
    locale, and a concrete instance on which the laws hold: the property tree, the value conversion, the
    two FMU classes. The sockets, the streams, the model manager and the clock are arguments.
  \<^item> Threads are interleaved in steps that are atomic under the mutexes of the code. A handler of a subscriber is split
    where it hands an event to the queue. The time stamps of received data are readings of the clock at any time, since the
    code reads the clock before it waits for the start of the loop; the bound of 62 bits stands for the width of the clock.
  \<^item> The theorems on the composed program take inputs of known types: the multi-step predictor refuses others, the
    single-step predictor accepts them, and then the subscriber fails an assertion (\<open>unknown_input_aborts\<close>).

  \<^bold>\<open>Not modelled\<close>: the messages of the log and the format of the console, which are output only; the internals of
  boost and FMI++, which the sources call; the code the build generates for the protocol tables, a
  parameter; the release of memory; an external event for which the assertion of \<open>push\<close> fails, which the invariant
  \<open>queue_ok\<close> excludes but a rounding error in front of a prediction does not, and which aborts the process; the destructor of the
  network manager when the start-up fails behind it, which does not return when a subscriber has received data
  by then and waits for the start of the queue; the layout of \<open>float\<close> in memory that \<open>encodeREALValue\<close> reads beyond its end,
  of which the four transmitted bytes are modelled.
\<close>

section \<open>From a publisher to a subscriber\<close>

text \<open>
  Two programs that are connected: a publisher is notified of a sequence of events, the bytes its socket
  takes arrive at the subscriber of the other program in chunks of any size.
\<close>

fun net_publish_all :: "asio_ops \<Rightarrow> net_publisher \<Rightarrow> variable list list \<Rightarrow> net_publisher res" where
  "net_publish_all N p [] = Inr p"
| "net_publish_all N p (vars # evs) =
     rbind (net_publisher_eventTriggered N p vars) (\<lambda>p'. net_publish_all N p' evs)"

text \<open>The values behind each event, and a value as it arrives: a boolean is 0 or 1, a string loses what the length field cannot count.\<close>

fun slot_history :: "variable list list \<Rightarrow> variable list \<Rightarrow> variable list list" where
  "slot_history [] xs = []"
| "slot_history (vars # evs) xs = (let ys = map (updated_slot vars) xs in ys # slot_history evs ys)"

fun transmitted :: "any \<Rightarrow> any" where
  "transmitted (AnyBool b) = AnyBool (if b \<noteq> 0 then 1 else 0)"
| "transmitted (AnyString s) = AnyString (take (length s mod 65536) s)"
| "transmitted v = v"

definition received_event :: "double \<Rightarrow> port_id list \<Rightarrow> variable list \<Rightarrow> event" where
  "received_event t ports xs =
     PartialEvent t ports (map2 Variable ports (map (\<lambda>x. transmitted (var_data x)) xs)) (length ports)"

definition raw_row :: "data_type list \<Rightarrow> variable list \<Rightarrow> raw_value list" where
  "raw_row dts xs = map2 (\<lambda>x dt. raw_of dt (var_data x)) xs dts"

lemma packet_row: "packet xs dts = concat (map wire (raw_row dts xs))"
  by (simp add: packet_def raw_row_def comp_def case_prod_unfold)

lemma concat_concat_map: "concat (concat (map f xs)) = concat (map (\<lambda>x. concat (f x)) xs)"
  by (induction xs) simp_all

lemma raw_row_ok: "list_all wire_ok (raw_row dts xs)"
  by (auto simp: raw_row_def list_all_iff raw_of_ok)

lemma history_length [simp]: "length (slot_history evs xs) = length evs"
  by (induction evs xs rule: slot_history.induct) (simp_all add: Let_def)

lemma history_ok:
  assumes "\<forall>vars\<in>set evs. list_all var_isValid vars" and "list_all2 slot_ok xs dts" and "ys \<in> set (slot_history evs xs)"
  shows "list_all2 slot_ok ys dts" "map var_id ys = map var_id xs"
proof -
  have "list_all2 slot_ok ys dts \<and> map var_id ys = map var_id xs"
    using assms
  proof (induction evs xs rule: slot_history.induct)
    case (2 vars evs xs)
    let ?zs = "map (updated_slot vars) xs"
    have z: "list_all2 slot_ok ?zs dts" using 2 slots_updated_ok by simp
    have i: "map var_id ?zs = map var_id xs" by (simp add: updated_slot_def split: option.splits)
    show ?case
    proof (cases "ys = ?zs")
      case False
      then have "ys \<in> set (slot_history evs ?zs)" using 2 by (simp add: Let_def)
      then show ?thesis using 2 z i by simp
    qed (use z i in simp)
  qed simp
  then show "list_all2 slot_ok ys dts" "map var_id ys = map var_id xs" by simp_all
qed

text \<open>A value of a port arrives as it was sent, unless it is sent as single-precision number.\<close>

lemma conv_transmitted:
  assumes "value_conversion conv" and "slot_ok x dt" and "dt \<noteq> REAL"
  shows "conv (raw_of dt (var_data x)) (fst (var_id x)) = Some (transmitted (var_data x))"
proof (rule value_conversion.conv_same [OF assms(1)])
  have h: "any_has_type (fst (var_id x)) (var_data x)" and c: "CASTABLE (fst (var_id x)) dt"
    using assms(2) by (simp_all add: slot_ok_def var_isValid_def)
  show "raw_any (raw_of dt (var_data x)) = Some (transmitted (var_data x))"
    by (rule typed_cases [OF h]; cases dt; use c assms(3) in simp)
  show "any_has_type (fst (var_id x)) (transmitted (var_data x))"
    by (rule typed_cases [OF h]) (use h in simp_all)
qed

lemma feed_rows:
  assumes "\<forall>r\<in>set rows. length (fst r) = length ports \<and> length (snd r) = length ports \<and>
      (\<forall>i<length ports. conv (fst r ! i) (fst (ports ! i)) = Some (snd r ! i))" and "ports \<noteq> []"
  shows "fst (foldl (feed conv stamp ports) (done, newPartialEvent (stamp (length done)) ports) (concat (map fst rows))) =
    done @ map2 (\<lambda>k r. PartialEvent (stamp (length done + k)) ports (map2 Variable ports (snd r)) (length ports))
      [0..<length rows] rows"
  using assms(1)
proof (induction rows arbitrary: "done")
  case (Cons r rows)
  let ?ev = "PartialEvent (stamp (length done)) ports (map2 Variable ports (snd r)) (length ports)"
  have "foldl (feed conv stamp ports) (done, newPartialEvent (stamp (length done)) ports) (fst r) =
      (done @ [?ev], newPartialEvent (stamp (length (done @ [?ev]))) ports)"
    using feed_complete [of "fst r" ports 0 "snd r" conv "[]" stamp "done" "stamp (length done)"] Cons.prems assms(2)
    by (simp add: newPartialEvent_def)
  then show ?case using Cons.IH [of "done @ [?ev]"] Cons.prems
    by (auto simp: upt_rec [of 0] map_Suc_upt [symmetric] zip_map1 simp del: upt_Suc)
qed simp

lemma net_publish_all_sends:
  assumes "publisher_ok (encoder p)" and "\<forall>k bs. send_result N k bs = Inr (length bs)"
    and "\<forall>vars\<in>set evs. list_all var_isValid vars \<and> (\<exists>v\<in>set vars. var_id v \<in> var_id ` set (outputVariables (encoder p)))"
  shows "\<exists>p'. net_publish_all N p evs = Inr p' \<and> transferred p' = transferred p @
    map (\<lambda>xs. packet xs (outputTypes (encoder p))) (slot_history evs (outputVariables (encoder p)))"
  using assms(1,3)
proof (induction evs arbitrary: p)
  case (Cons vars evs)
  let ?xs = "map (updated_slot vars) (outputVariables (encoder p))"
  let ?e = "(encoder p)\<lparr>outputVariables := ?xs, sentPackets := sentPackets (encoder p) @ [packet ?xs (outputTypes (encoder p))]\<rparr>"
  let ?p = "p\<lparr>encoder := ?e, transferred := transferred p @ [packet ?xs (outputTypes (encoder p))]\<rparr>"
  have v: "list_all var_isValid vars" "\<exists>v\<in>set vars. var_id v \<in> var_id ` set (outputVariables (encoder p))"
    using Cons.prems(2) by simp_all
  have e: "publisher_eventTriggered (encoder p) vars = Inr ?e" "publisher_ok ?e"
    using publisher_event_state [OF Cons.prems(1) v(1)] v(2) by (simp_all add: publisher_ok_def)
  have step: "net_publisher_eventTriggered N p vars = Inr ?p"
    using assms(2) by (simp add: net_publisher_eventTriggered_def e(1) sendData_def)
  have "var_id ` set ?xs = var_id ` set (outputVariables (encoder p))"
    by (auto simp: updated_slot_def image_image split: option.splits)
  then obtain p' where "net_publish_all N ?p evs = Inr p'" "transferred p' = transferred ?p @
      map (\<lambda>xs. packet xs (outputTypes (encoder ?p))) (slot_history evs (outputVariables (encoder ?p)))"
    using Cons.IH [of ?p] Cons.prems(2) e(2) by auto
  then show ?case by (simp add: step Let_def)
qed simp

text \<open>Every row of the history has a value for every port, which the conversion gives to the receiver.\<close>

lemma history_row_converts:
  assumes "value_conversion conv" and "publisher_ok e" and "REAL \<notin> set (outputTypes e)"
    and "\<forall>vars\<in>set evs. list_all var_isValid vars" and "map fst ports = map (fst \<circ> var_id) (outputVariables e)"
    and "xs \<in> set (slot_history evs (outputVariables e))"
  shows "length xs = length ports" "length (outputTypes e) = length ports"
    "i < length ports \<Longrightarrow>
       conv (raw_of (outputTypes e ! i) (var_data (xs ! i))) (fst (ports ! i)) = Some (transmitted (var_data (xs ! i)))"
proof -
  let ?dts = "outputTypes e"
  have ok: "list_all2 slot_ok xs ?dts" "map var_id xs = map var_id (outputVariables e)"
    using history_ok [OF _ _ assms(6), of ?dts] assms(2,4) by (simp_all add: publisher_ok_def)
  have t: "map fst ports = map (fst \<circ> var_id) xs" using assms(5) ok(2) by (simp flip: map_map)
  then show l: "length xs = length ports" "length ?dts = length ports"
    using list_all2_lengthD [OF ok(1)] by (metis length_map)+
  assume i: "i < length ports"
  have "slot_ok (xs ! i) (?dts ! i)" using ok(1) i l by (simp add: list_all2_conv_all_nth)
  moreover have "?dts ! i \<noteq> REAL" using assms(3) i l by (metis nth_mem)
  moreover have "fst (ports ! i) = fst (var_id (xs ! i))" using arg_cong [OF t, of "\<lambda>l. l ! i"] i l by simp
  ultimately show "conv (raw_of (?dts ! i) (var_data (xs ! i))) (fst (ports ! i)) = Some (transmitted (var_data (xs ! i)))"
    using conv_transmitted [OF assms(1)] by simp
qed

lemma commit_packets:
  assumes "value_conversion conv" and "subscriber_ok s" and "rawData s = []"
    and "concat chunks = concat (map (\<lambda>xs. packet xs dts) h)"
  shows "\<exists>s'. commitAll conv stamp s chunks = Some (Inr s') \<and> rawData s' = [] \<and>
    pushedEvents s' = fst (foldl (feed conv stamp (subPorts s)) (parser_state stamp s) (concat (map (raw_row dts) h)))"
proof -
  have w: "list_all wire_ok (concat (map (raw_row dts) h))" using raw_row_ok by (auto simp: list_all_iff)
  have b: "rawData s @ concat chunks = concat (map wire (concat (map (raw_row dts) h)))"
    using assms(3,4) by (simp add: packet_row map_concat comp_def concat_concat_map)
  have n: "partial_value (rawData s)" using assms(3) by (simp add: partial_value_def)
  obtain s' where "commitAll conv stamp s chunks = Some (Inr s')" "rawData s' = []"
      "parser_state stamp s' = foldl (feed conv stamp (subPorts s)) (parser_state stamp s) (concat (map (raw_row dts) h))"
    using commitAll_refines [OF assms(1,2) w b n, of stamp] by blast
  then show ?thesis by (metis fst_conv parser_state_def)
qed

section \<open>Properties\<close>


text \<open>Two events, sent over TCP and received byte by byte by a program that numbers its ports differently.\<close>

definition demo_sender :: net_publisher where
  "demo_sender = \<lparr>encoder = demo_publisher, transport = TCP, destination = Some (''plc'', ''4001''), transferred = []\<rparr>"

definition demo_receiver :: subscriber where
  "demo_receiver = CompactASN1Subscriber\<lparr>subPorts := [(fmiTypeInteger, 7), (fmiTypeBoolean, 3)]\<rparr>"

definition demo_events :: "variable list list" where
  "demo_events = [[Variable (fmiTypeInteger, 0) (AnyInt 258)], [Variable (fmiTypeBoolean, 0) (AnyBool 7)]]"


end
